(* ===== verification/GoStd.thy ===== *)
theory GoStd
  imports Prelude "HOL-Library.Code_Target_Numeral"
begin

text \<open>
  The parts of the Go language and of its standard library the program uses: decimal and
  quoted formatting (\<open>strconv\<close>, \<open>fmt\<close>), \<open>strings\<close>, \<open>net.SplitHostPort\<close> and
  \<open>net.JoinHostPort\<close>, \<open>strconv.ParseUint\<close> and \<open>time.ParseDuration\<close> with its 64-bit
  overflow checks and its IEEE double arithmetic for fractions. A Go string is a sequence of
  bytes, here a \<open>string\<close>. The names here follow the library's.
\<close>

section \<open>Strings\<close>

abbreviation byte_of :: "char \<Rightarrow> nat" where
  "byte_of c \<equiv> of_char c"

definition HasPrefix :: "string \<Rightarrow> string \<Rightarrow> bool" where
  "HasPrefix s p \<longleftrightarrow> take (length p) s = p"

definition TrimSuffix :: "string \<Rightarrow> string \<Rightarrow> string" where
  "TrimSuffix s suf =
     (if length suf \<le> length s \<and> drop (length s - length suf) s = suf
      then take (length s - length suf) s else s)"

fun Join :: "string list \<Rightarrow> string \<Rightarrow> string" where
  "Join [] sep = []"
| "Join [x] sep = x"
| "Join (x # xs) sep = x @ sep @ Join xs sep"

fun ReplaceByte :: "char \<Rightarrow> string \<Rightarrow> string \<Rightarrow> string" where
  "ReplaceByte c new [] = []"
| "ReplaceByte c new (x # xs) = (if x = c then new else [x]) @ ReplaceByte c new xs"

lemma HasPrefix_iff: "HasPrefix s p \<longleftrightarrow> (\<exists>r. s = p @ r)"
  by (auto simp: HasPrefix_def) (metis append_take_drop_id)

section \<open>Decimal numbers\<close>

definition digit_char :: "nat \<Rightarrow> char" where
  "digit_char d = char_of (48 + d mod 10)"

fun dec_digits :: "nat \<Rightarrow> string" where
  "dec_digits n = (if n < 10 then [digit_char n] else dec_digits (n div 10) @ [digit_char n])"

declare dec_digits.simps [simp del]

definition Itoa :: "int \<Rightarrow> string" where
  "Itoa i = (if i < 0 then CHR ''-'' # dec_digits (nat (- i)) else dec_digits (nat i))"

definition is_digit :: "char \<Rightarrow> bool" where
  "is_digit c \<longleftrightarrow> 48 \<le> byte_of c \<and> byte_of c \<le> 57"

definition digit_val :: "char \<Rightarrow> nat" where
  "digit_val c = byte_of c - 48"

definition dec_val :: "string \<Rightarrow> nat" where
  "dec_val s = foldl (\<lambda>x c. 10 * x + digit_val c) 0 s"

lemma digit_char_props:
  "is_digit (digit_char d)" "digit_val (digit_char d) = d mod 10"
  by (simp_all add: is_digit_def digit_val_def digit_char_def of_char_mod_256)

lemma dec_digits_digits: "\<forall>c\<in>set (dec_digits n). is_digit c"
  by (induction n rule: dec_digits.induct) (subst dec_digits.simps, auto simp: digit_char_props)

lemma dec_digits_nonempty: "dec_digits n \<noteq> []"
  by (subst dec_digits.simps) simp

lemma dec_val_snoc: "dec_val (s @ [c]) = 10 * dec_val s + digit_val c"
  by (simp add: dec_val_def)

text \<open>Printing a number in decimal and reading it back.\<close>

lemma dec_val_digits: "dec_val (dec_digits n) = n"
proof (induction n rule: dec_digits.induct)
  case (1 n)
  then show ?case
    by (subst dec_digits.simps) (auto simp: dec_val_snoc digit_char_props dec_val_def)
qed

lemma dec_digits_inj: "dec_digits m = dec_digits n \<Longrightarrow> m = n"
  by (metis dec_val_digits)

section \<open>Quoting\<close>

definition hex_char :: "nat \<Rightarrow> char" where
  "hex_char d = (if d < 10 then char_of (48 + d) else char_of (87 + d))"

definition hex_escape :: "char \<Rightarrow> string" where
  "hex_escape c = [CHR 0x5C, CHR ''x'', hex_char (byte_of c div 16), hex_char (byte_of c mod 16)]"

text \<open>
  \<open>strconv.Quote\<close> (the verb \<open>%q\<close>) on ASCII text, which is all that the API server admits in
  the names and durations the program quotes; bytes of other characters are kept.
\<close>

definition quote_char :: "char \<Rightarrow> string" where
  "quote_char c =
     (if c = CHR 0x22 \<or> c = CHR 0x5C then [CHR 0x5C, c]
      else if c = CHR 0x07 then [CHR 0x5C, CHR ''a'']
      else if c = CHR 0x08 then [CHR 0x5C, CHR ''b'']
      else if c = CHR 0x0C then [CHR 0x5C, CHR ''f'']
      else if c = CHR 0x0A then [CHR 0x5C, CHR ''n'']
      else if c = CHR 0x0D then [CHR 0x5C, CHR ''r'']
      else if c = CHR 0x09 then [CHR 0x5C, CHR ''t'']
      else if c = CHR 0x0B then [CHR 0x5C, CHR ''v'']
      else if byte_of c < 32 \<or> byte_of c = (127::nat) then hex_escape c
      else [c])"

definition Quote :: "string \<Rightarrow> string" where
  "Quote s = CHR 0x22 # concat (map quote_char s) @ [CHR 0x22]"

text \<open>The private \<open>quote\<close> of package \<open>time\<close>, used in its error messages.\<close>

definition time_quote :: "string \<Rightarrow> string" where
  "time_quote s = CHR 0x22 # concat (map (\<lambda>c.
     if byte_of c \<ge> 128 \<or> byte_of c < (32::nat) then hex_escape c
     else if c = CHR 0x22 \<or> c = CHR 0x5C then [CHR 0x5C, c] else [c]) s) @ [CHR 0x22]"

section \<open>Addresses\<close>

definition IndexByte :: "string \<Rightarrow> char \<Rightarrow> nat option" where
  "IndexByte s c = (let pre = takeWhile (\<lambda>x. x \<noteq> c) s in
     if length pre < length s then Some (length pre) else None)"

definition LastIndexByte :: "string \<Rightarrow> char \<Rightarrow> nat option" where
  "LastIndexByte s c = map_option (\<lambda>i. length s - 1 - i) (IndexByte (rev s) c)"

datatype addr_error = MissingPort | TooManyColons | MissingBracket | UnexpectedOpen | UnexpectedClose

definition SplitHostPort :: "string \<Rightarrow> addr_error + (string \<times> string)" where
  "SplitHostPort hostport =
     (case LastIndexByte hostport (CHR '':'') of
        None \<Rightarrow> Inl MissingPort
      | Some i \<Rightarrow>
          bindE
            (if hostport ! 0 = CHR ''['' then
               (case IndexByte hostport (CHR '']'') of
                  None \<Rightarrow> Inl MissingBracket
                | Some e \<Rightarrow>
                    if e + 1 = length hostport then Inl MissingPort
                    else if e + 1 = i then Inr (drop 1 (take e hostport), 1, e + 1)
                    else if hostport ! (e + 1) = CHR '':'' then Inl TooManyColons
                    else Inl MissingPort)
             else if CHR '':'' \<in> set (take i hostport) then Inl TooManyColons
             else Inr (take i hostport, 0, 0))
            (\<lambda>(host, j, k).
               if CHR ''['' \<in> set (drop j hostport) then Inl UnexpectedOpen
               else if CHR '']'' \<in> set (drop k hostport) then Inl UnexpectedClose
               else Inr (host, drop (i + 1) hostport)))"

definition JoinHostPort :: "string \<Rightarrow> string \<Rightarrow> string" where
  "JoinHostPort host port =
     (if CHR '':'' \<in> set host then CHR ''['' # host @ '']:'' @ port else host @ '':'' @ port)"

text \<open>\<open>strconv.ParseUint(s, 10, 16)\<close>.\<close>

definition ParseUint16 :: "string \<Rightarrow> nat option" where
  "ParseUint16 s =
     (if s = [] \<or> (\<exists>c\<in>set s. \<not> is_digit c) then None
      else if dec_val s < 65536 then Some (dec_val s) else None)"

section \<open>Durations\<close>

fun bitlen :: "nat \<Rightarrow> nat" where
  "bitlen n = (if n = 0 then 0 else Suc (bitlen (n div 2)))"

declare bitlen.simps [simp del]

definition round_half_even :: "nat \<Rightarrow> nat \<Rightarrow> nat" where
  "round_half_even p q =
     (let d = p div q; r = p mod q in
      if 2 * r < q \<or> (2 * r = q \<and> even d) then d else d + 1)"

text \<open>
  Rounding of a positive fraction to a double: 53 significant bits, ties to even. The values
  that occur lie between \<open>10^-19\<close> and \<open>2^64 * 3.6 * 10^12\<close>, within the range of normal doubles.
\<close>

definition to_double :: "nat \<times> nat \<Rightarrow> nat \<times> nat" where
  "to_double pq =
     (let (p, q) = pq;
          s0 = 53 + int (bitlen q) - int (bitlen p);
          s = (if p * 2 ^ nat s0 \<ge> 2 ^ 53 * (q * 2 ^ nat (- s0)) then s0 - 1 else s0);
          m = round_half_even (p * 2 ^ nat s) (q * 2 ^ nat (- s))
      in (m * 2 ^ nat (- s), 2 ^ nat s))"

definition double_mul :: "nat \<times> nat \<Rightarrow> nat \<times> nat \<Rightarrow> nat \<times> nat" where
  "double_mul x y = to_double (fst x * fst y, snd x * snd y)"

definition double_div :: "nat \<times> nat \<Rightarrow> nat \<times> nat \<Rightarrow> nat \<times> nat" where
  "double_div x y = to_double (fst x * snd y, snd x * fst y)"

fun leadingInt :: "nat \<Rightarrow> string \<Rightarrow> (nat \<times> string) option" where
  "leadingInt x [] = Some (x, [])"
| "leadingInt x (c # s) =
     (if \<not> is_digit c then Some (x, c # s)
      else if x > 2 ^ 63 div 10 then None
      else let y = x * 10 + digit_val c in if y > 2 ^ 63 then None else leadingInt y s)"

fun leadingFraction :: "nat \<Rightarrow> nat \<times> nat \<Rightarrow> bool \<Rightarrow> string \<Rightarrow> nat \<times> (nat \<times> nat) \<times> string" where
  "leadingFraction x scale overflow [] = (x, scale, [])"
| "leadingFraction x scale overflow (c # s) =
     (if \<not> is_digit c then (x, scale, c # s)
      else if overflow \<or> x > (2 ^ 63 - 1) div 10 then leadingFraction x scale True s
      else let y = x * 10 + digit_val c in
        if y > 2 ^ 63 then leadingFraction x scale True s
        else leadingFraction y (double_mul scale (10, 1)) False s)"

definition unitMap :: "string \<Rightarrow> nat option" where
  "unitMap = [''ns'' \<mapsto> 1, ''us'' \<mapsto> 1000, [CHR 0xC2, CHR 0xB5, CHR ''s''] \<mapsto> 1000,
     [CHR 0xCE, CHR 0xBC, CHR ''s''] \<mapsto> 1000, ''ms'' \<mapsto> 1000000, ''s'' \<mapsto> 1000000000,
     ''m'' \<mapsto> 60000000000, ''h'' \<mapsto> 3600000000000]"

definition invalid_duration :: "string \<Rightarrow> string" where
  "invalid_duration orig = ''time: invalid duration '' @ time_quote orig"

text \<open>One group of the duration, \<open>[0-9]*(\.[0-9]*)?[a-z]+\<close>: its nanoseconds and the rest.\<close>

definition parse_group :: "string \<Rightarrow> string \<Rightarrow> string + (nat \<times> string)" where
  "parse_group orig s =
     (if s = [] \<or> \<not> (hd s = CHR ''.'' \<or> is_digit (hd s)) then Inl (invalid_duration orig)
      else case leadingInt 0 s of
        None \<Rightarrow> Inl (invalid_duration orig)
      | Some (v, s1) \<Rightarrow>
        (let pre = (length s1 \<noteq> length s);
             (f, scale, s2) = (case s1 of CHR ''.'' # t \<Rightarrow> leadingFraction 0 (1, 1) False t | _ \<Rightarrow> (0, (1, 1), s1));
             post = (case s1 of CHR ''.'' # t \<Rightarrow> length s2 \<noteq> length t | _ \<Rightarrow> False);
             u = takeWhile (\<lambda>c. \<not> (c = CHR ''.'' \<or> is_digit c)) s2;
             s3 = drop (length u) s2
         in
         if \<not> pre \<and> \<not> post then Inl (invalid_duration orig)
         else if u = [] then Inl (''time: missing unit in duration '' @ time_quote orig)
         else case unitMap u of
           None \<Rightarrow> Inl (''time: unknown unit '' @ time_quote u @ '' in duration '' @ time_quote orig)
         | Some unit \<Rightarrow>
             if v > 2 ^ 63 div unit then Inl (invalid_duration orig)
             else
               (let w = v * unit + (if f > 0 then
                    (let x = double_mul (to_double (f, 1)) (double_div (unit, 1) scale) in fst x div snd x) else 0)
                in if w > 2 ^ 63 then Inl (invalid_duration orig) else Inr (w, s3))))"

lemma leadingInt_length: "leadingInt x s = Some (v, t) \<Longrightarrow> length t \<le> length s"
  by (induction x s rule: leadingInt.induct) (auto split: if_splits simp: Let_def le_SucI)

lemma leadingFraction_length: "leadingFraction x sc ov s = (v, sc', t) \<Longrightarrow> length t \<le> length s"
  by (induction x sc ov s rule: leadingFraction.induct)
    (auto split: if_splits simp: Let_def le_SucI)

lemma parse_group_length:
  assumes "parse_group orig s = Inr (w, t)"
  shows "length t < length s"
proof -
  from assms obtain v s1 f sc s2 where s1: "leadingInt 0 s = Some (v, s1)"
    and s2: "(case s1 of CHR ''.'' # t \<Rightarrow> leadingFraction 0 (1, 1) False t | _ \<Rightarrow> (0, (1, 1), s1)) = (f, sc, s2)"
    and u: "takeWhile (\<lambda>c. \<not> (c = CHR ''.'' \<or> is_digit c)) s2 \<noteq> []"
    and t: "t = drop (length (takeWhile (\<lambda>c. \<not> (c = CHR ''.'' \<or> is_digit c)) s2)) s2"
    unfolding parse_group_def
    by (auto simp: Let_def split: option.splits if_splits prod.splits)
  have "length s2 \<le> length s1"
    using s2 by (auto split: list.splits char.splits bool.splits if_splits
        dest!: leadingFraction_length intro: le_SucI)
  moreover have "length t < length s2" using u t by (cases s2) auto
  ultimately show ?thesis using leadingInt_length [OF s1] by linarith
qed

function parse_groups :: "string \<Rightarrow> nat \<Rightarrow> string \<Rightarrow> string + nat" where
  "parse_groups orig d s =
     (if s = [] then Inr d
      else bindE (parse_group orig s) (\<lambda>(w, t).
        let d' = (d + w) mod 2 ^ 64 in
        if d' > 2 ^ 63 then Inl (invalid_duration orig) else parse_groups orig d' t))"
  by pat_completeness auto
termination
  by (relation "measure (\<lambda>(orig, d, s). length s)") (auto dest: parse_group_length)

declare parse_groups.simps [simp del]

text \<open>\<open>time.ParseDuration\<close>: nanoseconds as a signed 64-bit value, or the error text.\<close>

definition ParseDuration :: "string \<Rightarrow> string + int" where
  "ParseDuration orig =
     (let neg = (orig \<noteq> [] \<and> hd orig = CHR ''-'');
          s = (if orig \<noteq> [] \<and> (hd orig = CHR ''-'' \<or> hd orig = CHR ''+'') then tl orig else orig)
      in if s = ''0'' then Inr 0
         else if s = [] then Inl (invalid_duration orig)
         else bindE (parse_groups orig 0 s) (\<lambda>d.
           if neg then Inr (- int d)
           else if d > 2 ^ 63 - 1 then Inl (invalid_duration orig)
           else Inr (int d)))"

lemma ParseDuration_bound: "ParseDuration s = Inr d \<Longrightarrow> d < 2 ^ 63"
  by (auto simp: ParseDuration_def bindE_Inr_iff Let_def split: if_splits)

end
