(* ===== verification/ApiTypes.thy ===== *)
theory ApiTypes
  imports GoStd
begin

text \<open>
  The API objects: the two custom resources of \<open>api/v1alpha1\<close> in full, and of the Gateway API and
  core Kubernetes objects the fields the program reads or writes. A pointer field is an
  \<open>option\<close>; \<open>metav1.Time\<close> is its Unix time; counters and \<open>int32\<close> values are \<open>int\<close>.
  \<open>Validate\<close> of \<open>gatewayconfig_validation.go\<close> returns the text of its error, \<open>None\<close> for nil.
  Functions of the Kubernetes libraries are fields of \<open>Ext\<close>, an argument of every definition
  that calls one.
\<close>

section \<open>Kubernetes and Gateway API objects\<close>

type_synonym NamespacedName = "string \<times> string"
type_synonym Labels = "(string, string) gomap"

text \<open>\<open>metav1.LabelSelector\<close> is opaque: the program only hands it to the library.\<close>

datatype LabelSelector = LabelSelector string

text \<open>
  The library code the control plane calls: \<open>types.NamespacedName.String\<close>, and
  \<open>metav1.LabelSelectorAsSelector\<close> with the \<open>Matches\<close> of the selector it returns.
\<close>

record Ext =
  x_String :: "NamespacedName \<Rightarrow> string"
  x_AsSelector :: "LabelSelector \<Rightarrow> string + (Labels \<Rightarrow> bool)"

record ObjectMeta =
  om_Name :: string
  om_Namespace :: string
  om_Labels :: Labels
  om_CreationTimestamp :: int
  om_Generation :: int

record Condition =
  cd_Type :: string
  cd_Status :: string
  cd_Reason :: string
  cd_Message :: string
  cd_ObservedGeneration :: int
  cd_LastTransitionTime :: int

record ParametersReference =
  pr_Group :: string
  pr_Kind :: string
  pr_Name :: string
  pr_Namespace :: "string option"

record GatewayClass =
  gcl_Meta :: ObjectMeta
  gcl_ControllerName :: string
  gcl_ParametersRef :: "ParametersReference option"
  gcl_Conditions :: "Condition list"

record RouteGroupKindT =
  rgk_Group :: "string option"
  rgk_Kind :: string

record RouteNamespaces =
  rn_From :: "string option"
  rn_Selector :: "LabelSelector option"

record AllowedRoutes =
  ar_Namespaces :: "RouteNamespaces option"
  ar_Kinds :: "RouteGroupKindT list"

record Listener =
  l_Name :: string
  l_Port :: int
  l_Protocol :: string
  l_TLS :: "unit option"
  l_AllowedRoutes :: "AllowedRoutes option"

record ListenerStatus =
  ls_Name :: string
  ls_SupportedKinds :: "RouteGroupKindT list"
  ls_AttachedRoutes :: int
  ls_Conditions :: "Condition list"

record Gateway =
  gw_Meta :: ObjectMeta
  gw_GatewayClassName :: string
  gw_Listeners :: "Listener list"
  gw_Conditions :: "Condition list"
  gw_StatusListeners :: "ListenerStatus list"

record ParentReference =
  pref_Group :: "string option"
  pref_Kind :: "string option"
  pref_Namespace :: "string option"
  pref_Name :: string
  pref_SectionName :: "string option"

record BackendRef =
  br_Group :: "string option"
  br_Kind :: "string option"
  br_Name :: string
  br_Namespace :: "string option"
  br_Port :: "int option"
  br_Weight :: "int option"

record RouteParentStatus =
  rps_ParentRef :: ParentReference
  rps_ControllerName :: string
  rps_Conditions :: "Condition list"

record Service =
  svc_Name :: string
  svc_Namespace :: string

record ReferenceGrantFrom =
  rgf_Group :: string
  rgf_Kind :: string
  rgf_Namespace :: string

record ReferenceGrantTo =
  rgt_Group :: string
  rgt_Kind :: string
  rgt_Name :: "string option"

record ReferenceGrant =
  rg_Namespace :: string
  rg_From :: "ReferenceGrantFrom list"
  rg_To :: "ReferenceGrantTo list"

section \<open>The resources of the program\<close>

record RsyncRoute =
  rr_Meta :: ObjectMeta
  rr_ParentRefs :: "ParentReference list"
  rr_ModuleNames :: "string list"
  rr_BackendRefs :: "BackendRef list"
  rr_Parents :: "RouteParentStatus list"

record ThroughputFloorSpec =
  tf_MinBytes :: "int option"
  tf_Window :: "string option"
  tf_Grace :: "string option"

record GatewayConfigSpec =
  gcs_Motd :: "string option"
  gcs_RelayIdleTimeout :: "string option"
  gcs_RelayMaxDuration :: "string option"
  gcs_TCPKeepAlive :: "string option"
  gcs_DialTimeout :: "string option"
  gcs_PerIPMaxActiveConnections :: "int option"
  gcs_MaxActiveConnections :: "int option"
  gcs_MaxQueuedConnections :: "int option"
  gcs_ThroughputFloor :: "ThroughputFloorSpec option"

record GatewayConfig =
  gcf_Meta :: ObjectMeta
  gcf_Spec :: GatewayConfigSpec
  gcf_Conditions :: "Condition list"

definition ProtocolRsync :: string where
  "ProtocolRsync = ''rsync.zjusct.io/rsync''"

definition ControllerName :: string where
  "ControllerName = ''gateway.rsync.zjusct.io/rsync-gateway''"

definition RouteKind :: string where
  "RouteKind = ''RsyncRoute''"

definition CoreGroup :: string where
  "CoreGroup = ''''"

definition GroupVersion_Group :: string where
  "GroupVersion_Group = ''gateway.rsync.zjusct.io''"

definition RouteGroupKind :: RouteGroupKindT where
  "RouteGroupKind = \<lparr>rgk_Group = Some GroupVersion_Group, rgk_Kind = RouteKind\<rparr>"

section \<open>Validation of a GatewayConfig\<close>

definition ThroughputFloorWindow :: "GatewayConfigSpec \<Rightarrow> string option" where
  "ThroughputFloorWindow s = (case gcs_ThroughputFloor s of None \<Rightarrow> None | Some t \<Rightarrow> tf_Window t)"

definition ThroughputFloorGrace :: "GatewayConfigSpec \<Rightarrow> string option" where
  "ThroughputFloorGrace s = (case gcs_ThroughputFloor s of None \<Rightarrow> None | Some t \<Rightarrow> tf_Grace t)"

fun check_ints :: "(string \<times> int option) list \<Rightarrow> string option" where
  "check_ints [] = None"
| "check_ints ((name, v) # fs) =
     (case v of
        Some i \<Rightarrow> if i < 0 then Some (name @ '' must be non-negative, got '' @ Itoa i) else check_ints fs
      | None \<Rightarrow> check_ints fs)"

fun check_durations :: "(string \<times> string option) list \<Rightarrow> string option" where
  "check_durations [] = None"
| "check_durations ((name, v) # fs) =
     (case v of
        None \<Rightarrow> check_durations fs
      | Some s \<Rightarrow>
          (case ParseDuration s of
             Inl err \<Rightarrow> Some (name @ '': invalid duration '' @ Quote s @ '': '' @ err)
           | Inr dur \<Rightarrow>
               if dur < 0 then Some (name @ '' must be non-negative, got '' @ s) else check_durations fs))"

definition Validate :: "GatewayConfigSpec \<Rightarrow> string option" where
  "Validate s =
     (case check_ints
        [(''perIPMaxActiveConnections'', gcs_PerIPMaxActiveConnections s),
         (''maxActiveConnections'', gcs_MaxActiveConnections s),
         (''maxQueuedConnections'', gcs_MaxQueuedConnections s)] of
        Some e \<Rightarrow> Some e
      | None \<Rightarrow>
     (case check_durations
        [(''relayIdleTimeout'', gcs_RelayIdleTimeout s),
         (''relayMaxDuration'', gcs_RelayMaxDuration s),
         (''tcpKeepAlive'', gcs_TCPKeepAlive s),
         (''dialTimeout'', gcs_DialTimeout s),
         (''throughputFloor.window'', ThroughputFloorWindow s),
         (''throughputFloor.grace'', ThroughputFloorGrace s)] of
        Some e \<Rightarrow> Some e
      | None \<Rightarrow>
     (case gcs_ThroughputFloor s of
        None \<Rightarrow> None
      | Some t \<Rightarrow>
          (case tf_MinBytes t of
             None \<Rightarrow> None
           | Some b \<Rightarrow>
               if b < 0 then Some (''throughputFloor.minBytes must be non-negative, got '' @ Itoa b)
               else None))))"

definition nonneg_opt :: "int option \<Rightarrow> bool" where
  "nonneg_opt v \<longleftrightarrow> (case v of None \<Rightarrow> True | Some i \<Rightarrow> 0 \<le> i)"

definition good_duration :: "string option \<Rightarrow> bool" where
  "good_duration v \<longleftrightarrow> (case v of None \<Rightarrow> True | Some s \<Rightarrow> (\<exists>d\<ge>0. ParseDuration s = Inr d))"

lemma check_ints_None: "check_ints fs = None \<longleftrightarrow> (\<forall>(n, v)\<in>set fs. nonneg_opt v)"
  by (induction fs rule: check_ints.induct) (auto simp: nonneg_opt_def split: option.splits)

lemma check_durations_None: "check_durations fs = None \<longleftrightarrow> (\<forall>(n, v)\<in>set fs. good_duration v)"
  by (induction fs rule: check_durations.induct)
    (auto simp: good_duration_def not_less split: option.splits sum.splits)

lemma Validate_None_iff:
  "Validate s = None \<longleftrightarrow>
     nonneg_opt (gcs_PerIPMaxActiveConnections s) \<and> nonneg_opt (gcs_MaxActiveConnections s) \<and>
     nonneg_opt (gcs_MaxQueuedConnections s) \<and> good_duration (gcs_RelayIdleTimeout s) \<and>
     good_duration (gcs_RelayMaxDuration s) \<and> good_duration (gcs_TCPKeepAlive s) \<and>
     good_duration (gcs_DialTimeout s) \<and> good_duration (ThroughputFloorWindow s) \<and>
     good_duration (ThroughputFloorGrace s) \<and>
     (case gcs_ThroughputFloor s of None \<Rightarrow> True | Some t \<Rightarrow> nonneg_opt (tf_MinBytes t))"
  unfolding Validate_def first_error_None check_ints_None check_durations_None
  by (auto simp: nonneg_opt_def [of "tf_MinBytes _"] split: option.splits)

end
