(* ===== verification/Claims.thy ===== *)
theory Claims
  imports ApiTypes
begin

text \<open>
  The snapshot of the cluster (\<open>internal/gateway/snapshot.go\<close>) and the evaluation of the
  GatewayClasses against it (\<open>internal/gateway/claim.go\<close>). The maps of the snapshot are Go
  maps; a nil pointer in an input list of \<open>NewSnapshot\<close> is \<open>None\<close>.
\<close>

record Snapshot =
  sn_GatewayClasses :: "(string, GatewayClass) gomap"
  sn_GatewayConfigs :: "(string, GatewayConfig) gomap"
  sn_Gateways :: "(NamespacedName, Gateway) gomap"
  sn_RsyncRoutes :: "(NamespacedName, RsyncRoute) gomap"
  sn_Services :: "(NamespacedName, Service) gomap"
  sn_ReferenceGrants :: "(string, ReferenceGrant list) gomap"

fun index_by :: "('a \<Rightarrow> 'k) \<Rightarrow> 'a option list \<Rightarrow> ('k, 'a) gomap \<Rightarrow> ('k, 'a) gomap" where
  "index_by key [] m = m"
| "index_by key (None # xs) m = index_by key xs m"
| "index_by key (Some a # xs) m = index_by key xs (AList.update (key a) a m)"

fun group_grants :: "ReferenceGrant option list \<Rightarrow> (string, ReferenceGrant list) gomap \<Rightarrow>
    (string, ReferenceGrant list) gomap" where
  "group_grants [] m = m"
| "group_grants (None # gs) m = group_grants gs m"
| "group_grants (Some g # gs) m =
     group_grants gs (AList.update (rg_Namespace g)
       ((case map_of m (rg_Namespace g) of None \<Rightarrow> [] | Some xs \<Rightarrow> xs) @ [g]) m)"

definition meta_key :: "ObjectMeta \<Rightarrow> NamespacedName" where
  "meta_key m = (om_Namespace m, om_Name m)"

definition NewSnapshot ::
  "GatewayClass option list \<Rightarrow> GatewayConfig option list \<Rightarrow> Gateway option list \<Rightarrow>
   RsyncRoute option list \<Rightarrow> Service option list \<Rightarrow> ReferenceGrant option list \<Rightarrow> Snapshot" where
  "NewSnapshot gatewayClasses gatewayConfigs gateways routes services referenceGrants =
     \<lparr>sn_GatewayClasses = index_by (\<lambda>gc. om_Name (gcl_Meta gc)) gatewayClasses [],
      sn_GatewayConfigs = index_by (\<lambda>gc. om_Name (gcf_Meta gc)) gatewayConfigs [],
      sn_Gateways = index_by (\<lambda>gw. meta_key (gw_Meta gw)) gateways [],
      sn_RsyncRoutes = index_by (\<lambda>r. meta_key (rr_Meta r)) routes [],
      sn_Services = index_by (\<lambda>s. (svc_Namespace s, svc_Name s)) services [],
      sn_ReferenceGrants = group_grants referenceGrants []\<rparr>"

text \<open>What every snapshot satisfies: maps have one entry per key and an object is filed under its name.\<close>

definition snap_wf :: "Snapshot \<Rightarrow> bool" where
  "snap_wf snap \<longleftrightarrow>
     gm_wf (sn_GatewayClasses snap) \<and> gm_wf (sn_GatewayConfigs snap) \<and> gm_wf (sn_Gateways snap) \<and>
     gm_wf (sn_RsyncRoutes snap) \<and> gm_wf (sn_Services snap) \<and> gm_wf (sn_ReferenceGrants snap) \<and>
     (\<forall>(n, gc)\<in>set (sn_GatewayClasses snap). om_Name (gcl_Meta gc) = n) \<and>
     (\<forall>(n, gc)\<in>set (sn_GatewayConfigs snap). om_Name (gcf_Meta gc) = n) \<and>
     (\<forall>(k, gw)\<in>set (sn_Gateways snap). meta_key (gw_Meta gw) = k) \<and>
     (\<forall>(k, r)\<in>set (sn_RsyncRoutes snap). meta_key (rr_Meta r) = k) \<and>
     (\<forall>(k, s)\<in>set (sn_Services snap). (svc_Namespace s, svc_Name s) = k) \<and>
     (\<forall>(n, gs)\<in>set (sn_ReferenceGrants snap). \<forall>g\<in>set gs. rg_Namespace g = n)"

record ClassClaim =
  cl_Name :: string
  cl_Claimed :: bool
  cl_Accepted :: bool
  cl_Reason :: string
  cl_Message :: string
  cl_Config :: "GatewayConfig option"

definition resolveClassConfig :: "GatewayClass \<Rightarrow> Snapshot \<Rightarrow> GatewayConfig option \<times> string \<times> string" where
  "resolveClassConfig gc snap =
     (let invalid = (\<lambda>msg. (None, ''InvalidParameters'', msg)) in
      case gcl_ParametersRef gc of
        None \<Rightarrow> invalid (''GatewayClass '' @ om_Name (gcl_Meta gc) @ '' must set spec.parametersRef to a GatewayConfig'')
      | Some ref \<Rightarrow>
          if pr_Group ref \<noteq> GroupVersion_Group \<or> pr_Kind ref \<noteq> ''GatewayConfig'' then
            invalid (''unsupported parametersRef group/kind '' @ pr_Group ref @ ''/'' @ pr_Kind ref @ ''; want '' @
              GroupVersion_Group @ ''/GatewayConfig'')
          else if (case pr_Namespace ref of None \<Rightarrow> False | Some ns \<Rightarrow> ns \<noteq> []) then
            invalid ''parametersRef.namespace must be empty; GatewayConfig is cluster-scoped''
          else
            (case map_of (sn_GatewayConfigs snap) (pr_Name ref) of
               None \<Rightarrow> invalid (''GatewayConfig '' @ Quote (pr_Name ref) @ '' not found'')
             | Some config \<Rightarrow>
                 (case Validate (gcf_Spec config) of
                    Some err \<Rightarrow> invalid (''GatewayConfig '' @ Quote (pr_Name ref) @ '' is invalid: '' @ err)
                  | None \<Rightarrow> (Some config, ''Accepted'', ''GatewayConfig '' @ Quote (pr_Name ref) @ '' is valid''))))"

text \<open>The body of the loop of \<open>ClaimClasses\<close>.\<close>

definition claim_class :: "Snapshot \<Rightarrow> string \<Rightarrow> GatewayClass \<Rightarrow> ClassClaim" where
  "claim_class snap name gc =
     (if gcl_ControllerName gc \<noteq> ControllerName then
        \<lparr>cl_Name = name, cl_Claimed = False, cl_Accepted = False, cl_Reason = '''', cl_Message = '''', cl_Config = None\<rparr>
      else
        (let (config, reason, message) = resolveClassConfig gc snap in
         \<lparr>cl_Name = name, cl_Claimed = True, cl_Accepted = (reason = ''Accepted''), cl_Reason = reason,
          cl_Message = message, cl_Config = config\<rparr>))"

definition ClaimClasses :: "Snapshot \<Rightarrow> (string, ClassClaim) gomap" where
  "ClaimClasses snap =
     fold (\<lambda>(name, gc). AList.update name (claim_class snap name gc)) (sn_GatewayClasses snap) []"

section \<open>Snapshots are well formed\<close>

lemma index_by_wf: "gm_wf m \<Longrightarrow> gm_wf (index_by key xs m)"
  by (induction key xs m rule: index_by.induct) (auto simp: distinct_update)

lemma index_by_keyed:
  "\<forall>k a. map_of m k = Some a \<longrightarrow> key a = k \<Longrightarrow>
   map_of (index_by key xs m) k = Some a \<Longrightarrow> key a = k"
proof (induction key xs m rule: index_by.induct)
  case (3 key b xs m)
  have "\<forall>k a. map_of (AList.update (key b) b m) k = Some a \<longrightarrow> key a = k"
    using "3.prems"(1) unfolding update_conv by auto
  then show ?case by (rule "3.IH") (use "3.prems"(2) in simp)
qed simp_all

lemma index_by_entries:
  assumes "(k, a) \<in> set (index_by key xs [])"
  shows "key a = k"
proof -
  have "gm_wf (index_by key xs [])" by (rule index_by_wf) simp
  then have "map_of (index_by key xs []) k = Some a"
    using assms gm_wf_lookup by fast
  then show ?thesis by (rule index_by_keyed [rotated]) simp
qed

lemma group_grants_wf: "gm_wf m \<Longrightarrow> gm_wf (group_grants gs m)"
  by (induction gs m rule: group_grants.induct) (auto simp: distinct_update)

lemma group_grants_keyed:
  "\<forall>n xs. map_of m n = Some xs \<longrightarrow> (\<forall>g\<in>set xs. rg_Namespace g = n) \<Longrightarrow>
   map_of (group_grants gs m) n = Some xs \<Longrightarrow> \<forall>g\<in>set xs. rg_Namespace g = n"
proof (induction gs m rule: group_grants.induct)
  case (3 g gs m)
  let ?m = "AList.update (rg_Namespace g)
       ((case map_of m (rg_Namespace g) of None \<Rightarrow> [] | Some xs \<Rightarrow> xs) @ [g]) m"
  have "\<forall>n xs. map_of ?m n = Some xs \<longrightarrow> (\<forall>g\<in>set xs. rg_Namespace g = n)"
    using "3.prems"(1) by (cases "map_of m (rg_Namespace g)") (auto simp: update_conv)
  then show ?case by (rule "3.IH") (use "3.prems"(2) in simp)
qed simp_all

lemma group_grants_entries:
  assumes "(n, xs) \<in> set (group_grants gr [])" "g \<in> set xs"
  shows "rg_Namespace g = n"
proof -
  have "gm_wf (group_grants gr [])" by (rule group_grants_wf) simp
  then have "map_of (group_grants gr []) n = Some xs"
    using assms(1) gm_wf_lookup by fast
  then have "\<forall>g\<in>set xs. rg_Namespace g = n" by (rule group_grants_keyed [rotated]) simp
  then show ?thesis using assms(2) by blast
qed

lemma NewSnapshot_wf: "snap_wf (NewSnapshot cs fs gs rs ss gr)"
  unfolding snap_wf_def NewSnapshot_def
  by (simp add: index_by_wf group_grants_wf) (blast dest: index_by_entries group_grants_entries)

section \<open>Claims\<close>

lemma fold_update_map_of:
  assumes "gm_wf m"
  shows "map_of (fold (\<lambda>(k, v). AList.update k (f k v)) m acc) k =
    (case map_of m k of None \<Rightarrow> map_of acc k | Some v \<Rightarrow> Some (f k v))"
  using assms
proof (induction m arbitrary: acc)
  case (Cons kv m)
  obtain k' v' where kv: "kv = (k', v')" by (cases kv)
  from Cons.prems kv have "map_of m k' = None" by (simp add: map_of_eq_None_iff)
  with Cons kv show ?case by (auto simp: update_conv split: option.splits)
qed simp

lemma ClaimClasses_lookup:
  assumes "snap_wf snap"
  shows "map_of (ClaimClasses snap) name = map_option (claim_class snap name) (map_of (sn_GatewayClasses snap) name)"
  unfolding ClaimClasses_def using assms
  by (subst fold_update_map_of) (auto simp: snap_wf_def split: option.splits)

lemma ClaimClasses_wf: "gm_wf (ClaimClasses snap)"
proof -
  have "gm_wf (fold (\<lambda>(k, v). AList.update k (claim_class snap k v)) m acc)" if "gm_wf acc" for m acc
    using that by (induction m arbitrary: acc) (auto simp: distinct_update)
  then show ?thesis by (simp add: ClaimClasses_def)
qed

lemma resolveClassConfig_accepts:
  "(\<exists>msg. resolveClassConfig gc snap = (Some config, ''Accepted'', msg)) \<longleftrightarrow>
   (\<exists>ref. gcl_ParametersRef gc = Some ref \<and> pr_Group ref = GroupVersion_Group \<and> pr_Kind ref = ''GatewayConfig'' \<and>
     pr_Namespace ref \<in> {None, Some []} \<and> map_of (sn_GatewayConfigs snap) (pr_Name ref) = Some config \<and>
     Validate (gcf_Spec config) = None)"
  by (cases "gcl_ParametersRef gc"; cases "map_of (sn_GatewayConfigs snap) (pr_Name (the (gcl_ParametersRef gc)))";
      cases "Validate (gcf_Spec (the (map_of (sn_GatewayConfigs snap) (pr_Name (the (gcl_ParametersRef gc))))))")
    (auto simp: resolveClassConfig_def Let_def split: if_splits option.split option.split_asm)

lemma resolveClassConfig_reason:
  "resolveClassConfig gc snap = (config, reason, msg) \<Longrightarrow>
   (reason = ''Accepted'' \<longleftrightarrow> config \<noteq> None) \<and> reason \<in> {''Accepted'', ''InvalidParameters''}"
  by (cases "gcl_ParametersRef gc"; cases "map_of (sn_GatewayConfigs snap) (pr_Name (the (gcl_ParametersRef gc)))";
      cases "Validate (gcf_Spec (the (map_of (sn_GatewayConfigs snap) (pr_Name (the (gcl_ParametersRef gc))))))")
    (auto simp: resolveClassConfig_def Let_def split: if_splits dest!: sym [of "Some _"])

lemma claim_class_config:
  assumes "cl_Accepted (claim_class snap name gc)"
  shows "\<exists>c. cl_Config (claim_class snap name gc) = Some c \<and> Validate (gcf_Spec c) = None \<and>
    cl_Claimed (claim_class snap name gc)"
proof -
  obtain c msg where "resolveClassConfig gc snap = (Some c, ''Accepted'', msg)" "gcl_ControllerName gc = ControllerName"
    using assms resolveClassConfig_reason [of gc snap]
    by (auto simp: claim_class_def split: if_splits prod.splits)
  then show ?thesis using resolveClassConfig_accepts [of gc snap c] by (auto simp: claim_class_def)
qed

section \<open>A concrete cluster\<close>

text \<open>
  An instance of the library functions and a small cluster on which the witnesses of the
  control-plane theorems are evaluated: one managed Gateway, and three routes of which one
  wants a module of an older one.
\<close>

definition ext0 :: Ext where
  "ext0 = \<lparr>x_String = (\<lambda>(ns, n). ns @ ''/'' @ n),
           x_AsSelector = (\<lambda>s. case s of LabelSelector key \<Rightarrow> Inr (\<lambda>labels. map_of labels key = Some ''yes''))\<rparr>"

definition sample_meta :: "string \<Rightarrow> string \<Rightarrow> int \<Rightarrow> ObjectMeta" where
  "sample_meta ns n t = \<lparr>om_Name = n, om_Namespace = ns, om_Labels = [], om_CreationTimestamp = t, om_Generation = 1\<rparr>"

definition sample_spec :: GatewayConfigSpec where
  "sample_spec = \<lparr>gcs_Motd = Some ''hi'', gcs_RelayIdleTimeout = Some ''90s'', gcs_RelayMaxDuration = None,
     gcs_TCPKeepAlive = None, gcs_DialTimeout = None, gcs_PerIPMaxActiveConnections = Some 4,
     gcs_MaxActiveConnections = Some 2, gcs_MaxQueuedConnections = Some 8, gcs_ThroughputFloor = None\<rparr>"

definition sample_class :: GatewayClass where
  "sample_class = \<lparr>gcl_Meta = sample_meta '''' ''rsync'' 1, gcl_ControllerName = ControllerName,
     gcl_ParametersRef = Some \<lparr>pr_Group = GroupVersion_Group, pr_Kind = ''GatewayConfig'', pr_Name = ''default'',
       pr_Namespace = None\<rparr>, gcl_Conditions = []\<rparr>"

definition sample_listener :: Listener where
  "sample_listener = \<lparr>l_Name = ''rsync'', l_Port = 873, l_Protocol = ProtocolRsync, l_TLS = None,
     l_AllowedRoutes = Some \<lparr>ar_Namespaces = Some \<lparr>rn_From = Some ''All'', rn_Selector = None\<rparr>, ar_Kinds = []\<rparr>\<rparr>"

definition sample_gateway :: Gateway where
  "sample_gateway = \<lparr>gw_Meta = sample_meta ''infra'' ''gw'' 2, gw_GatewayClassName = ''rsync'',
     gw_Listeners = [sample_listener], gw_Conditions = [], gw_StatusListeners = []\<rparr>"

definition sample_parent :: ParentReference where
  "sample_parent = \<lparr>pref_Group = None, pref_Kind = None, pref_Namespace = Some ''infra'', pref_Name = ''gw'',
     pref_SectionName = None\<rparr>"

definition sample_route :: "string \<Rightarrow> int \<Rightarrow> string list \<Rightarrow> RsyncRoute" where
  "sample_route n t ms = \<lparr>rr_Meta = sample_meta ''mirror'' n t, rr_ParentRefs = [sample_parent], rr_ModuleNames = ms,
     rr_BackendRefs = [\<lparr>br_Group = None, br_Kind = None, br_Name = ''store'', br_Namespace = None, br_Port = Some 873,
       br_Weight = None\<rparr>], rr_Parents = []\<rparr>"

definition sample_snap :: Snapshot where
  "sample_snap = NewSnapshot [Some sample_class]
     [Some \<lparr>gcf_Meta = sample_meta '''' ''default'' 0, gcf_Spec = sample_spec, gcf_Conditions = []\<rparr>]
     [Some sample_gateway]
     [Some (sample_route ''ubuntu'' 20 [''ubuntu'', ''pool'']), Some (sample_route ''debian'' 10 [''debian'', ''pool'']),
      Some (sample_route ''arch'' 30 [])]
     [Some \<lparr>svc_Name = ''store'', svc_Namespace = ''mirror''\<rparr>] []"

lemma sample_snap_wf: "snap_wf sample_snap"
  unfolding sample_snap_def by (rule NewSnapshot_wf)

text \<open>Whatever the lists handed to \<open>NewSnapshot\<close>, nil entries and duplicates included, the snapshot files every object
  once, under its own name.\<close>

theorem NewSnapshot_well_formed: "snap_wf (NewSnapshot classes configs gateways routes services grants)"
  by (rule NewSnapshot_wf)

text \<open>C29: A GatewayClass of the snapshot has exactly one claim; the claim is accepted exactly when the class names this
  controller and its parametersRef is a cluster-scoped reference to an existing GatewayConfig that validates, and that
  GatewayConfig is then the one of the claim.\<close>

theorem ClaimClasses_accepts_iff:
  assumes "snap_wf snap" "map_of (sn_GatewayClasses snap) name = Some gc"
  shows "\<exists>claim. map_of (ClaimClasses snap) name = Some claim \<and>
    (cl_Claimed claim \<longleftrightarrow> gcl_ControllerName gc = ControllerName) \<and>
    (\<forall>config. cl_Accepted claim \<and> cl_Config claim = Some config \<longleftrightarrow>
      gcl_ControllerName gc = ControllerName \<and>
      (\<exists>ref. gcl_ParametersRef gc = Some ref \<and> pr_Group ref = GroupVersion_Group \<and> pr_Kind ref = ''GatewayConfig'' \<and>
         pr_Namespace ref \<in> {None, Some []} \<and> map_of (sn_GatewayConfigs snap) (pr_Name ref) = Some config \<and>
         Validate (gcf_Spec config) = None)) \<and>
    (cl_Accepted claim \<longrightarrow> (\<exists>config. cl_Config claim = Some config))"
proof -
  let ?claim = "claim_class snap name gc"
  have "map_of (ClaimClasses snap) name = Some ?claim" using assms by (simp add: ClaimClasses_lookup)
  moreover have "cl_Claimed ?claim \<longleftrightarrow> gcl_ControllerName gc = ControllerName"
    by (simp add: claim_class_def split: prod.split)
  moreover have "cl_Accepted ?claim \<longrightarrow> (\<exists>config. cl_Config ?claim = Some config)"
    using claim_class_config by blast
  moreover have "cl_Accepted ?claim \<and> cl_Config ?claim = Some config \<longleftrightarrow>
      gcl_ControllerName gc = ControllerName \<and> (\<exists>msg. resolveClassConfig gc snap = (Some config, ''Accepted'', msg))" for config
    by (auto simp: claim_class_def split: prod.splits)
  ultimately show ?thesis by (auto simp: resolveClassConfig_accepts)
qed

lemma sample_class_lookup: "map_of (sn_GatewayClasses sample_snap) ''rsync'' = Some sample_class"
  by (simp add: sample_snap_def NewSnapshot_def sample_class_def sample_meta_def)

lemma sample_config_valid:
  "map_of (sn_GatewayConfigs sample_snap) ''default'' =
     Some \<lparr>gcf_Meta = sample_meta '''' ''default'' 0, gcf_Spec = sample_spec, gcf_Conditions = []\<rparr>"
  "Validate sample_spec = None"
  by (simp add: sample_snap_def NewSnapshot_def sample_meta_def) code_simp

theorem ClaimClasses_accepts_iff_witness:
  "\<exists>claim. map_of (ClaimClasses sample_snap) ''rsync'' = Some claim \<and> cl_Claimed claim \<and> cl_Accepted claim \<and>
     cl_Config claim = map_of (sn_GatewayConfigs sample_snap) ''default''"
  using ClaimClasses_accepts_iff [OF sample_snap_wf sample_class_lookup] sample_config_valid
  by (auto simp: sample_class_def)

end
