(* ===== verification/Binding.thy ===== *)
theory Binding
  imports Claims "HOL-Library.Product_Lexorder"
begin

text \<open>
  Route binding (\<open>internal/gateway/bind.go\<close>): each parentRef of a route is matched against the
  Gateways, GatewayClasses and listeners of the snapshot, and the routes bound to one Gateway
  then contend for module names, older routes first. The in-place updates of the results map
  are explicit state passing; a lookup of a route that is not in the snapshot dereferences a
  nil pointer and is \<open>Inl NilDeref\<close>. \<open>verdicts\<close> is the outcome of the contention on its own,
  and \<open>resolveModuleConflicts_spec\<close> says that the loops over the shared results map compute it
  for every Gateway whatever the iteration order of the maps.
\<close>

datatype panic = NilDeref

record ParentResult =
  pres_ParentRef :: ParentReference
  pres_Gateway :: NamespacedName
  pres_Listener :: "Listener option"
  pres_Accepted :: bool
  pres_Reason :: string
  pres_Message :: string

type_synonym Results = "(NamespacedName, ParentResult list) gomap"

definition gatewayAPIGroup :: string where
  "gatewayAPIGroup = ''gateway.networking.k8s.io''"

definition ReasonModuleConflicted :: string where
  "ReasonModuleConflicted = ''ModuleConflicted''"

definition or_default :: "'a option \<Rightarrow> 'a \<Rightarrow> 'a" where
  "or_default p d = (case p of None \<Rightarrow> d | Some v \<Rightarrow> v)"

text \<open>The namespace an object reference means: its own when set and non-empty, else the referrer's.\<close>

definition ref_namespace :: "string option \<Rightarrow> string \<Rightarrow> string" where
  "ref_namespace ns dflt = (case ns of Some n \<Rightarrow> if n \<noteq> [] then n else dflt | None \<Rightarrow> dflt)"

definition rsyncListeners :: "Gateway \<Rightarrow> Listener list" where
  "rsyncListeners gw = filter (\<lambda>l. l_Protocol l = ProtocolRsync) (gw_Listeners gw)"

definition kindsAllow :: "Listener \<Rightarrow> bool" where
  "kindsAllow l =
     (case l_AllowedRoutes l of
        None \<Rightarrow> True
      | Some ar \<Rightarrow> ar_Kinds ar = [] \<or>
          list_ex (\<lambda>k. or_default (rgk_Group k) gatewayAPIGroup = GroupVersion_Group \<and> rgk_Kind k = RouteKind)
            (ar_Kinds ar))"

definition sameNamespaceAllow :: "string \<Rightarrow> NamespacedName \<Rightarrow> string" where
  "sameNamespaceAllow gatewayNS routeKey =
     (if gatewayNS \<noteq> fst routeKey
      then ''route namespace differs from the Gateway namespace (allowedRoutes.namespaces.from=Same)'' else '''')"

definition namespacesAllow :: "Ext \<Rightarrow> Listener \<Rightarrow> string \<Rightarrow> NamespacedName \<Rightarrow> RsyncRoute \<Rightarrow> string" where
  "namespacesAllow x l gatewayNS routeKey route =
     (case l_AllowedRoutes l of
        None \<Rightarrow> sameNamespaceAllow gatewayNS routeKey
      | Some ar \<Rightarrow>
     (case ar_Namespaces ar of
        None \<Rightarrow> sameNamespaceAllow gatewayNS routeKey
      | Some ns \<Rightarrow>
     (case rn_From ns of
        None \<Rightarrow> sameNamespaceAllow gatewayNS routeKey
      | Some from \<Rightarrow>
          if from = ''All'' then ''''
          else if from = ''Same'' then sameNamespaceAllow gatewayNS routeKey
          else if from = ''Selector'' then
            (case rn_Selector ns of
               None \<Rightarrow> ''allowedRoutes.namespaces.from=Selector requires a selector''
             | Some s \<Rightarrow>
                 (case x_AsSelector x s of
                    Inl err \<Rightarrow> ''invalid allowedRoutes.namespaces.selector: '' @ err
                  | Inr matches \<Rightarrow>
                      if \<not> matches (om_Labels (rr_Meta route))
                      then ''route namespace labels do not match allowedRoutes.namespaces.selector'' else ''''))
          else ''allowedRoutes.namespaces.from='' @ from @ '' is not supported'')))"

definition listenerAllows :: "Ext \<Rightarrow> Listener \<Rightarrow> string \<Rightarrow> NamespacedName \<Rightarrow> RsyncRoute \<Rightarrow> string" where
  "listenerAllows x l gatewayNS routeKey route =
     (if \<not> kindsAllow l
      then ''route kind '' @ GroupVersion_Group @ ''/'' @ RouteKind @ '' is not allowed by allowedRoutes.kinds''
      else namespacesAllow x l gatewayNS routeKey route)"

text \<open>The loop over the candidate listeners: the first that allows the route, or every rejection.\<close>

fun try_listeners :: "(Listener \<Rightarrow> string) \<Rightarrow> Listener list \<Rightarrow> string list \<Rightarrow> string list + Listener" where
  "try_listeners allows [] rejections = Inl rejections"
| "try_listeners allows (l # ls) rejections =
     (if allows l = '''' then Inr l
      else try_listeners allows ls (rejections @ [''listener '' @ Quote (l_Name l) @ '': '' @ allows l]))"

definition candidateListeners :: "ParentReference \<Rightarrow> Listener list \<Rightarrow> Listener list" where
  "candidateListeners parentRef listeners =
     (case pref_SectionName parentRef of
        Some want \<Rightarrow>
          if want = [] then listeners
          else (case find (\<lambda>l. l_Name l = want) listeners of None \<Rightarrow> [] | Some l \<Rightarrow> [l])
      | None \<Rightarrow> listeners)"

definition bindParent :: "Ext \<Rightarrow> Snapshot \<Rightarrow> (string, ClassClaim) gomap \<Rightarrow> NamespacedName \<Rightarrow> RsyncRoute \<Rightarrow>
    ParentReference \<Rightarrow> ParentResult" where
  "bindParent x snap claims routeKey route parentRef =
    (let result = \<lparr>pres_ParentRef = parentRef, pres_Gateway = ('''', ''''), pres_Listener = None,
                   pres_Accepted = False, pres_Reason = '''', pres_Message = ''''\<rparr>;
         noMatch = (\<lambda>res msg. res\<lparr>pres_Reason := ''NoMatchingParent'', pres_Message := msg\<rparr>);
         group = or_default (pref_Group parentRef) gatewayAPIGroup;
         kind = or_default (pref_Kind parentRef) ''Gateway'' in
     if group \<noteq> gatewayAPIGroup \<or> kind \<noteq> ''Gateway'' then
       noMatch result (''unsupported parent group/kind '' @ group @ ''/'' @ kind @ ''; only '' @ gatewayAPIGroup @
         ''/Gateway is supported'')
     else
    (let gatewayKey = (ref_namespace (pref_Namespace parentRef) (fst routeKey), pref_Name parentRef);
         result = result\<lparr>pres_Gateway := gatewayKey\<rparr>;
         gwName = x_String x gatewayKey in
     case map_of (sn_Gateways snap) gatewayKey of
       None \<Rightarrow> noMatch result (''Gateway '' @ gwName @ '' not found'')
     | Some gw \<Rightarrow>
    (case map_of claims (gw_GatewayClassName gw) of
       None \<Rightarrow> noMatch result (''GatewayClass '' @ Quote (gw_GatewayClassName gw) @ '' of Gateway '' @ gwName @
                 '' is not managed by '' @ ControllerName)
     | Some claim \<Rightarrow>
         if \<not> cl_Claimed claim then
           noMatch result (''GatewayClass '' @ Quote (gw_GatewayClassName gw) @ '' of Gateway '' @ gwName @
             '' is not managed by '' @ ControllerName)
         else if \<not> cl_Accepted claim then
           noMatch result (''GatewayClass '' @ Quote (gw_GatewayClassName gw) @ '' is not accepted: '' @ cl_Message claim)
         else
        (let listeners = rsyncListeners gw;
             candidates = candidateListeners parentRef listeners in
         if listeners = [] then
           noMatch result (''Gateway '' @ gwName @ '' has no listener with protocol '' @ ProtocolRsync)
         else if candidates = [] then
           noMatch result (''Gateway '' @ gwName @ '' has no listener named '' @
             Quote (or_default (pref_SectionName parentRef) '''') @ '' with protocol '' @ ProtocolRsync)
         else
        (case try_listeners (\<lambda>l. listenerAllows x l (fst gatewayKey) routeKey route) candidates [] of
           Inr l \<Rightarrow> result\<lparr>pres_Listener := Some l, pres_Accepted := True, pres_Reason := ''Accepted''\<rparr>
         | Inl rejections \<Rightarrow>
             result\<lparr>pres_Reason := ''NotAllowedByListeners'',
                    pres_Message := ''no listener of Gateway '' @ gwName @ '' allows this route: '' @
                      Join rejections ''; ''\<rparr>)))))"

definition EffectiveModules :: "RsyncRoute \<Rightarrow> string list" where
  "EffectiveModules route = (if rr_ModuleNames route = [] then [om_Name (rr_Meta route)] else rr_ModuleNames route)"

text \<open>The first loop of \<open>resolveModuleConflicts\<close>: which routes are bound to which Gateway.\<close>

fun bound_of_route :: "NamespacedName \<Rightarrow> ParentResult list \<Rightarrow> NamespacedName list \<Rightarrow>
    (NamespacedName, NamespacedName list) gomap \<Rightarrow> (NamespacedName, NamespacedName list) gomap" where
  "bound_of_route routeKey [] seen bound = bound"
| "bound_of_route routeKey (res # rest) seen bound =
     (if \<not> pres_Accepted res \<or> pres_Gateway res \<in> set seen then bound_of_route routeKey rest seen bound
      else bound_of_route routeKey rest (pres_Gateway res # seen)
        (AList.update (pres_Gateway res)
          (or_default (map_of bound (pres_Gateway res)) [] @ [routeKey]) bound))"

definition bound_routes :: "Results \<Rightarrow> (NamespacedName, NamespacedName list) gomap" where
  "bound_routes results = fold (\<lambda>(routeKey, perParent). bound_of_route routeKey perParent []) results []"

text \<open>The search for a module that an older route claims already.\<close>

fun first_claimed :: "string list \<Rightarrow> (string, NamespacedName) gomap \<Rightarrow> (NamespacedName \<times> string) option" where
  "first_claimed [] owner = None"
| "first_claimed (m # ms) owner =
     (case map_of owner m of Some prev \<Rightarrow> Some (prev, m) | None \<Rightarrow> first_claimed ms owner)"

definition reject_conflicted :: "Ext \<Rightarrow> NamespacedName \<Rightarrow> NamespacedName \<times> string \<Rightarrow> ParentResult \<Rightarrow> ParentResult" where
  "reject_conflicted x gatewayKey w res =
     (if pres_Accepted res \<and> pres_Gateway res = gatewayKey
      then res\<lparr>pres_Accepted := False, pres_Reason := ReasonModuleConflicted,
               pres_Message := ''module '' @ Quote (snd w) @ '' is already claimed by route '' @
                 Quote (x_String x (fst w)) @ '' on Gateway '' @ x_String x gatewayKey @ ''; older routes win''\<rparr>
      else res)"

definition claim_modules :: "NamespacedName \<Rightarrow> string list \<Rightarrow> (string, NamespacedName) gomap \<Rightarrow> (string, NamespacedName) gomap" where
  "claim_modules k ms owner = fold (\<lambda>m. AList.update m k) ms owner"

fun contend :: "Ext \<Rightarrow> NamespacedName \<Rightarrow> (NamespacedName \<times> RsyncRoute) list \<Rightarrow> (string, NamespacedName) gomap \<Rightarrow>
    Results \<Rightarrow> Results" where
  "contend x gatewayKey [] owner results = results"
| "contend x gatewayKey ((routeKey, route) # rest) owner results =
     (case first_claimed (EffectiveModules route) owner of
        Some w \<Rightarrow>
          contend x gatewayKey rest owner
            (AList.map_entry routeKey (map (reject_conflicted x gatewayKey w)) results)
      | None \<Rightarrow> contend x gatewayKey rest (claim_modules routeKey (EffectiveModules route) owner) results)"

definition lookup_route :: "Snapshot \<Rightarrow> NamespacedName \<Rightarrow> panic + (NamespacedName \<times> RsyncRoute)" where
  "lookup_route snap k = (case map_of (sn_RsyncRoutes snap) k of None \<Rightarrow> Inl NilDeref | Some r \<Rightarrow> Inr (k, r))"

text \<open>The comparison function handed to \<open>sort.Slice\<close>: creation time, ties by namespaced name.\<close>

definition route_age :: "Ext \<Rightarrow> NamespacedName \<times> RsyncRoute \<Rightarrow> int \<times> string" where
  "route_age x kr = (om_CreationTimestamp (rr_Meta (snd kr)), x_String x (fst kr))"

definition resolve_gateway :: "Ext \<Rightarrow> Snapshot \<Rightarrow> NamespacedName \<times> NamespacedName list \<Rightarrow> Results \<Rightarrow> panic + Results" where
  "resolve_gateway x snap gb results =
     bindE (mapE (lookup_route snap) (snd gb))
       (\<lambda>routes. Inr (contend x (fst gb) (sort_key (route_age x) routes) [] results))"

definition resolveModuleConflicts :: "Ext \<Rightarrow> Snapshot \<Rightarrow> Results \<Rightarrow> panic + Results" where
  "resolveModuleConflicts x snap results = foldE (resolve_gateway x snap) (bound_routes results) results"

definition bind_all :: "Ext \<Rightarrow> Snapshot \<Rightarrow> (string, ClassClaim) gomap \<Rightarrow> Results" where
  "bind_all x snap claims =
     map (\<lambda>(key, route). (key, map (bindParent x snap claims key route) (rr_ParentRefs route))) (sn_RsyncRoutes snap)"

definition BindRoutes :: "Ext \<Rightarrow> Snapshot \<Rightarrow> (string, ClassClaim) gomap \<Rightarrow> panic + Results" where
  "BindRoutes x snap claims = resolveModuleConflicts x snap (bind_all x snap claims)"

section \<open>The contention for modules, on its own\<close>

text \<open>
  The routes that lose on one Gateway, each with the older route and the module it loses to,
  from the contenders in order of age and the modules that are taken already.
\<close>

fun verdicts :: "(NamespacedName \<times> RsyncRoute) list \<Rightarrow> (string, NamespacedName) gomap \<Rightarrow>
    (NamespacedName, NamespacedName \<times> string) gomap" where
  "verdicts [] owner = []"
| "verdicts ((k, r) # rest) owner =
     (case first_claimed (EffectiveModules r) owner of
        Some w \<Rightarrow> (k, w) # verdicts rest owner
      | None \<Rightarrow> verdicts rest (claim_modules k (EffectiveModules r) owner))"

definition settle :: "Ext \<Rightarrow> NamespacedName \<Rightarrow> (NamespacedName \<times> string) option \<Rightarrow> ParentResult \<Rightarrow> ParentResult" where
  "settle x g v res = (case v of None \<Rightarrow> res | Some w \<Rightarrow> reject_conflicted x g w res)"

definition bound_to :: "NamespacedName \<Rightarrow> ParentResult list \<Rightarrow> bool" where
  "bound_to g ps \<longleftrightarrow> (\<exists>p\<in>set ps. pres_Accepted p \<and> pres_Gateway p = g)"

definition contenders :: "Ext \<Rightarrow> Snapshot \<Rightarrow> Results \<Rightarrow> NamespacedName \<Rightarrow> (NamespacedName \<times> RsyncRoute) list" where
  "contenders x snap results g =
     sort_key (route_age x)
       (map (\<lambda>(k, ps). (k, the (map_of (sn_RsyncRoutes snap) k))) (filter (\<lambda>(k, ps). bound_to g ps) results))"

definition settled :: "Ext \<Rightarrow> Snapshot \<Rightarrow> Results \<Rightarrow> Results" where
  "settled x snap results =
     map (\<lambda>(k, ps). (k, map (\<lambda>res. settle x (pres_Gateway res)
       (map_of (verdicts (contenders x snap results (pres_Gateway res)) []) k) res) ps)) results"

lemma or_default_simps [simp]: "or_default None d = d" "or_default (Some v) d = v"
  by (simp_all add: or_default_def)

lemma settle_None [simp]: "settle x g None res = res"
  by (simp add: settle_def)

lemma settle_Gateway [simp]: "pres_Gateway (settle x g v res) = pres_Gateway res"
  by (simp add: settle_def reject_conflicted_def split: option.splits)

lemma settle_other: "pres_Gateway res \<noteq> g \<or> \<not> pres_Accepted res \<Longrightarrow> settle x g v res = res"
  by (auto simp: settle_def reject_conflicted_def split: option.splits)

lemma bound_of_route_lookup:
  "or_default (map_of (bound_of_route k ps seen bound) g) [] =
   or_default (map_of bound g) [] @ (if g \<notin> set seen \<and> bound_to g ps then [k] else [])"
proof (induction k ps seen bound rule: bound_of_route.induct)
  case (2 k p ps seen bound)
  then show ?case by (cases "g = pres_Gateway p") (auto simp: bound_to_def update_conv)
qed (simp add: bound_to_def)

lemma bound_of_route_wf: "gm_wf bound \<Longrightarrow> gm_wf (bound_of_route k ps seen bound)"
  by (induction k ps seen bound rule: bound_of_route.induct) (simp_all add: distinct_update)

lemma bound_routes_fold_lookup:
  "or_default (map_of (fold (\<lambda>(k, ps). bound_of_route k ps []) results bound) g) [] =
   or_default (map_of bound g) [] @ map fst (filter (\<lambda>(k, ps). bound_to g ps) results)"
  by (induction results arbitrary: bound) (auto simp: bound_of_route_lookup)

lemma bound_routes_lookup:
  "or_default (map_of (bound_routes results) g) [] = map fst (filter (\<lambda>(k, ps). bound_to g ps) results)"
  by (simp add: bound_routes_def bound_routes_fold_lookup)

lemma bound_routes_wf: "gm_wf (bound_routes results)"
proof -
  have "gm_wf bound \<Longrightarrow> gm_wf (fold (\<lambda>(k, ps). bound_of_route k ps []) results bound)" for bound
    by (induction results arbitrary: bound) (auto simp: bound_of_route_wf)
  then show ?thesis by (simp add: bound_routes_def)
qed

lemma map_entry_map:
  "gm_wf m \<Longrightarrow> AList.map_entry k f m = map (\<lambda>(k', v). (k', if k' = k then f v else v)) m"
proof (induction m)
  case (Cons kv m)
  then have "k = fst kv \<Longrightarrow> map (\<lambda>(k', v). (k', if k' = k then f v else v)) m = m"
    by (intro map_idI) (auto simp: image_iff)
  with Cons show ?case by (cases kv) auto
qed simp

lemma verdicts_keys: "fst ` set (verdicts rs owner) \<subseteq> fst ` set rs"
proof (induction rs owner rule: verdicts.induct)
  case (2 k r rest owner)
  then show ?case by (cases "first_claimed (EffectiveModules r) owner") (simp_all, blast+)
qed simp

lemma contend_verdicts:
  assumes "gm_wf results" "distinct (map fst rs)"
  shows "contend x g rs owner results =
    map (\<lambda>(k, ps). (k, map (settle x g (map_of (verdicts rs owner) k)) ps)) results"
  using assms
proof (induction x g rs owner results rule: contend.induct)
  case (1 x g owner results)
  have "map (settle x g None) = id" by (simp add: fun_eq_iff map_idI)
  then show ?case by simp
next
  case (2 x g k r rest owner results)
  show ?case
  proof (cases "first_claimed (EffectiveModules r) owner")
    case None
    with 2 show ?thesis by simp
  next
    case (Some w)
    have free: "map_of (verdicts rest owner) k = None"
      using verdicts_keys [of rest owner] 2(4) by (auto simp: map_of_eq_None_iff)
    let ?res = "map (\<lambda>(k', v). (k', if k' = k then map (reject_conflicted x g w) v else v)) results"
    have "gm_wf ?res" using 2(3) by (simp add: comp_def case_prod_unfold)
    with 2 Some have "contend x g ((k, r) # rest) owner results =
        map (\<lambda>(k, ps). (k, map (settle x g (map_of (verdicts rest owner) k)) ps)) ?res"
      by (simp add: map_entry_map)
    also have "\<dots> = map (\<lambda>(k', ps). (k', map (settle x g (map_of (verdicts ((k, r) # rest) owner) k')) ps)) results"
      using free Some by (auto simp: settle_def)
    finally show ?thesis .
  qed
qed

lemma mapE_lookup_route:
  "set ks \<subseteq> fst ` set (sn_RsyncRoutes snap) \<Longrightarrow>
   mapE (lookup_route snap) ks = Inr (map (\<lambda>k. (k, the (map_of (sn_RsyncRoutes snap) k))) ks)"
proof (induction ks)
  case (Cons k ks)
  then obtain r where "map_of (sn_RsyncRoutes snap) k = Some r"
    by (metis insert_subset list.set(2) map_of_eq_None_iff not_None_eq)
  with Cons show ?case by (simp add: lookup_route_def)
qed simp

lemma bound_routes_contenders:
  "sort_key (route_age x) (map (\<lambda>k. (k, the (map_of (sn_RsyncRoutes snap) k)))
     (or_default (map_of (bound_routes results) g) [])) = contenders x snap results g"
  by (simp add: bound_routes_lookup contenders_def case_prod_unfold comp_def)

lemma contenders_distinct:
  assumes "gm_wf results"
  shows "distinct (map fst (contenders x snap results g))"
proof -
  have "distinct (map fst (filter (\<lambda>(k, ps). bound_to g ps) results))"
    using assms by (rule distinct_map_filter)
  moreover have "mset (map fst (contenders x snap results g)) =
      mset (map fst (filter (\<lambda>(k, ps). bound_to g ps) results))"
    by (simp add: contenders_def case_prod_unfold multiset.map_comp comp_def)
  ultimately show ?thesis using mset_eq_imp_distinct_iff by blast
qed

lemma resolve_gateway_settles:
  assumes "gm_wf results" "gm_wf res" "fst ` set results \<subseteq> fst ` set (sn_RsyncRoutes snap)"
    and "(g, ks) \<in> set (bound_routes results)"
  shows "resolve_gateway x snap (g, ks) res =
    Inr (map (\<lambda>(k, ps). (k, map (settle x g (map_of (verdicts (contenders x snap results g) []) k)) ps)) res)"
proof -
  have ks: "or_default (map_of (bound_routes results) g) [] = ks"
    using assms(4) bound_routes_wf [of results] by simp
  then have "set ks \<subseteq> fst ` set (sn_RsyncRoutes snap)"
    using assms(3) unfolding bound_routes_lookup by (fastforce simp: image_iff)
  then show ?thesis
    using ks bound_routes_contenders [of x snap results g]
      contend_verdicts [OF assms(2) contenders_distinct [OF assms(1)]]
    by (simp add: resolve_gateway_def mapE_lookup_route)
qed

lemma foldE_resolve_gateway:
  assumes "gm_wf results" "fst ` set results \<subseteq> fst ` set (sn_RsyncRoutes snap)"
    and "set gs \<subseteq> set (bound_routes results)" "gm_wf res"
  shows "foldE (resolve_gateway x snap) gs res =
    Inr (map (\<lambda>(k, ps). (k, map (fold (\<lambda>g. settle x g (map_of (verdicts (contenders x snap results g) []) k))
      (map fst gs)) ps)) res)"
  using assms(3,4)
proof (induction gs arbitrary: res)
  case Nil
  then show ?case by simp
next
  case (Cons gk gs)
  obtain g ks where gk: "gk = (g, ks)" by (cases gk)
  let ?res = "map (\<lambda>(k, ps). (k, map (settle x g (map_of (verdicts (contenders x snap results g) []) k)) ps)) res"
  have "gm_wf ?res" using Cons.prems(2) by (simp add: case_prod_unfold comp_def)
  moreover have "resolve_gateway x snap gk res = Inr ?res"
    using resolve_gateway_settles [OF assms(1) Cons.prems(2) assms(2)] Cons.prems(1) gk by simp
  ultimately show ?case using Cons gk by (simp add: case_prod_unfold comp_def)
qed

lemma fold_settle_one:
  assumes "distinct gs"
  shows "fold (\<lambda>g. settle x g (v g)) gs res =
    (if pres_Gateway res \<in> set gs then settle x (pres_Gateway res) (v (pres_Gateway res)) res else res)"
  using assms
proof (induction gs arbitrary: res)
  case (Cons g gs)
  then show ?case by (cases "pres_Gateway res = g") (auto simp: settle_other)
qed simp

lemma bound_routes_complete:
  assumes "(k, ps) \<in> set results" "p \<in> set ps" "pres_Accepted p"
  shows "pres_Gateway p \<in> fst ` set (bound_routes results)"
proof -
  have "k \<in> set (or_default (map_of (bound_routes results) (pres_Gateway p)) [])"
    using assms by (auto simp: bound_routes_lookup bound_to_def intro!: image_eqI [where x = "(k, ps)"])
  then show ?thesis by (metis empty_iff list.set(1) map_of_eq_None_iff or_default_simps(1))
qed

text \<open>The loops settle every Gateway, in whatever order the map \<open>bound\<close> is visited.\<close>

lemma resolveModuleConflicts_any_order:
  assumes "gm_wf results" "fst ` set results \<subseteq> fst ` set (sn_RsyncRoutes snap)"
    and "mset gs = mset (bound_routes results)"
  shows "foldE (resolve_gateway x snap) gs results = Inr (settled x snap results)"
proof -
  have gs: "set gs = set (bound_routes results)" using assms(3) by (rule mset_eq_setD)
  have "mset (map fst gs) = mset (map fst (bound_routes results))" using assms(3) by simp
  then have dist: "distinct (map fst gs)" using bound_routes_wf mset_eq_imp_distinct_iff by blast
  have "fold (\<lambda>g. settle x g (map_of (verdicts (contenders x snap results g) []) k)) (map fst gs) p =
      settle x (pres_Gateway p) (map_of (verdicts (contenders x snap results (pres_Gateway p)) []) k) p"
    if "(k, ps) \<in> set results" "p \<in> set ps" for k ps p
    using bound_routes_complete [OF that] gs
    by (cases "pres_Accepted p") (simp_all add: fold_settle_one [OF dist] settle_other)
  then show ?thesis
    using assms(1,2) gs
    by (subst foldE_resolve_gateway [where results = results]) (auto simp: settled_def)
qed

lemma bind_all_keys: "map fst (bind_all x snap claims) = map fst (sn_RsyncRoutes snap)"
  by (simp add: bind_all_def case_prod_unfold comp_def)

lemma BindRoutes_settled:
  assumes "snap_wf snap"
  shows "BindRoutes x snap claims = Inr (settled x snap (bind_all x snap claims))"
  unfolding BindRoutes_def resolveModuleConflicts_def
proof (rule resolveModuleConflicts_any_order)
  show "gm_wf (bind_all x snap claims)" using assms by (simp add: bind_all_keys snap_wf_def)
  show "fst ` set (bind_all x snap claims) \<subseteq> fst ` set (sn_RsyncRoutes snap)"
    using bind_all_keys [of x snap claims] by (metis list.set_map order_refl)
qed simp

section \<open>Who wins\<close>

lemma first_claimed_Some: "first_claimed ms owner = Some (w, m) \<Longrightarrow> m \<in> set ms \<and> map_of owner m = Some w"
  by (induction ms owner rule: first_claimed.induct) (auto split: option.splits)

lemma first_claimed_None: "first_claimed ms owner = None \<longleftrightarrow> (\<forall>m\<in>set ms. map_of owner m = None)"
  by (induction ms owner rule: first_claimed.induct) (auto split: option.splits)

lemma claim_modules_lookup: "map_of (claim_modules k ms owner) m = (if m \<in> set ms then Some k else map_of owner m)"
  unfolding claim_modules_def by (induction ms arbitrary: owner) (auto simp: update_conv)

lemma verdicts_fresh: "k \<notin> fst ` set rs \<Longrightarrow> map_of (verdicts rs owner) k = None"
  using verdicts_keys [of rs owner] by (auto simp: map_of_eq_None_iff)

lemma verdicts_winner_free:
  assumes "(k, r) \<in> set rs" "distinct (map fst rs)" "map_of (verdicts rs owner) k = None" "m \<in> set (EffectiveModules r)"
  shows "map_of owner m = None"
  using assms
proof (induction rs owner rule: verdicts.induct)
  case (2 k' r' rest owner)
  then show ?case
    by (cases "first_claimed (EffectiveModules r') owner")
      (auto simp: first_claimed_None claim_modules_lookup split: if_splits)
qed simp

lemma verdicts_winners_disjoint:
  assumes "(k1, r1) \<in> set rs" "(k2, r2) \<in> set rs" "k1 \<noteq> k2" "distinct (map fst rs)"
    and "map_of (verdicts rs owner) k1 = None" "map_of (verdicts rs owner) k2 = None"
  shows "set (EffectiveModules r1) \<inter> set (EffectiveModules r2) = {}"
  using assms
proof (induction rs owner rule: verdicts.induct)
  case (2 k r rest owner)
  show ?case
  proof (cases "first_claimed (EffectiveModules r) owner")
    case (Some w)
    with 2 show ?thesis by (auto split: if_splits)
  next
    case None
    let ?owner = "claim_modules k (EffectiveModules r) owner"
    have rest: "set (EffectiveModules r') \<inter> set (EffectiveModules r) = {}"
      if "(k', r') \<in> set rest" "map_of (verdicts rest ?owner) k' = None" for k' r'
      using verdicts_winner_free [OF that(1) _ that(2)] "2.prems"(4) by (fastforce simp: claim_modules_lookup)
    consider "(k1, r1) \<in> set rest" "(k2, r2) \<in> set rest"
      | "r1 = r" "(k2, r2) \<in> set rest" | "(k1, r1) \<in> set rest" "r2 = r"
      using "2.prems"(1,2,3) by auto
    then show ?thesis
    proof cases
      case 1
      with 2 None show ?thesis by simp
    next
      case 2
      then show ?thesis using rest [of k2 r2] "2.prems"(6) None by auto
    next
      case 3
      then show ?thesis using rest [of k1 r1] "2.prems"(5) None by auto
    qed
  qed
qed simp

lemma verdicts_blame:
  assumes "map_of (verdicts rs owner) k = Some (w, m)" "sorted_wrt R rs" "distinct (map fst rs)"
  shows "\<exists>r. (k, r) \<in> set rs \<and> m \<in> set (EffectiveModules r) \<and>
    (map_of owner m = Some w \<or>
      (\<exists>r'. (w, r') \<in> set rs \<and> w \<noteq> k \<and> R (w, r') (k, r) \<and> m \<in> set (EffectiveModules r') \<and>
         map_of (verdicts rs owner) w = None))"
  using assms
proof (induction rs owner rule: verdicts.induct)
  case (2 k' r' rest owner)
  show ?case
  proof (cases "first_claimed (EffectiveModules r') owner")
    case (Some w')
    show ?thesis
    proof (cases "k = k'")
      case True
      with Some 2 show ?thesis by (auto dest: first_claimed_Some)
    next
      case False
      with Some 2 obtain r where "(k, r) \<in> set rest" "m \<in> set (EffectiveModules r)"
        "map_of owner m = Some w \<or> (\<exists>r'. (w, r') \<in> set rest \<and> w \<noteq> k \<and> R (w, r') (k, r) \<and>
          m \<in> set (EffectiveModules r') \<and> map_of (verdicts rest owner) w = None)" by auto
      moreover have "w \<noteq> k'" if "(w, r'') \<in> set rest" for r''
        using that "2.prems"(3) by (force simp: image_iff)
      ultimately show ?thesis using Some by auto
    qed
  next
    case None
    let ?owner = "claim_modules k' (EffectiveModules r') owner"
    from None 2 obtain r where r: "(k, r) \<in> set rest" "m \<in> set (EffectiveModules r)"
      "map_of ?owner m = Some w \<or> (\<exists>r'. (w, r') \<in> set rest \<and> w \<noteq> k \<and> R (w, r') (k, r) \<and>
        m \<in> set (EffectiveModules r') \<and> map_of (verdicts rest ?owner) w = None)" by auto
    have kk: "k \<noteq> k'" using r(1) "2.prems"(3) by (force simp: image_iff)
    have fresh: "map_of (verdicts rest ?owner) k' = None"
      using "2.prems"(3) by (intro verdicts_fresh) simp
    have "R (k', r') (k, r)" using r(1) "2.prems"(2) by simp
    with r kk fresh None show ?thesis
      by (auto simp: claim_modules_lookup split: if_splits)
  qed
qed simp

section \<open>The results of \<open>BindRoutes\<close>\<close>

lemma bindParent_ParentRef [simp]: "pres_ParentRef (bindParent x snap claims k r p) = p"
  by (simp add: bindParent_def Let_def split: option.split sum.split)

lemma bindParent_reason:
  "pres_Reason (bindParent x snap claims k r p) \<in> {''Accepted'', ''NoMatchingParent'', ''NotAllowedByListeners''}"
  by (simp add: bindParent_def Let_def split: option.split sum.split)

lemma bindParent_accepted_reason:
  "pres_Accepted (bindParent x snap claims k r p) \<longleftrightarrow> pres_Reason (bindParent x snap claims k r p) = ''Accepted''"
  by (simp add: bindParent_def Let_def split: option.split sum.split)

lemma bindParent_not_conflicted: "pres_Reason (bindParent x snap claims k r p) \<noteq> ReasonModuleConflicted"
  using bindParent_reason [of x snap claims k r p] by (auto simp: ReasonModuleConflicted_def)

lemma settled_lookup:
  "map_of (settled x snap results) k = map_option (map (\<lambda>res. settle x (pres_Gateway res)
     (map_of (verdicts (contenders x snap results (pres_Gateway res)) []) k) res)) (map_of results k)"
proof -
  have "map_of (map (\<lambda>(k, ps). (k, map (F k) ps)) rs) k = map_option (map (F k)) (map_of rs k)"
    for F :: "NamespacedName \<Rightarrow> ParentResult \<Rightarrow> ParentResult" and rs by (induction rs) auto
  from this [of "\<lambda>k res. settle x (pres_Gateway res)
     (map_of (verdicts (contenders x snap results (pres_Gateway res)) []) k) res"]
  show ?thesis by (simp add: settled_def)
qed

lemma bind_all_lookup:
  "map_of (bind_all x snap claims) k =
   map_option (\<lambda>r. map (bindParent x snap claims k r) (rr_ParentRefs r)) (map_of (sn_RsyncRoutes snap) k)"
proof -
  have "map_of (map (\<lambda>(k, r). (k, F k r)) rs) k = map_option (F k) (map_of rs k)"
    for F :: "NamespacedName \<Rightarrow> RsyncRoute \<Rightarrow> ParentResult list" and rs by (induction rs) auto
  from this [of "\<lambda>k r. map (bindParent x snap claims k r) (rr_ParentRefs r)"]
  show ?thesis by (simp add: bind_all_def)
qed

lemma settle_accepted:
  "pres_Accepted (settle x (pres_Gateway p) v p) \<longleftrightarrow> pres_Accepted p \<and> v = None"
  by (simp add: settle_def reject_conflicted_def split: option.splits)

lemma settled_bound:
  assumes "map_of (settled x snap results) k = Some ps'" "bound_to g ps'"
  shows "\<exists>ps. map_of results k = Some ps \<and> bound_to g ps \<and>
    map_of (verdicts (contenders x snap results g) []) k = None"
proof -
  obtain ps where ps: "map_of results k = Some ps" "ps' = map (\<lambda>res. settle x (pres_Gateway res)
      (map_of (verdicts (contenders x snap results (pres_Gateway res)) []) k) res) ps"
    using assms(1) by (auto simp: settled_lookup)
  with assms(2) show ?thesis by (auto simp: bound_to_def settle_accepted)
qed

lemma settled_winner_bound:
  assumes "map_of results k = Some ps" "bound_to g ps" "map_of (verdicts (contenders x snap results g) []) k = None"
  shows "\<exists>ps'. map_of (settled x snap results) k = Some ps' \<and> bound_to g ps'"
  using assms by (force simp: settled_lookup bound_to_def settle_accepted)

lemma contenders_iff:
  assumes "gm_wf results"
  shows "(k, r) \<in> set (contenders x snap results g) \<longleftrightarrow>
    (\<exists>ps. map_of results k = Some ps \<and> bound_to g ps) \<and> r = the (map_of (sn_RsyncRoutes snap) k)"
  using assms unfolding contenders_def
  by (force simp: gm_wf_lookup [symmetric] simp del: map_of_eq_Some_iff)

lemma contenders_sorted: "sorted_wrt (\<lambda>a b. route_age x a \<le> route_age x b) (contenders x snap results g)"
proof -
  have "sorted (map (route_age x) (contenders x snap results g))" by (simp add: contenders_def)
  then show ?thesis by (simp add: sorted_wrt_map)
qed

lemma bind_all_wf: "snap_wf snap \<Longrightarrow> gm_wf (bind_all x snap claims)"
  by (simp add: bind_all_keys snap_wf_def)

text \<open>C14: Two different routes that stay bound to the same Gateway serve disjoint sets of modules.\<close>

theorem bound_routes_serve_disjoint_modules:
  assumes "snap_wf snap" "BindRoutes x snap claims = Inr results"
    and "map_of results k1 = Some ps1" "bound_to g ps1" "map_of (sn_RsyncRoutes snap) k1 = Some r1"
    and "map_of results k2 = Some ps2" "bound_to g ps2" "map_of (sn_RsyncRoutes snap) k2 = Some r2"
    and "k1 \<noteq> k2"
  shows "set (EffectiveModules r1) \<inter> set (EffectiveModules r2) = {}"
proof -
  let ?init = "bind_all x snap claims"
  have res: "results = settled x snap ?init" using assms(1,2) by (simp add: BindRoutes_settled)
  note wf = bind_all_wf [OF assms(1), of x claims]
  have in_c: "(k, r) \<in> set (contenders x snap ?init g) \<and> map_of (verdicts (contenders x snap ?init g) []) k = None"
    if "map_of results k = Some ps" "bound_to g ps" "map_of (sn_RsyncRoutes snap) k = Some r" for k ps r
    using settled_bound [of x snap ?init k ps g] that res by (auto simp: contenders_iff [OF wf])
  show ?thesis
    using verdicts_winners_disjoint [OF _ _ assms(9) contenders_distinct [OF wf]] in_c assms(3-8) by metis
qed

text \<open>C15: A binding is refused as ModuleConflicted only in favour of another route that is at least as old,
  claims one of the same modules and stays bound to that Gateway; the message names both.\<close>

theorem conflict_names_an_older_bound_route:
  assumes "snap_wf snap" "BindRoutes x snap claims = Inr results"
    and "map_of results k = Some ps" "p \<in> set ps" "pres_Reason p = ReasonModuleConflicted"
  shows "\<exists>r w rw m psw. map_of (sn_RsyncRoutes snap) k = Some r \<and> map_of (sn_RsyncRoutes snap) w = Some rw \<and>
    w \<noteq> k \<and> route_age x (w, rw) \<le> route_age x (k, r) \<and>
    m \<in> set (EffectiveModules r) \<and> m \<in> set (EffectiveModules rw) \<and>
    map_of results w = Some psw \<and> bound_to (pres_Gateway p) psw \<and> \<not> pres_Accepted p \<and>
    pres_Message p = ''module '' @ Quote m @ '' is already claimed by route '' @ Quote (x_String x w) @
      '' on Gateway '' @ x_String x (pres_Gateway p) @ ''; older routes win''"
proof -
  let ?init = "bind_all x snap claims"
  have res: "results = settled x snap ?init" using assms(1,2) by (simp add: BindRoutes_settled)
  note wf = bind_all_wf [OF assms(1), of x claims]
  let ?V = "\<lambda>g. verdicts (contenders x snap ?init g) []"
  from assms(3) res obtain r where r: "map_of (sn_RsyncRoutes snap) k = Some r"
    and ps: "ps = map (\<lambda>p. settle x (pres_Gateway p) (map_of (?V (pres_Gateway p)) k) p)
      (map (bindParent x snap claims k r) (rr_ParentRefs r))"
    by (auto simp: settled_lookup bind_all_lookup)
  from ps assms(4) obtain pr where p: "p = settle x (pres_Gateway pr) (map_of (?V (pres_Gateway pr)) k) pr"
    and pr: "pr \<in> set (map (bindParent x snap claims k r) (rr_ParentRefs r))" by auto
  have "pres_Reason pr \<noteq> ReasonModuleConflicted"
    using pr by (auto simp: bindParent_not_conflicted)
  then obtain w m where v: "map_of (?V (pres_Gateway pr)) k = Some (w, m)" and acc: "pres_Accepted pr"
    using p assms(5) by (cases "map_of (?V (pres_Gateway pr)) k")
      (auto simp: settle_def reject_conflicted_def split: if_splits)
  from verdicts_blame [OF v contenders_sorted contenders_distinct [OF wf]]
  obtain r2 rw where w: "(k, r2) \<in> set (contenders x snap ?init (pres_Gateway pr))" "m \<in> set (EffectiveModules r2)"
    "(w, rw) \<in> set (contenders x snap ?init (pres_Gateway pr))" "w \<noteq> k"
    "route_age x (w, rw) \<le> route_age x (k, r2)" "m \<in> set (EffectiveModules rw)"
    "map_of (?V (pres_Gateway pr)) w = None" by auto
  from w(1) r have "r2 = r" by (simp add: contenders_iff [OF wf])
  moreover obtain psw where "map_of results w = Some psw" "bound_to (pres_Gateway pr) psw"
    using w(3,7) settled_winner_bound [of ?init w _ "pres_Gateway pr" x snap] res
    by (auto simp: contenders_iff [OF wf])
  moreover have "map_of (sn_RsyncRoutes snap) w = Some rw"
    using w(3) by (auto simp: contenders_iff [OF wf] bind_all_lookup)
  moreover have "pres_Gateway p = pres_Gateway pr" "\<not> pres_Accepted p"
    "pres_Message p = ''module '' @ Quote m @ '' is already claimed by route '' @ Quote (x_String x w) @
      '' on Gateway '' @ x_String x (pres_Gateway pr) @ ''; older routes win''"
    using p v acc by (simp_all add: settle_def reject_conflicted_def)
  ultimately show ?thesis using r w by metis
qed


lemma gm_wf_perm_map_of:
  assumes "mset m = mset m'" "gm_wf m"
  shows "map_of m' = map_of m"
proof -
  have "mset (map fst m) = mset (map fst m')" using assms(1) by simp
  then have "gm_wf m'" using assms(2) mset_eq_imp_distinct_iff by blast
  then show ?thesis using assms by (metis map_of_inject_set mset_eq_setD)
qed

lemma bindParent_routes_irrelevant:
  "bindParent x (snap\<lparr>sn_RsyncRoutes := rs\<rparr>) = bindParent x snap"
  by (intro ext) (simp add: bindParent_def Let_def)

lemma bind_all_perm:
  "mset rs = mset (sn_RsyncRoutes snap) \<Longrightarrow>
   mset (bind_all x (snap\<lparr>sn_RsyncRoutes := rs\<rparr>) claims) = mset (bind_all x snap claims)"
  by (simp add: bind_all_def bindParent_routes_irrelevant)

lemma contenders_perm:
  assumes "mset results = mset results'" "gm_wf results" "inj_on (x_String x) (fst ` set results)"
    and "map_of (sn_RsyncRoutes snap') = map_of (sn_RsyncRoutes snap)"
  shows "contenders x snap results g = contenders x snap' results' g"
  unfolding contenders_def assms(4)
proof (rule sort_key_perm_inj)
  show "mset (map (\<lambda>(k, ps). (k, the (map_of (sn_RsyncRoutes snap) k))) (filter (\<lambda>(k, ps). bound_to g ps) results)) =
    mset (map (\<lambda>(k, ps). (k, the (map_of (sn_RsyncRoutes snap) k))) (filter (\<lambda>(k, ps). bound_to g ps) results'))"
    using assms(1) by simp
  let ?ks = "set (map (\<lambda>(k, ps). (k, the (map_of (sn_RsyncRoutes snap) k))) (filter (\<lambda>(k, ps). bound_to g ps) results))"
  have entry: "fst a \<in> fst ` set results \<and> a = (fst a, the (map_of (sn_RsyncRoutes snap) (fst a)))"
    if "a \<in> ?ks" for a using that by force
  show "inj_on (route_age x) ?ks"
  proof (rule inj_onI)
    fix a b
    assume ab: "a \<in> ?ks" "b \<in> ?ks" "route_age x a = route_age x b"
    then have "fst a = fst b" using inj_onD [OF assms(3)] entry by (simp add: route_age_def)
    then show "a = b" using entry [OF ab(1)] entry [OF ab(2)] by simp
  qed
qed

text \<open>C16: The outcome does not depend on the iteration order of any Go map: neither of the routes of the
  snapshot, nor of the Gateways in \<open>bound\<close>. (\<open>String\<close> tells the keys of the routes apart.)\<close>

theorem binding_is_deterministic:
  assumes "snap_wf snap" "inj_on (x_String x) (fst ` set (sn_RsyncRoutes snap))"
    and "mset rs = mset (sn_RsyncRoutes snap)" "snap' = snap\<lparr>sn_RsyncRoutes := rs\<rparr>"
    and "mset gs = mset (bound_routes (bind_all x snap' claims))"
  shows "\<exists>results results'. BindRoutes x snap claims = Inr results \<and>
    foldE (resolve_gateway x snap') gs (bind_all x snap' claims) = Inr results' \<and> map_of results' = map_of results"
proof -
  let ?init = "bind_all x snap claims" and ?init' = "bind_all x snap' claims"
  have wf: "gm_wf ?init" using assms(1) by (rule bind_all_wf)
  have same: "mset ?init' = mset ?init" using bind_all_perm assms(3,4) by simp
  have routes: "map_of (sn_RsyncRoutes snap') = map_of (sn_RsyncRoutes snap)"
    using gm_wf_perm_map_of [of "sn_RsyncRoutes snap" rs] assms(1,3,4) by (simp add: snap_wf_def)
  have keys: "fst ` set ?init = fst ` set (sn_RsyncRoutes snap)"
    using bind_all_keys [of x snap claims] by (metis list.set_map)
  have "contenders x snap' ?init' g = contenders x snap ?init g" for g
    using contenders_perm [OF same [symmetric] wf _ routes] keys assms(2) by simp
  then have "mset (settled x snap' ?init') = mset (settled x snap ?init)"
    using same by (simp add: settled_def)
  moreover have "gm_wf (settled x snap ?init)" using wf by (simp add: settled_def case_prod_unfold comp_def)
  ultimately have "map_of (settled x snap' ?init') = map_of (settled x snap ?init)"
    by (metis gm_wf_perm_map_of)
  moreover have "gm_wf ?init'"
    using same wf by (metis mset_eq_imp_distinct_iff mset_map)
  moreover have "fst ` set ?init' \<subseteq> fst ` set (sn_RsyncRoutes snap')"
    using bind_all_keys [of x snap' claims] by (metis list.set_map order_refl)
  ultimately show ?thesis
    using BindRoutes_settled [OF assms(1)] resolveModuleConflicts_any_order [OF _ _ assms(5)] by blast
qed

section \<open>When a parentRef binds\<close>

text \<open>The policy of a listener, as the Gateway API states it.\<close>

definition listener_admits :: "Ext \<Rightarrow> Listener \<Rightarrow> string \<Rightarrow> NamespacedName \<Rightarrow> RsyncRoute \<Rightarrow> bool" where
  "listener_admits x l gatewayNS k r \<longleftrightarrow>
     (case l_AllowedRoutes l of
        None \<Rightarrow> gatewayNS = fst k
      | Some ar \<Rightarrow>
          (ar_Kinds ar = [] \<or> RouteGroupKind \<in> set (ar_Kinds ar)) \<and>
          (let ns = (case ar_Namespaces ar of None \<Rightarrow> \<lparr>rn_From = None, rn_Selector = None\<rparr> | Some ns \<Rightarrow> ns);
               from = or_default (rn_From ns) ''Same'' in
           from = ''All'' \<or> from = ''Same'' \<and> gatewayNS = fst k \<or>
           from = ''Selector'' \<and>
             (\<exists>s matches. rn_Selector ns = Some s \<and> x_AsSelector x s = Inr matches \<and> matches (om_Labels (rr_Meta r)))))"

lemma kindsAllow_iff:
  "kindsAllow l \<longleftrightarrow> (case l_AllowedRoutes l of None \<Rightarrow> True
     | Some ar \<Rightarrow> ar_Kinds ar = [] \<or> RouteGroupKind \<in> set (ar_Kinds ar))"
proof -
  have "or_default (rgk_Group k) gatewayAPIGroup = GroupVersion_Group \<and> rgk_Kind k = RouteKind \<longleftrightarrow>
      k = RouteGroupKind" for k
    by (cases k) (auto simp: RouteGroupKind_def or_default_def gatewayAPIGroup_def GroupVersion_Group_def
      split: option.splits)
  then show ?thesis by (auto simp: kindsAllow_def list_ex_iff split: option.splits)
qed

lemma sameNamespaceAllow_iff: "sameNamespaceAllow ns k = [] \<longleftrightarrow> ns = fst k"
  by (simp add: sameNamespaceAllow_def)

lemma listenerAllows_iff: "listenerAllows x l ns k r = [] \<longleftrightarrow> listener_admits x l ns k r"
  by (cases "l_AllowedRoutes l"; cases "ar_Namespaces (the (l_AllowedRoutes l))";
      cases "rn_From (the (ar_Namespaces (the (l_AllowedRoutes l))))")
    (auto simp: listenerAllows_def listener_admits_def namespacesAllow_def sameNamespaceAllow_iff kindsAllow_iff
      Let_def split: option.split sum.split)

lemma try_listeners_Inr:
  "try_listeners allows ls rej = Inr l \<Longrightarrow> l \<in> set ls \<and> allows l = []"
  by (induction allows ls rej rule: try_listeners.induct) (auto split: if_splits)

lemma try_listeners_Inl:
  "try_listeners allows ls rej = Inl e \<Longrightarrow> \<forall>l\<in>set ls. allows l \<noteq> []"
  by (induction allows ls rej rule: try_listeners.induct) (auto split: if_splits)

lemma try_listeners_find: "try_listeners allows ls rej = Inr l \<longleftrightarrow> find (\<lambda>l. allows l = []) ls = Some l"
  by (induction allows ls rej rule: try_listeners.induct) auto

lemma candidateListeners_subset: "set (candidateListeners p ls) \<subseteq> set ls"
  by (auto simp: candidateListeners_def split: option.splits if_splits) (metis find_Some_iff nth_mem)

lemma bindParent_accepted_iff:
  "pres_Accepted (bindParent x snap claims k r p) \<longleftrightarrow>
     or_default (pref_Group p) gatewayAPIGroup = gatewayAPIGroup \<and> or_default (pref_Kind p) ''Gateway'' = ''Gateway'' \<and>
     (\<exists>gw claim l. map_of (sn_Gateways snap) (ref_namespace (pref_Namespace p) (fst k), pref_Name p) = Some gw \<and>
        map_of claims (gw_GatewayClassName gw) = Some claim \<and> cl_Claimed claim \<and> cl_Accepted claim \<and>
        l \<in> set (candidateListeners p (rsyncListeners gw)) \<and>
        listener_admits x l (ref_namespace (pref_Namespace p) (fst k)) k r)"
  (is "?acc \<longleftrightarrow> ?grp \<and> ?kind \<and> ?rest")
proof (cases "?grp \<and> ?kind")
  case False
  then show ?thesis by (auto simp: bindParent_def Let_def)
next
  case True
  let ?ns = "ref_namespace (pref_Namespace p) (fst k)"
  show ?thesis
  proof (cases "map_of (sn_Gateways snap) (?ns, pref_Name p)")
    case None
    with True show ?thesis by (simp add: bindParent_def Let_def)
  next
    case (Some gw)
    let ?cs = "candidateListeners p (rsyncListeners gw)"
    have rs: "rsyncListeners gw = [] \<Longrightarrow> ?cs = []"
      using candidateListeners_subset [of p "rsyncListeners gw"] by auto
    show ?thesis
    proof (cases "try_listeners (\<lambda>l. listenerAllows x l ?ns k r) ?cs []")
      case (Inl e)
      with True Some rs try_listeners_Inl [OF Inl] show ?thesis
        by (simp add: bindParent_def Let_def listenerAllows_iff split: option.split)
    next
      case (Inr l)
      with True Some rs try_listeners_Inr [OF Inr] show ?thesis
        by (auto simp: bindParent_def Let_def listenerAllows_iff split: option.split)
    qed
  qed
qed

text \<open>The listener a parentRef attaches to.\<close>

lemma bindParent_listener:
  "pres_Listener (bindParent x snap claims k r p) = Some l \<longleftrightarrow>
     or_default (pref_Group p) gatewayAPIGroup = gatewayAPIGroup \<and> or_default (pref_Kind p) ''Gateway'' = ''Gateway'' \<and>
     (\<exists>gw claim. map_of (sn_Gateways snap) (ref_namespace (pref_Namespace p) (fst k), pref_Name p) = Some gw \<and>
        map_of claims (gw_GatewayClassName gw) = Some claim \<and> cl_Claimed claim \<and> cl_Accepted claim \<and>
        find (\<lambda>l. listener_admits x l (ref_namespace (pref_Namespace p) (fst k)) k r) (candidateListeners p (rsyncListeners gw)) = Some l)"
  (is "?acc \<longleftrightarrow> ?grp \<and> ?kind \<and> ?rest")
proof (cases "?grp \<and> ?kind")
  case False
  then show ?thesis by (auto simp: bindParent_def Let_def)
next
  case True
  let ?ns = "ref_namespace (pref_Namespace p) (fst k)"
  show ?thesis
  proof (cases "map_of (sn_Gateways snap) (?ns, pref_Name p)")
    case None
    with True show ?thesis by (simp add: bindParent_def Let_def)
  next
    case (Some gw)
    let ?cs = "candidateListeners p (rsyncListeners gw)"
    have rs: "rsyncListeners gw = [] \<Longrightarrow> ?cs = []"
      using candidateListeners_subset [of p "rsyncListeners gw"] by auto
    have found: "try_listeners (\<lambda>l. listenerAllows x l ?ns k r) ?cs [] = Inr l \<longleftrightarrow> find (\<lambda>l. listener_admits x l ?ns k r) ?cs = Some l" for l
      by (simp add: try_listeners_find listenerAllows_iff)
    show ?thesis
    proof (cases "try_listeners (\<lambda>l. listenerAllows x l ?ns k r) ?cs []")
      case (Inl e)
      then have "find (\<lambda>l. listener_admits x l ?ns k r) ?cs \<noteq> Some l" using found by (metis sum.distinct(1))
      with True Some rs Inl show ?thesis by (simp add: bindParent_def Let_def split: option.split)
    next
      case (Inr l')
      then have "find (\<lambda>l. listener_admits x l ?ns k r) ?cs = Some l'" using found by blast
      with True Some rs Inr show ?thesis by (auto simp: bindParent_def Let_def split: option.split)
    qed
  qed
qed


text \<open>C17: Binding never dereferences a nil route. Every route of the snapshot gets one result per parentRef, in order,
  and contention changes nothing but accepted results, which it only ever refuses.\<close>

theorem BindRoutes_total_and_frame:
  assumes "snap_wf snap"
  shows "\<exists>results. BindRoutes x snap claims = Inr results \<and> map fst results = map fst (sn_RsyncRoutes snap) \<and>
    (\<forall>k r. map_of (sn_RsyncRoutes snap) k = Some r \<longrightarrow>
      (\<exists>ps. map_of results k = Some ps \<and> length ps = length (rr_ParentRefs r) \<and>
        (\<forall>i<length ps. let old = bindParent x snap claims k r (rr_ParentRefs r ! i) in
           ps ! i = old \<or> pres_Accepted old \<and>
             (\<exists>msg. ps ! i = old\<lparr>pres_Accepted := False, pres_Reason := ReasonModuleConflicted, pres_Message := msg\<rparr>))))"
proof (intro exI conjI allI impI)
  show "BindRoutes x snap claims = Inr (settled x snap (bind_all x snap claims))"
    using assms by (rule BindRoutes_settled)
  show "map fst (settled x snap (bind_all x snap claims)) = map fst (sn_RsyncRoutes snap)"
    using bind_all_keys [of x snap claims] by (simp add: settled_def case_prod_unfold comp_def)
  fix k r
  assume r: "map_of (sn_RsyncRoutes snap) k = Some r"
  let ?settle = "\<lambda>res. settle x (pres_Gateway res)
     (map_of (verdicts (contenders x snap (bind_all x snap claims) (pres_Gateway res)) []) k) res"
  show "map_of (settled x snap (bind_all x snap claims)) k =
      Some (map ?settle (map (bindParent x snap claims k r) (rr_ParentRefs r)))"
    using r by (simp add: settled_lookup bind_all_lookup)
  show "length (map ?settle (map (bindParent x snap claims k r) (rr_ParentRefs r))) = length (rr_ParentRefs r)"
    by simp
  have "?settle old = old \<or> pres_Accepted old \<and>
      (\<exists>msg. ?settle old = old\<lparr>pres_Accepted := False, pres_Reason := ReasonModuleConflicted, pres_Message := msg\<rparr>)" for old
    by (auto simp: settle_def reject_conflicted_def split: option.splits)
  then show "\<And>i. i < length (map ?settle (map (bindParent x snap claims k r) (rr_ParentRefs r))) \<Longrightarrow>
      let old = bindParent x snap claims k r (rr_ParentRefs r ! i) in
        map ?settle (map (bindParent x snap claims k r) (rr_ParentRefs r)) ! i = old \<or> pres_Accepted old \<and>
        (\<exists>msg. map ?settle (map (bindParent x snap claims k r) (rr_ParentRefs r)) ! i =
           old\<lparr>pres_Accepted := False, pres_Reason := ReasonModuleConflicted, pres_Message := msg\<rparr>)"
    by (simp add: Let_def)
qed

section \<open>Witnesses\<close>

definition sample_results :: Results where
  "sample_results = projr (BindRoutes ext0 sample_snap (ClaimClasses sample_snap))"

lemma sample_BindRoutes: "BindRoutes ext0 sample_snap (ClaimClasses sample_snap) = Inr sample_results"
  by code_simp


theorem bound_routes_serve_disjoint_modules_witness:
  "set (EffectiveModules (sample_route ''debian'' 10 [''debian'', ''pool''])) \<inter>
   set (EffectiveModules (sample_route ''arch'' 30 [])) = {}"
  by (rule bound_routes_serve_disjoint_modules [OF sample_snap_wf sample_BindRoutes,
        of "(''mirror'', ''debian'')" "the (map_of sample_results (''mirror'', ''debian''))" "(''infra'', ''gw'')" _
           "(''mirror'', ''arch'')" "the (map_of sample_results (''mirror'', ''arch''))"])
    code_simp+

theorem conflict_names_an_older_bound_route_witness:
  "\<exists>r w rw m. map_of (sn_RsyncRoutes sample_snap) (''mirror'', ''ubuntu'') = Some r \<and>
     map_of (sn_RsyncRoutes sample_snap) w = Some rw \<and> w \<noteq> (''mirror'', ''ubuntu'') \<and>
     m \<in> set (EffectiveModules r) \<and> m \<in> set (EffectiveModules rw)"
proof -
  let ?ps = "the (map_of sample_results (''mirror'', ''ubuntu''))"
  have "map_of sample_results (''mirror'', ''ubuntu'') = Some ?ps" by code_simp
  moreover have "hd ?ps \<in> set ?ps" by code_simp
  moreover have "pres_Reason (hd ?ps) = ReasonModuleConflicted" by code_simp
  ultimately show ?thesis
    using conflict_names_an_older_bound_route [OF sample_snap_wf sample_BindRoutes] by blast
qed

theorem binding_is_deterministic_witness:
  "\<exists>results results'. BindRoutes ext0 sample_snap (ClaimClasses sample_snap) = Inr results \<and>
     resolveModuleConflicts ext0 (sample_snap\<lparr>sn_RsyncRoutes := rev (sn_RsyncRoutes sample_snap)\<rparr>)
       (bind_all ext0 (sample_snap\<lparr>sn_RsyncRoutes := rev (sn_RsyncRoutes sample_snap)\<rparr>) (ClaimClasses sample_snap)) =
       Inr results' \<and> map_of results' = map_of results"
  unfolding resolveModuleConflicts_def
proof (rule binding_is_deterministic [OF sample_snap_wf _ _ refl refl])
  show "inj_on (x_String ext0) (fst ` set (sn_RsyncRoutes sample_snap))"
    by (simp add: sample_snap_def NewSnapshot_def sample_route_def sample_meta_def meta_key_def ext0_def)
qed simp

theorem BindRoutes_total_and_frame_witness:
  "\<exists>results. BindRoutes ext0 sample_snap (ClaimClasses sample_snap) = Inr results \<and>
     map fst results = map fst (sn_RsyncRoutes sample_snap)"
  using BindRoutes_total_and_frame [OF sample_snap_wf] by blast

end
