(* ===== verification/Backends.thy ===== *)
theory Backends
  imports Binding
begin

text \<open>
  Backend resolution (\<open>internal/gateway/backends.go\<close>). The closure \<open>fail\<close> keeps the first failure in
  \<open>status\<close>, which is explicit state here. \<open>ref_failure\<close> is the specification of one backendRef: why it
  does not resolve, if it does not; \<open>ResolveBackends_spec\<close> says that the loop computes the aggregate of it.
\<close>

record BackendStatus =
  bs_Resolved :: bool
  bs_Reason :: string
  bs_Message :: string

record ResolvedBackend =
  rb_Service :: NamespacedName
  rb_Port :: int

definition grant_from_ok :: "string \<Rightarrow> ReferenceGrantFrom \<Rightarrow> bool" where
  "grant_from_ok fromNamespace from \<longleftrightarrow>
     \<not> (rgf_Group from \<noteq> GroupVersion_Group \<or> rgf_Kind from \<noteq> RouteKind \<or> rgf_Namespace from \<noteq> fromNamespace)"

definition grant_to_ok :: "string \<Rightarrow> ReferenceGrantTo \<Rightarrow> bool" where
  "grant_to_ok serviceName to \<longleftrightarrow>
     \<not> (rgt_Group to \<noteq> CoreGroup \<or> rgt_Kind to \<noteq> ''Service'') \<and>
     (case rgt_Name to of None \<Rightarrow> True | Some n \<Rightarrow> n = [] \<or> n = serviceName)"

definition referenceGrantPermits :: "Snapshot \<Rightarrow> string \<Rightarrow> string \<Rightarrow> string \<Rightarrow> bool" where
  "referenceGrantPermits snap fromNamespace backendNamespace serviceName =
     list_ex (\<lambda>grant. list_ex (\<lambda>from. grant_from_ok fromNamespace from \<and> list_ex (grant_to_ok serviceName) (rg_To grant))
         (rg_From grant))
       (or_default (map_of (sn_ReferenceGrants snap) backendNamespace) [])"

definition backend_fail :: "string \<Rightarrow> string \<Rightarrow> BackendStatus \<Rightarrow> BackendStatus" where
  "backend_fail reason msg status =
     (if bs_Resolved status then \<lparr>bs_Resolved = False, bs_Reason = reason, bs_Message = msg\<rparr> else status)"

text \<open>The body of the loop over the backendRefs.\<close>

definition resolve_ref :: "Ext \<Rightarrow> Snapshot \<Rightarrow> NamespacedName \<Rightarrow> BackendRef \<Rightarrow>
    ResolvedBackend list \<times> BackendStatus \<Rightarrow> ResolvedBackend list \<times> BackendStatus" where
  "resolve_ref x snap routeKey ref st =
     (let (usable, status) = st;
          excluded = (br_Weight ref = Some 0);
          group = or_default (br_Group ref) '''';
          kind = or_default (br_Kind ref) ''Service'' in
      if group \<noteq> CoreGroup \<or> kind \<noteq> ''Service'' then
        (usable, backend_fail ''InvalidKind''
          (''unsupported backend group/kind '' @ group @ ''/'' @ kind @ ''; only core Services are supported'') status)
      else case br_Port ref of
        None \<Rightarrow>
          (usable, backend_fail ''BackendNotFound''
            (''backendRef '' @ Quote (br_Name ref) @ '' has no port; port is required by rsync-gateway'') status)
      | Some port \<Rightarrow>
          (let ns = ref_namespace (br_Namespace ref) (fst routeKey);
               svcKey = (ns, br_Name ref) in
           if map_of (sn_Services snap) svcKey = None then
             (usable, backend_fail ''BackendNotFound'' (''Service '' @ x_String x svcKey @ '' not found'') status)
           else if ns \<noteq> fst routeKey \<and> \<not> referenceGrantPermits snap (fst routeKey) ns (br_Name ref) then
             (usable, backend_fail ''RefNotPermitted''
               (''cross-namespace reference from '' @ x_String x routeKey @ '' to Service '' @ x_String x svcKey @
                '' is not permitted by a ReferenceGrant'') status)
           else if \<not> excluded then (usable @ [\<lparr>rb_Service = svcKey, rb_Port = port\<rparr>], status)
           else (usable, status)))"

definition ResolveBackends :: "Ext \<Rightarrow> Snapshot \<Rightarrow> NamespacedName \<Rightarrow> RsyncRoute \<Rightarrow> ResolvedBackend list \<times> BackendStatus" where
  "ResolveBackends x snap routeKey route =
     fold (resolve_ref x snap routeKey) (rr_BackendRefs route)
       ([], \<lparr>bs_Resolved = True, bs_Reason = ''ResolvedRefs'', bs_Message = ''''\<rparr>)"

section \<open>What it means for a backendRef to resolve\<close>

definition svc_key :: "NamespacedName \<Rightarrow> BackendRef \<Rightarrow> NamespacedName" where
  "svc_key routeKey ref = (ref_namespace (br_Namespace ref) (fst routeKey), br_Name ref)"

definition ref_permitted :: "Snapshot \<Rightarrow> NamespacedName \<Rightarrow> BackendRef \<Rightarrow> bool" where
  "ref_permitted snap routeKey ref \<longleftrightarrow>
     fst (svc_key routeKey ref) = fst routeKey \<or>
     (\<exists>gs g from to. map_of (sn_ReferenceGrants snap) (fst (svc_key routeKey ref)) = Some gs \<and> g \<in> set gs \<and>
        from \<in> set (rg_From g) \<and> to \<in> set (rg_To g) \<and>
        from = \<lparr>rgf_Group = GroupVersion_Group, rgf_Kind = RouteKind, rgf_Namespace = fst routeKey\<rparr> \<and>
        rgt_Group to = CoreGroup \<and> rgt_Kind to = ''Service'' \<and> rgt_Name to \<in> {None, Some [], Some (br_Name ref)})"

text \<open>The reason for which a backendRef fails, in the documented order of evaluation.\<close>

definition ref_failure :: "Snapshot \<Rightarrow> NamespacedName \<Rightarrow> BackendRef \<Rightarrow> string option" where
  "ref_failure snap routeKey ref =
     (if \<not> (br_Group ref \<in> {None, Some CoreGroup} \<and> br_Kind ref \<in> {None, Some ''Service''}) then Some ''InvalidKind''
      else if br_Port ref = None then Some ''BackendNotFound''
      else if map_of (sn_Services snap) (svc_key routeKey ref) = None then Some ''BackendNotFound''
      else if \<not> ref_permitted snap routeKey ref then Some ''RefNotPermitted''
      else None)"

lemma referenceGrantPermits_iff:
  "referenceGrantPermits snap (fst k) (fst (svc_key k ref)) (br_Name ref) \<or> fst (svc_key k ref) = fst k \<longleftrightarrow>
   ref_permitted snap k ref"
proof -
  have gfrom: "grant_from_ok n f \<longleftrightarrow> f = \<lparr>rgf_Group = GroupVersion_Group, rgf_Kind = RouteKind, rgf_Namespace = n\<rparr>" for n f
    by (cases f) (auto simp: grant_from_ok_def)
  have gto: "grant_to_ok n t \<longleftrightarrow> rgt_Group t = CoreGroup \<and> rgt_Kind t = ''Service'' \<and> rgt_Name t \<in> {None, Some [], Some n}" for n t
    by (auto simp: grant_to_ok_def split: option.splits)
  show ?thesis
    by (cases "map_of (sn_ReferenceGrants snap) (fst (svc_key k ref))")
      (auto simp: referenceGrantPermits_def ref_permitted_def list_ex_iff gfrom gto)
qed

lemma or_default_eq: "or_default v d = d \<longleftrightarrow> v \<in> {None, Some d}"
  by (cases v) auto

definition backend_of :: "NamespacedName \<Rightarrow> BackendRef \<Rightarrow> ResolvedBackend" where
  "backend_of k ref = \<lparr>rb_Service = svc_key k ref, rb_Port = the (br_Port ref)\<rparr>"

lemma resolve_ref_conds:
  "or_default (br_Group ref) [] = CoreGroup \<longleftrightarrow> br_Group ref \<in> {None, Some CoreGroup}"
  "or_default (br_Kind ref) ''Service'' = ''Service'' \<longleftrightarrow> br_Kind ref \<in> {None, Some ''Service''}"
  "ref_namespace (br_Namespace ref) (fst k) \<noteq> fst k \<and>
     \<not> referenceGrantPermits snap (fst k) (ref_namespace (br_Namespace ref) (fst k)) (br_Name ref) \<longleftrightarrow>
   \<not> ref_permitted snap k ref"
  using or_default_eq [of "br_Group ref" CoreGroup] or_default_eq [of "br_Kind ref" "''Service''"]
    referenceGrantPermits_iff [of snap k ref]
  by (simp_all add: CoreGroup_def svc_key_def) blast

lemma resolve_ref_usable:
  "fst (resolve_ref x snap k ref (usable, status)) =
     usable @ (if ref_failure snap k ref = None \<and> br_Weight ref \<noteq> Some 0 then [backend_of k ref] else [])"
  unfolding resolve_ref_def ref_failure_def Let_def prod.case resolve_ref_conds
  by (cases "br_Port ref") (simp_all add: svc_key_def backend_of_def resolve_ref_conds)

lemma resolve_ref_status:
  "snd (resolve_ref x snap k ref (usable, status)) =
     (if bs_Resolved status \<and> ref_failure snap k ref \<noteq> None
      then \<lparr>bs_Resolved = False, bs_Reason = the (ref_failure snap k ref),
            bs_Message = bs_Message (snd (resolve_ref x snap k ref (usable, status)))\<rparr>
      else status)"
  unfolding resolve_ref_def ref_failure_def Let_def prod.case resolve_ref_conds
  by (cases "br_Port ref") (auto simp: svc_key_def backend_fail_def)

lemma fold_resolve_ref:
  "\<exists>status'. fold (resolve_ref x snap k) refs (usable, status) =
     (usable @ map (backend_of k) (filter (\<lambda>r. ref_failure snap k r = None \<and> br_Weight r \<noteq> Some 0) refs), status') \<and>
     (if bs_Resolved status then
        (case List.find (\<lambda>r. ref_failure snap k r \<noteq> None) refs of
           None \<Rightarrow> status' = status
         | Some r \<Rightarrow> \<not> bs_Resolved status' \<and> Some (bs_Reason status') = ref_failure snap k r)
      else status' = status)"
proof (induction refs arbitrary: usable status)
  case (Cons r refs)
  obtain u s where us: "resolve_ref x snap k r (usable, status) = (u, s)" by (cases "resolve_ref x snap k r (usable, status)")
  have u: "u = usable @ (if ref_failure snap k r = None \<and> br_Weight r \<noteq> Some 0 then [backend_of k r] else [])"
    using resolve_ref_usable [of x snap k r usable status] us by simp
  obtain msg where s: "s = (if bs_Resolved status \<and> ref_failure snap k r \<noteq> None
      then \<lparr>bs_Resolved = False, bs_Reason = the (ref_failure snap k r), bs_Message = msg\<rparr> else status)"
    using resolve_ref_status [of x snap k r usable status] us by (metis snd_conv)
  show ?case
  proof (cases "bs_Resolved status \<and> ref_failure snap k r \<noteq> None")
    case True
    then have "\<not> bs_Resolved s" "Some (bs_Reason s) = ref_failure snap k r" using s by auto
    with True u us Cons.IH [of u s] show ?thesis by simp
  next
    case False
    then have "s = status" using s by auto
    with False u us Cons.IH [of u status] show ?thesis by auto
  qed
qed simp

text \<open>C30: The usable backends of a route are, in order, its backendRefs that name a core Service with a port, that exist,
  that a ReferenceGrant permits when they cross namespaces, and whose weight is not 0.\<close>

theorem ResolveBackends_usable:
  "fst (ResolveBackends x snap k route) =
     map (backend_of k) (filter (\<lambda>r. ref_failure snap k r = None \<and> br_Weight r \<noteq> Some 0) (rr_BackendRefs route))"
  using fold_resolve_ref [of x snap k "rr_BackendRefs route" "[]"
      "\<lparr>bs_Resolved = True, bs_Reason = ''ResolvedRefs'', bs_Message = ''''\<rparr>"]
  by (auto simp: ResolveBackends_def)

text \<open>C32: ResolvedRefs holds exactly when every backendRef resolves, and otherwise carries the reason of the first that does not.\<close>

theorem ResolveBackends_status:
  "case List.find (\<lambda>r. ref_failure snap k r \<noteq> None) (rr_BackendRefs route) of
     None \<Rightarrow> snd (ResolveBackends x snap k route) = \<lparr>bs_Resolved = True, bs_Reason = ''ResolvedRefs'', bs_Message = ''''\<rparr>
   | Some r \<Rightarrow> \<not> bs_Resolved (snd (ResolveBackends x snap k route)) \<and>
       Some (bs_Reason (snd (ResolveBackends x snap k route))) = ref_failure snap k r"
  using fold_resolve_ref [of x snap k "rr_BackendRefs route" "[]"
      "\<lparr>bs_Resolved = True, bs_Reason = ''ResolvedRefs'', bs_Message = ''''\<rparr>"]
  by (auto simp: ResolveBackends_def split: option.splits)

text \<open>C31: A backend in another namespace is handed to the data plane only if a ReferenceGrant in that namespace names
  RsyncRoutes of the route's namespace as its source and the Service, or every Service, as its target.\<close>

theorem cross_namespace_needs_grant:
  assumes "snap_wf snap" "b \<in> set (fst (ResolveBackends x snap k route))" "fst (rb_Service b) \<noteq> fst k"
  shows "\<exists>gs g to. map_of (sn_ReferenceGrants snap) (fst (rb_Service b)) = Some gs \<and> g \<in> set gs \<and>
    rg_Namespace g = fst (rb_Service b) \<and>
    \<lparr>rgf_Group = GroupVersion_Group, rgf_Kind = RouteKind, rgf_Namespace = fst k\<rparr> \<in> set (rg_From g) \<and>
    to \<in> set (rg_To g) \<and> rgt_Group to = CoreGroup \<and> rgt_Kind to = ''Service'' \<and>
    rgt_Name to \<in> {None, Some [], Some (snd (rb_Service b))}"
proof -
  obtain r where r: "b = backend_of k r" "ref_failure snap k r = None"
    using assms(2) fold_resolve_ref [of x snap k "rr_BackendRefs route" "[]"
      "\<lparr>bs_Resolved = True, bs_Reason = ''ResolvedRefs'', bs_Message = ''''\<rparr>"]
    by (auto simp: ResolveBackends_def)
  then have "ref_permitted snap k r" by (simp add: ref_failure_def split: if_splits)
  moreover have "snd (svc_key k r) = br_Name r" by (simp add: svc_key_def)
  moreover have "rg_Namespace g = n" if "map_of (sn_ReferenceGrants snap) n = Some gs" "g \<in> set gs" for n gs g
    using assms(1) map_of_SomeD [OF that(1)] that(2) by (auto simp: snap_wf_def)
  moreover have "rb_Service b = svc_key k r" using r(1) by (simp add: backend_of_def)
  ultimately show ?thesis using assms(3) unfolding ref_permitted_def
    by (elim disjE exE conjE, simp, intro exI conjI; assumption?) simp_all
qed

definition grant_snap :: Snapshot where
  "grant_snap = sample_snap\<lparr>sn_Services := [((''data'', ''store''), \<lparr>svc_Name = ''store'', svc_Namespace = ''data''\<rparr>)],
     sn_ReferenceGrants := [(''data'', [\<lparr>rg_Namespace = ''data'',
       rg_From = [\<lparr>rgf_Group = GroupVersion_Group, rgf_Kind = RouteKind, rgf_Namespace = ''mirror''\<rparr>],
       rg_To = [\<lparr>rgt_Group = CoreGroup, rgt_Kind = ''Service'', rgt_Name = None\<rparr>]\<rparr>])]\<rparr>"

definition grant_route :: RsyncRoute where
  "grant_route = (sample_route ''debian'' 10 [])\<lparr>rr_BackendRefs := [\<lparr>br_Group = None, br_Kind = None, br_Name = ''store'',
     br_Namespace = Some ''data'', br_Port = Some 873, br_Weight = None\<rparr>]\<rparr>"

theorem cross_namespace_needs_grant_witness:
  "\<exists>gs g. map_of (sn_ReferenceGrants grant_snap) ''data'' = Some gs \<and> g \<in> set gs \<and>
     \<lparr>rgf_Group = GroupVersion_Group, rgf_Kind = RouteKind, rgf_Namespace = ''mirror''\<rparr> \<in> set (rg_From g)"
proof -
  let ?b = "\<lparr>rb_Service = (''data'', ''store''), rb_Port = 873\<rparr>"
  have "snap_wf grant_snap" using sample_snap_wf by (simp add: snap_wf_def grant_snap_def)
  moreover have "?b \<in> set (fst (ResolveBackends ext0 grant_snap (''mirror'', ''debian'') grant_route))" by code_simp
  ultimately show ?thesis using cross_namespace_needs_grant [of grant_snap ?b ext0 "(''mirror'', ''debian'')" grant_route] by fastforce
qed

end
