(* ===== verification/Statuses.thy ===== *)
theory Statuses
  imports Backends
begin

text \<open>
  Status assembly (\<open>internal/gateway/conditions.go\<close> and \<open>status.go\<close>): the conditions and status entries
  written back to the API server, and the comparisons that decide whether a write is needed.
  \<open>metav1.Now\<close> is the argument \<open>now\<close>, the instant of the build. The interface \<open>status_builder\<close> is
  what the reconciler relies on: a status rebuilt from an object that carries the status just built
  compares equal to it, so a reconcile that changes nothing writes nothing.
\<close>

section \<open>Conditions\<close>

fun StableCondition :: "int \<Rightarrow> Condition list \<Rightarrow> Condition \<Rightarrow> Condition" where
  "StableCondition now [] cond = cond\<lparr>cd_LastTransitionTime := now\<rparr>"
| "StableCondition now (c # existing) cond =
     (if cd_Type c = cd_Type cond \<and> cd_Status c = cd_Status cond
      then cond\<lparr>cd_LastTransitionTime := cd_LastTransitionTime c\<rparr>
      else StableCondition now existing cond)"

fun append_missing :: "Condition list \<Rightarrow> Condition list \<Rightarrow> Condition list" where
  "append_missing [] out = out"
| "append_missing (w # want) out =
     append_missing want (if list_ex (\<lambda>c. cd_Type c = cd_Type w) out then out else out @ [w])"

definition replace_condition :: "Condition list \<Rightarrow> Condition \<Rightarrow> Condition" where
  "replace_condition want c = (case find (\<lambda>w. cd_Type w = cd_Type c) want of Some w \<Rightarrow> w | None \<Rightarrow> c)"

definition MergeConditions :: "Condition list \<Rightarrow> Condition list \<Rightarrow> Condition list" where
  "MergeConditions cur want = append_missing want (map (replace_condition want) cur)"

definition conditionContentEqual :: "Condition \<Rightarrow> Condition \<Rightarrow> bool" where
  "conditionContentEqual a b \<longleftrightarrow>
     cd_Type a = cd_Type b \<and> cd_Status a = cd_Status b \<and> cd_Reason a = cd_Reason b \<and>
     cd_Message a = cd_Message b \<and> cd_ObservedGeneration a = cd_ObservedGeneration b"

definition ConditionsEqual :: "Condition list \<Rightarrow> Condition list \<Rightarrow> bool" where
  "ConditionsEqual cur want \<longleftrightarrow> length cur = length want \<and> list_all2 conditionContentEqual cur want"

definition routeGroupKindsEqual :: "RouteGroupKindT list \<Rightarrow> RouteGroupKindT list \<Rightarrow> bool" where
  "routeGroupKindsEqual cur want \<longleftrightarrow>
     length cur = length want \<and>
     list_all2 (\<lambda>c w. or_default (rgk_Group c) '''' = or_default (rgk_Group w) '''' \<and> rgk_Kind c = rgk_Kind w) cur want"

definition ListenerStatusesEqual :: "ListenerStatus list \<Rightarrow> ListenerStatus list \<Rightarrow> bool" where
  "ListenerStatusesEqual cur want \<longleftrightarrow>
     length cur = length want \<and>
     list_all2 (\<lambda>c w. ls_Name c = ls_Name w \<and> ls_AttachedRoutes c = ls_AttachedRoutes w \<and>
       routeGroupKindsEqual (ls_SupportedKinds c) (ls_SupportedKinds w) \<and>
       ConditionsEqual (ls_Conditions c) (ls_Conditions w)) cur want"

definition fmtParentRef :: "string \<Rightarrow> string \<Rightarrow> ParentReference \<Rightarrow> string" where
  "fmtParentRef grp kind ref =
     (case pref_Namespace ref of
        Some ns \<Rightarrow> if ns \<noteq> [] then kind @ ''.'' @ grp @ ''/'' @ ns @ ''/'' @ pref_Name ref
                  else kind @ ''.'' @ grp @ ''/'' @ pref_Name ref
      | None \<Rightarrow> kind @ ''.'' @ grp @ ''/'' @ pref_Name ref)"

definition ParentRefString :: "ParentReference \<Rightarrow> string" where
  "ParentRefString ref =
     fmtParentRef (or_default (pref_Group ref) ''gateway.networking.k8s.io'') (or_default (pref_Kind ref) ''Gateway'') ref"

definition parentRefsEqual :: "ParentReference \<Rightarrow> ParentReference \<Rightarrow> bool" where
  "parentRefsEqual a b \<longleftrightarrow> ParentRefString a = ParentRefString b"

definition ParentStatusesEqual :: "RouteParentStatus list \<Rightarrow> RouteParentStatus list \<Rightarrow> bool" where
  "ParentStatusesEqual cur want \<longleftrightarrow>
     length cur = length want \<and>
     list_all2 (\<lambda>c w. rps_ControllerName c = rps_ControllerName w \<and> parentRefsEqual (rps_ParentRef c) (rps_ParentRef w) \<and>
       ConditionsEqual (rps_Conditions c) (rps_Conditions w)) cur want"

text \<open>The last Accepted condition of the first entry of ours that matches the parentRef.\<close>

definition parent_accepted :: "RouteParentStatus list \<Rightarrow> ParentReference \<Rightarrow> Condition option" where
  "parent_accepted existing ref =
     (case find (\<lambda>p. rps_ControllerName p = ControllerName \<and> parentRefsEqual (rps_ParentRef p) ref) existing of
        None \<Rightarrow> None
      | Some p \<Rightarrow> find (\<lambda>c. cd_Type c = ''Accepted'') (rev (rps_Conditions p)))"

definition FindParentConditions :: "RouteParentStatus list \<Rightarrow> ParentResult list \<Rightarrow> (nat, Condition) gomap" where
  "FindParentConditions existing results =
     concat (map (\<lambda>(i, res). case parent_accepted existing (pres_ParentRef res) of None \<Rightarrow> [] | Some c \<Rightarrow> [(i, c)])
       (enumerate 0 results))"

section \<open>Gateway classes and Gateways\<close>

definition conditionStatus :: "bool \<Rightarrow> string" where
  "conditionStatus b = (if b then ''True'' else ''False'')"

definition new_condition :: "string \<Rightarrow> string \<Rightarrow> string \<Rightarrow> string \<Rightarrow> int \<Rightarrow> Condition" where
  "new_condition ty status reason msg gen =
     \<lparr>cd_Type = ty, cd_Status = status, cd_Reason = reason, cd_Message = msg, cd_ObservedGeneration = gen,
      cd_LastTransitionTime = 0\<rparr>"

definition ClassCondition :: "GatewayClass option \<Rightarrow> ClassClaim \<Rightarrow> Condition option" where
  "ClassCondition gc claim =
     (case gc of
        None \<Rightarrow> None
      | Some gc \<Rightarrow>
          if \<not> cl_Claimed claim then None
          else Some (new_condition ''Accepted'' (conditionStatus (cl_Accepted claim)) (cl_Reason claim) (cl_Message claim)
                 (om_Generation (gcl_Meta gc))))"

definition ReasonTLSNotSupported :: string where
  "ReasonTLSNotSupported = ''TLSNotSupported''"

definition ReasonRestartRequired :: string where
  "ReasonRestartRequired = ''RestartRequired''"

definition allowedRoutesParseError :: "Listener \<Rightarrow> string" where
  "allowedRoutesParseError l =
     (case l_AllowedRoutes l of
        None \<Rightarrow> ''''
      | Some ar \<Rightarrow>
     (case ar_Namespaces ar of
        None \<Rightarrow> ''''
      | Some ns \<Rightarrow>
     (case rn_From ns of
        None \<Rightarrow> ''''
      | Some from \<Rightarrow>
          if from = ''All'' \<or> from = ''Same'' then ''''
          else if from = ''Selector'' then
            (if rn_Selector ns = None then ''allowedRoutes.namespaces.from=Selector requires a selector'' else '''')
          else ''allowedRoutes.namespaces.from='' @ Quote from @ '' is not supported'')))"

definition listenerAcceptedCondition :: "Gateway \<Rightarrow> Listener \<Rightarrow> Condition" where
  "listenerAcceptedCondition gw l =
     (if l_TLS l \<noteq> None then
        new_condition ''Accepted'' ''False'' ReasonTLSNotSupported
          ''rsync-gateway v0 does not terminate TLS on rsync listeners'' (om_Generation (gw_Meta gw))
      else if allowedRoutesParseError l \<noteq> '''' then
        new_condition ''Accepted'' ''False'' ''UnsupportedValue'' (allowedRoutesParseError l) (om_Generation (gw_Meta gw))
      else new_condition ''Accepted'' ''True'' ''Accepted'' ''listener is accepted'' (om_Generation (gw_Meta gw)))"

definition listenerProgrammedCondition :: "Gateway \<Rightarrow> Listener \<Rightarrow> int list \<Rightarrow> Condition" where
  "listenerProgrammedCondition gw l servedPorts =
     (if list_ex (\<lambda>p. p = l_Port l) servedPorts then
        new_condition ''Programmed'' ''True'' ''Programmed'' ''listener port is served by the data plane''
          (om_Generation (gw_Meta gw))
      else
        new_condition ''Programmed'' ''False'' ReasonRestartRequired
          ''listener port is not in the static bind set; restart the gateway to pick it up (v0 limitation)''
          (om_Generation (gw_Meta gw)))"

definition existing_conds :: "Gateway \<Rightarrow> string \<Rightarrow> Condition list" where
  "existing_conds gw name =
     (case find (\<lambda>ls. ls_Name ls = name) (gw_StatusListeners gw) of None \<Rightarrow> [] | Some ls \<Rightarrow> ls_Conditions ls)"

definition listener_status :: "int \<Rightarrow> Gateway \<Rightarrow> int list \<Rightarrow> Listener \<Rightarrow> ListenerStatus" where
  "listener_status now gw servedPorts l =
     \<lparr>ls_Name = l_Name l, ls_SupportedKinds = [RouteGroupKind], ls_AttachedRoutes = 0,
      ls_Conditions = map (StableCondition now (existing_conds gw (l_Name l)))
        [listenerAcceptedCondition gw l, listenerProgrammedCondition gw l servedPorts]\<rparr>"

definition listenerStatuses :: "int \<Rightarrow> Gateway \<Rightarrow> int list \<Rightarrow> ListenerStatus list" where
  "listenerStatuses now gw servedPorts =
     map (listener_status now gw servedPorts) (filter (\<lambda>l. l_Protocol l = ProtocolRsync) (gw_Listeners gw))"

definition isManagedListener :: "Gateway \<Rightarrow> string \<Rightarrow> bool" where
  "isManagedListener gw name =
     (case find (\<lambda>l. l_Name l = name) (gw_Listeners gw) of Some l \<Rightarrow> l_Protocol l = ProtocolRsync | None \<Rightarrow> False)"

definition gateway_conditions :: "Gateway \<Rightarrow> Condition list" where
  "gateway_conditions gw =
     [new_condition ''Accepted'' ''True'' ''Accepted''
        (''GatewayClass '' @ Quote (gw_GatewayClassName gw) @ '' is claimed and accepted'') (om_Generation (gw_Meta gw)),
      new_condition ''Programmed'' ''True'' ''Programmed''
        (''routes bound to '' @ om_Namespace (gw_Meta gw) @ ''/'' @ om_Name (gw_Meta gw) @
         '' are programmed into the data plane'') (om_Generation (gw_Meta gw))]"

text \<open>The two fields of \<open>GatewayStatus\<close>: the conditions and the listener entries.\<close>

definition BuildGatewayStatus :: "int \<Rightarrow> Gateway \<Rightarrow> int list \<Rightarrow> Condition list \<times> ListenerStatus list" where
  "BuildGatewayStatus now gw servedPorts =
     (let listeners = filter (\<lambda>ls. \<not> isManagedListener gw (ls_Name ls)) (gw_StatusListeners gw) @
            listenerStatuses now gw servedPorts;
          conditions = map (StableCondition now (gw_Conditions gw)) (gateway_conditions gw) in
      (MergeConditions (gw_Conditions gw) conditions, listeners))"

section \<open>Routes\<close>

definition findExistingConditions :: "RsyncRoute \<Rightarrow> ParentReference \<Rightarrow> Condition list" where
  "findExistingConditions route parentRef =
     (case find (\<lambda>p. \<not> rps_ControllerName p \<noteq> ControllerName \<and> parentRefsEqual (rps_ParentRef p) parentRef) (rr_Parents route) of
        Some p \<Rightarrow> rps_Conditions p | None \<Rightarrow> [])"

definition parent_status :: "int \<Rightarrow> RsyncRoute \<Rightarrow> BackendStatus \<Rightarrow> ParentResult \<Rightarrow> RouteParentStatus" where
  "parent_status now route backends res =
     (let existingConds = findExistingConditions route (pres_ParentRef res);
          gen = om_Generation (rr_Meta route);
          accepted = StableCondition now existingConds
            (new_condition ''Accepted'' (conditionStatus (pres_Accepted res)) (pres_Reason res) (pres_Message res) gen);
          resolved = StableCondition now existingConds
            (new_condition ''ResolvedRefs'' (conditionStatus (bs_Resolved backends)) (bs_Reason backends)
              (bs_Message backends) gen) in
      \<lparr>rps_ParentRef = pres_ParentRef res, rps_ControllerName = ControllerName,
       rps_Conditions = accepted # (if pres_Accepted res then [resolved] else [])\<rparr>)"

definition BuildRouteStatus :: "int \<Rightarrow> RsyncRoute \<Rightarrow> ParentResult list \<Rightarrow> BackendStatus \<Rightarrow> RouteParentStatus list" where
  "BuildRouteStatus now route results backends =
     filter (\<lambda>p. rps_ControllerName p \<noteq> ControllerName) (rr_Parents route) @ map (parent_status now route backends) results"

section \<open>Served ports\<close>

fun served_ports :: "string list \<Rightarrow> int list \<Rightarrow> int list" where
  "served_ports [] ports = ports"
| "served_ports (addr # addrs) ports =
     (case SplitHostPort addr of
        Inl err \<Rightarrow> served_ports addrs ports
      | Inr (host, portStr) \<Rightarrow>
          (case ParseUint16 portStr of
             None \<Rightarrow> served_ports addrs ports
           | Some port \<Rightarrow>
               if int port \<in> set ports then served_ports addrs ports
               else served_ports addrs (ports @ [int port])))"

definition ServedPorts :: "string list \<Rightarrow> int list" where
  "ServedPorts addrs = served_ports addrs []"

section \<open>Merging conditions\<close>

lemma StableCondition_find:
  "StableCondition now existing c = c\<lparr>cd_LastTransitionTime :=
     or_default (map_option cd_LastTransitionTime
       (find (\<lambda>e. cd_Type e = cd_Type c \<and> cd_Status e = cd_Status c) existing)) now\<rparr>"
  by (induction now existing c rule: StableCondition.induct) auto

lemma StableCondition_simps [simp]:
  "cd_Type (StableCondition now existing c) = cd_Type c"
  "cd_Status (StableCondition now existing c) = cd_Status c"
  by (simp_all add: StableCondition_find)

lemma StableCondition_content: "conditionContentEqual (StableCondition now ex c) (StableCondition now' ex' c)"
  by (simp add: conditionContentEqual_def StableCondition_find)

lemma conditionContentEqual_refl [simp]: "conditionContentEqual c c"
  by (simp add: conditionContentEqual_def)

lemma ConditionsEqual_refl [simp]: "ConditionsEqual cs cs"
  by (simp add: ConditionsEqual_def list_all2_refl)

lemma conditionContentEqual_trans:
  "conditionContentEqual a b \<Longrightarrow> conditionContentEqual b c \<Longrightarrow> conditionContentEqual a c"
  by (simp add: conditionContentEqual_def)

lemma ConditionsEqual_trans: "ConditionsEqual a b \<Longrightarrow> ConditionsEqual b c \<Longrightarrow> ConditionsEqual a c"
  by (auto simp: ConditionsEqual_def intro: list_all2_trans [OF conditionContentEqual_trans])

lemma append_missing_split: "\<exists>ws. append_missing want out = out @ ws \<and> set ws \<subseteq> set want"
proof (induction want out rule: append_missing.induct)
  case (2 w want out)
  then show ?case by (cases "list_ex (\<lambda>c. cd_Type c = cd_Type w) out") (auto simp: list_ex_iff)
qed simp

lemma has_type_iff: "list_ex (\<lambda>c. cd_Type c = t) out \<longleftrightarrow> t \<in> cd_Type ` set out"
  by (auto simp: list_ex_iff)

lemma append_missing_types:
  "cd_Type ` set (append_missing want out) = cd_Type ` set out \<union> cd_Type ` set want"
proof (induction want out rule: append_missing.induct)
  case (2 w want out)
  then show ?case by (cases "cd_Type w \<in> cd_Type ` set out") (simp_all add: has_type_iff insert_absorb)
qed simp

lemma append_missing_id:
  "cd_Type ` set want \<subseteq> cd_Type ` set out \<Longrightarrow> append_missing want out = out"
  by (induction want out rule: append_missing.induct) (simp_all add: has_type_iff)

lemma find_type_distinct:
  "distinct (map cd_Type want) \<Longrightarrow> w \<in> set want \<Longrightarrow> find (\<lambda>v. cd_Type v = cd_Type w) want = Some w"
  by (induction want) (auto simp: image_iff)

lemma replace_condition_in:
  "distinct (map cd_Type want) \<Longrightarrow> w \<in> set want \<Longrightarrow> cd_Type c = cd_Type w \<Longrightarrow> replace_condition want c = w"
  by (simp add: replace_condition_def find_type_distinct)

lemma replace_condition_out: "cd_Type c \<notin> cd_Type ` set want \<Longrightarrow> replace_condition want c = c"
proof -
  assume "cd_Type c \<notin> cd_Type ` set want"
  then have "find (\<lambda>w. cd_Type w = cd_Type c) want = None"
    unfolding find_None_iff by (fastforce simp: image_iff)
  then show ?thesis by (simp add: replace_condition_def)
qed

lemma MergeConditions_types:
  "cd_Type ` set (MergeConditions cur want) \<supseteq> cd_Type ` set want"
  by (auto simp: MergeConditions_def append_missing_types)

lemma MergeConditions_managed:
  assumes "distinct (map cd_Type want)" "c \<in> set (MergeConditions cur want)" "w \<in> set want" "cd_Type c = cd_Type w"
  shows "c = w"
proof -
  obtain ws where ws: "MergeConditions cur want = map (replace_condition want) cur @ ws" "set ws \<subseteq> set want"
    using append_missing_split [of want "map (replace_condition want) cur"] by (auto simp: MergeConditions_def)
  consider "c \<in> set want" | c0 where "c0 \<in> set cur" "c = replace_condition want c0"
    using ws assms(2) by auto
  then show ?thesis
  proof cases
    case 1
    then show ?thesis using assms(1,3,4) by (metis find_type_distinct option.inject)
  next
    case (2 c0)
    show ?thesis
    proof (cases "cd_Type c0 \<in> cd_Type ` set want")
      case True
      then obtain v where v: "v \<in> set want" "cd_Type c0 = cd_Type v" by blast
      then have "c = v" using 2 replace_condition_in [OF assms(1)] by simp
      then show ?thesis using v assms(1,3,4) by (metis find_type_distinct option.inject)
    next
      case False
      then show ?thesis using 2 replace_condition_out assms(3,4) by (metis image_eqI)
    qed
  qed
qed

lemma MergeConditions_idem:
  assumes "distinct (map cd_Type want)"
  shows "MergeConditions (MergeConditions cur want) want = MergeConditions cur want"
proof -
  have "replace_condition want c = c" if "c \<in> set (MergeConditions cur want)" for c
  proof (cases "cd_Type c \<in> cd_Type ` set want")
    case True
    then obtain w where "w \<in> set want" "cd_Type c = cd_Type w" by blast
    then show ?thesis using MergeConditions_managed [OF assms that] replace_condition_in [OF assms] by simp
  qed (simp add: replace_condition_out)
  then have "map (replace_condition want) (MergeConditions cur want) = MergeConditions cur want"
    by (simp add: map_idI)
  then show ?thesis
    using MergeConditions_types [of want cur] unfolding MergeConditions_def [of "MergeConditions cur want"]
    by (simp add: append_missing_id)
qed

lemma StableCondition_merged:
  assumes "distinct (map cd_Type want)" "StableCondition now cur c \<in> set want"
  shows "StableCondition now' (MergeConditions cur want) c = StableCondition now cur c"
proof -
  let ?w = "StableCondition now cur c" and ?p = "\<lambda>e. cd_Type e = cd_Type c \<and> cd_Status e = cd_Status c"
  have "cd_Type ?w \<in> cd_Type ` set (MergeConditions cur want)"
    using MergeConditions_types [of want cur] assms(2) by blast
  then obtain e where e: "e \<in> set (MergeConditions cur want)" "cd_Type e = cd_Type c" by auto
  then have "e = ?w" using MergeConditions_managed [OF assms(1) e(1) assms(2)] by simp
  then have "?w \<in> set (MergeConditions cur want) \<and> ?p ?w" using e(1) by simp
  then have "find ?p (MergeConditions cur want) \<noteq> None" unfolding find_None_iff by blast
  then obtain e' where e': "find ?p (MergeConditions cur want) = Some e'" by auto
  then have "e' \<in> set (MergeConditions cur want)" "cd_Type e' = cd_Type c"
    by (auto simp: find_Some_iff)
  then have "e' = ?w" using MergeConditions_managed [OF assms(1) _ assms(2), of e' cur] by simp
  then show ?thesis using e' by (simp add: StableCondition_find [of now' "MergeConditions cur want"] StableCondition_find [of now cur])
qed

lemma stable_merge_fixpoint:
  fixes cur :: "Condition list"
  defines "want \<equiv> \<lambda>now cs cur. map (StableCondition now cur) cs"
  assumes "distinct (map cd_Type cs)"
  shows "MergeConditions (MergeConditions cur (want now cs cur)) (want now' cs (MergeConditions cur (want now cs cur))) =
    MergeConditions cur (want now cs cur)"
proof -
  have d: "distinct (map cd_Type (want now cs cur))" using assms(2) by (simp add: want_def comp_def)
  have "want now' cs (MergeConditions cur (want now cs cur)) = want now cs cur"
    unfolding want_def using StableCondition_merged [OF d [unfolded want_def]] by simp
  then show ?thesis using MergeConditions_idem [OF d] by simp
qed

text \<open>Merging replaces the conditions of the wanted types in place and keeps every other condition, in order.\<close>

theorem MergeConditions_keeps_foreign:
  "filter (\<lambda>c. cd_Type c \<notin> cd_Type ` set want) (MergeConditions cur want) =
   filter (\<lambda>c. cd_Type c \<notin> cd_Type ` set want) cur"
proof -
  obtain ws where ws: "MergeConditions cur want = map (replace_condition want) cur @ ws" "set ws \<subseteq> set want"
    using append_missing_split [of want "map (replace_condition want) cur"] by (auto simp: MergeConditions_def)
  have own: "cd_Type (replace_condition want c) = cd_Type c" for c
    by (auto simp: replace_condition_def find_Some_iff split: option.splits)
  have "filter (\<lambda>c. cd_Type c \<notin> cd_Type ` set want) ws = []" using ws(2) by (auto simp: filter_empty_conv)
  moreover have "filter (\<lambda>c. cd_Type c \<notin> cd_Type ` set want) (map (replace_condition want) cur) =
      filter (\<lambda>c. cd_Type c \<notin> cd_Type ` set want) cur"
    by (induction cur) (auto simp: own replace_condition_out)
  ultimately show ?thesis by (simp add: ws(1))
qed

section \<open>Rebuilding a status\<close>

text \<open>
  The pattern of \<open>writeStatuses\<close>: build the desired status, skip the object when the current status
  compares equal, else store it. The flag says whether the object was written.
\<close>

definition write_status :: "('o \<Rightarrow> 's) \<Rightarrow> ('o \<Rightarrow> 's) \<Rightarrow> ('s \<Rightarrow> 'o \<Rightarrow> 'o) \<Rightarrow> ('s \<Rightarrow> 's \<Rightarrow> bool) \<Rightarrow> 'o \<Rightarrow> 'o \<times> bool" where
  "write_status build get put same ob =
     (let desired = build ob in if same (get ob) desired then (ob, False) else (put desired ob, True))"

locale status_builder =
  fixes build :: "int \<Rightarrow> 'o \<Rightarrow> 's" and get :: "'o \<Rightarrow> 's" and put :: "'s \<Rightarrow> 'o \<Rightarrow> 'o"
    and same :: "'s \<Rightarrow> 's \<Rightarrow> bool" and ok :: "'o \<Rightarrow> bool"
  assumes get_put: "get (put s ob) = s"
    and build_clock: "same s (build now ob) \<Longrightarrow> same s (build now' ob)"
    and rebuild_same: "ok ob \<Longrightarrow> same (build now ob) (build now' (put (build now ob) ob))"
begin

lemma write_once:
  assumes "ok ob"
  shows "\<not> snd (write_status (build now') get put same (fst (write_status (build now) get put same ob)))"
  using assms by (auto simp: write_status_def Let_def get_put build_clock intro: rebuild_same build_clock)

end

definition put_gateway_status :: "Condition list \<times> ListenerStatus list \<Rightarrow> Gateway \<Rightarrow> Gateway" where
  "put_gateway_status st gw = gw\<lparr>gw_Conditions := fst st, gw_StatusListeners := snd st\<rparr>"

definition get_gateway_status :: "Gateway \<Rightarrow> Condition list \<times> ListenerStatus list" where
  "get_gateway_status gw = (gw_Conditions gw, gw_StatusListeners gw)"

definition gateway_status_same :: "Condition list \<times> ListenerStatus list \<Rightarrow> Condition list \<times> ListenerStatus list \<Rightarrow> bool" where
  "gateway_status_same a b \<longleftrightarrow> ConditionsEqual (fst a) (fst b) \<and> ListenerStatusesEqual (snd a) (snd b)"

definition unique_listeners :: "Gateway \<Rightarrow> bool" where
  "unique_listeners gw \<longleftrightarrow> distinct (map l_Name (gw_Listeners gw))"

lemma find_name_distinct:
  "distinct (map l_Name ls) \<Longrightarrow> l \<in> set ls \<Longrightarrow> find (\<lambda>v. l_Name v = l_Name l) ls = Some l"
  by (induction ls) (auto simp: image_iff)

lemma isManagedListener_iff:
  assumes "unique_listeners gw"
  shows "isManagedListener gw n \<longleftrightarrow> (\<exists>l\<in>set (gw_Listeners gw). l_Name l = n \<and> l_Protocol l = ProtocolRsync)"
proof (cases "find (\<lambda>l. l_Name l = n) (gw_Listeners gw)")
  case None
  then have "\<not> (\<exists>l\<in>set (gw_Listeners gw). l_Name l = n)" by (auto simp: find_None_iff)
  with None show ?thesis by (auto simp: isManagedListener_def)
next
  case (Some l)
  then have "l \<in> set (gw_Listeners gw)" "l_Name l = n" by (auto simp: find_Some_iff)
  then show ?thesis using Some assms
    by (auto simp: isManagedListener_def unique_listeners_def) (metis find_name_distinct option.inject)
qed

lemma existing_conds_rebuilt:
  assumes "unique_listeners gw" "l \<in> set (rsyncListeners gw)"
  shows "existing_conds (put_gateway_status (BuildGatewayStatus now gw ports) gw) (l_Name l) =
    ls_Conditions (listener_status now gw ports l)"
proof -
  have l: "l \<in> set (gw_Listeners gw)" "l_Protocol l = ProtocolRsync" using assms(2) by (auto simp: rsyncListeners_def)
  have foreign: "find (\<lambda>ls. ls_Name ls = l_Name l)
      (filter (\<lambda>ls. \<not> isManagedListener gw (ls_Name ls)) (gw_StatusListeners gw)) = None"
    using l by (auto simp: find_None_iff isManagedListener_iff [OF assms(1)])
  have app: "find P xs = None \<Longrightarrow> find P (xs @ ys) = find P ys" for P xs ys
    by (induction xs) (auto split: if_splits)
  have "find (\<lambda>ls. ls_Name ls = l_Name l) (map (listener_status now gw ports) ls) = Some (listener_status now gw ports l)"
    if "l \<in> set ls" "distinct (map l_Name ls)" for ls
    using that by (induction ls) (auto simp: listener_status_def)
  moreover have "distinct (map l_Name (rsyncListeners gw))"
    using assms(1) by (simp add: rsyncListeners_def unique_listeners_def distinct_map_filter)
  ultimately have "find (\<lambda>ls. ls_Name ls = l_Name l) (listenerStatuses now gw ports) = Some (listener_status now gw ports l)"
    using assms(2) by (simp add: listenerStatuses_def rsyncListeners_def)
  then show ?thesis
    using foreign by (simp add: existing_conds_def put_gateway_status_def BuildGatewayStatus_def Let_def app)
qed

lemma Stable_again: "StableCondition now' (map (StableCondition now ex) cs) c = StableCondition now ex c"
  if "c \<in> set cs" "distinct (map cd_Type cs)"
proof -
  have "find (\<lambda>e. cd_Type e = cd_Type c \<and> cd_Status e = cd_Status c) (map (StableCondition now ex) cs) =
      Some (StableCondition now ex c)"
    using that by (induction cs) (auto simp: image_iff)
  then show ?thesis by (simp add: StableCondition_find [of now'] StableCondition_find [of now ex c])
qed

lemma put_gateway_status_simps [simp]:
  "gw_Listeners (put_gateway_status st gw) = gw_Listeners gw" "gw_Meta (put_gateway_status st gw) = gw_Meta gw"
  "gw_GatewayClassName (put_gateway_status st gw) = gw_GatewayClassName gw"
  "gw_Conditions (put_gateway_status st gw) = fst st" "gw_StatusListeners (put_gateway_status st gw) = snd st"
  by (simp_all add: put_gateway_status_def)

lemma listener_status_rebuilt:
  assumes "unique_listeners gw" "l \<in> set (rsyncListeners gw)"
  shows "listener_status now' (put_gateway_status (BuildGatewayStatus now gw ports) gw) ports l =
    listener_status now gw ports l"
proof -
  let ?cs = "[listenerAcceptedCondition gw l, listenerProgrammedCondition gw l ports]"
  have "distinct (map cd_Type ?cs)"
    by (simp add: listenerAcceptedCondition_def listenerProgrammedCondition_def new_condition_def)
  then have "map (StableCondition now' (map (StableCondition now (existing_conds gw (l_Name l))) ?cs)) ?cs =
      map (StableCondition now (existing_conds gw (l_Name l))) ?cs"
    by (intro map_cong refl Stable_again)
  moreover have "listenerAcceptedCondition (put_gateway_status st gw) l = listenerAcceptedCondition gw l"
    "listenerProgrammedCondition (put_gateway_status st gw) l ports = listenerProgrammedCondition gw l ports" for st
    by (simp_all add: listenerAcceptedCondition_def listenerProgrammedCondition_def)
  ultimately show ?thesis
    using existing_conds_rebuilt [OF assms, of now ports] by (simp add: listener_status_def)
qed

lemma isManagedListener_put [simp]: "isManagedListener (put_gateway_status st gw) = isManagedListener gw"
  by (simp add: isManagedListener_def fun_eq_iff)

lemma gateway_status_fixpoint:
  assumes "unique_listeners gw"
  shows "BuildGatewayStatus now' (put_gateway_status (BuildGatewayStatus now gw ports) gw) ports =
    BuildGatewayStatus now gw ports"
proof -
  let ?st = "BuildGatewayStatus now gw ports"
  have "gateway_conditions (put_gateway_status ?st gw) = gateway_conditions gw"
    by (simp add: gateway_conditions_def)
  moreover have "distinct (map cd_Type (gateway_conditions gw))"
    by (simp add: gateway_conditions_def new_condition_def)
  moreover have ls: "listenerStatuses now' (put_gateway_status ?st gw) ports = listenerStatuses now gw ports"
    using listener_status_rebuilt [OF assms] by (simp add: listenerStatuses_def rsyncListeners_def)
  moreover have "filter (\<lambda>ls. \<not> isManagedListener gw (ls_Name ls)) (listenerStatuses now gw ports) = []"
    by (auto simp: filter_empty_conv listenerStatuses_def listener_status_def isManagedListener_iff [OF assms])
  ultimately show ?thesis
    using stable_merge_fixpoint [of "gateway_conditions gw" "gw_Conditions gw" now now']
    by (simp add: BuildGatewayStatus_def Let_def)
qed

lemma routeGroupKindsEqual_refl [simp]: "routeGroupKindsEqual ks ks"
  by (simp add: routeGroupKindsEqual_def list_all2_refl)

lemma ListenerStatusesEqual_refl [simp]: "ListenerStatusesEqual ls ls"
  by (simp add: ListenerStatusesEqual_def list_all2_refl)

lemma content_type: "list_all2 conditionContentEqual a b \<Longrightarrow> map cd_Type a = map cd_Type b"
  by (induction rule: list_all2_induct) (auto simp: conditionContentEqual_def)

lemma append_missing_content:
  "list_all2 conditionContentEqual want want' \<Longrightarrow> list_all2 conditionContentEqual out out' \<Longrightarrow>
   list_all2 conditionContentEqual (append_missing want out) (append_missing want' out')"
proof (induction arbitrary: out out' rule: list_all2_induct)
  case (Cons w want w' want')
  have "cd_Type ` set out = cd_Type ` set out'" using content_type [OF Cons.prems] by (metis list.set_map)
  moreover have "cd_Type w = cd_Type w'" using Cons.hyps(1) by (simp add: conditionContentEqual_def)
  ultimately show ?case
    using Cons by (auto simp: has_type_iff intro!: Cons.IH list_all2_appendI)
qed simp

lemma replace_condition_content:
  "list_all2 conditionContentEqual want want' \<Longrightarrow>
   conditionContentEqual (replace_condition want c) (replace_condition want' c)"
  by (induction rule: list_all2_induct) (auto simp: replace_condition_def conditionContentEqual_def)

lemma MergeConditions_content:
  assumes "list_all2 conditionContentEqual want want'"
  shows "ConditionsEqual (MergeConditions cur want) (MergeConditions cur want')"
proof -
  have "list_all2 conditionContentEqual (map (replace_condition want) cur) (map (replace_condition want') cur)"
    using replace_condition_content [OF assms] by (simp add: list_all2_conv_all_nth)
  from append_missing_content [OF assms this] show ?thesis
    by (simp add: MergeConditions_def ConditionsEqual_def list_all2_lengthD)
qed

lemma Stable_map_content:
  "list_all2 conditionContentEqual (map (StableCondition now ex) cs) (map (StableCondition now' ex') cs)"
  by (simp add: list_all2_conv_all_nth StableCondition_content)

lemma ListenerStatusesEqual_trans:
  assumes "ListenerStatusesEqual a b" "ListenerStatusesEqual b c"
  shows "ListenerStatusesEqual a c"
proof -
  have "routeGroupKindsEqual x z" if "routeGroupKindsEqual x y" "routeGroupKindsEqual y z" for x y z
    using that unfolding routeGroupKindsEqual_def by (auto simp: list_all2_conv_all_nth)
  then show ?thesis
    using assms unfolding ListenerStatusesEqual_def
    by (elim conjE) (rule conjI, simp, rule list_all2_trans, auto intro: ConditionsEqual_trans)
qed

lemma BuildGatewayStatus_clock:
  "gateway_status_same (BuildGatewayStatus now gw ports) (BuildGatewayStatus now' gw ports)"
proof -
  have "ListenerStatusesEqual (xs @ listenerStatuses now gw ports) (xs @ listenerStatuses now' gw ports)" for xs
    unfolding ListenerStatusesEqual_def listenerStatuses_def
    by (auto intro!: list_all2_appendI list_all2_refl
        simp: list_all2_conv_all_nth [of _ "map _ _"] listener_status_def ConditionsEqual_def StableCondition_content)
  then show ?thesis
    by (simp add: gateway_status_same_def BuildGatewayStatus_def Let_def MergeConditions_content [OF Stable_map_content])
qed

interpretation gws: status_builder "\<lambda>now gw. BuildGatewayStatus now gw ports" get_gateway_status put_gateway_status
  gateway_status_same unique_listeners for ports
proof unfold_locales
  fix s :: "Condition list \<times> ListenerStatus list" and ob :: Gateway and now now' :: int
  show "get_gateway_status (put_gateway_status s ob) = s" by (simp add: get_gateway_status_def)
  show "gateway_status_same s (BuildGatewayStatus now' ob ports)" if "gateway_status_same s (BuildGatewayStatus now ob ports)"
    using that BuildGatewayStatus_clock [of now ob ports now'] unfolding gateway_status_same_def
    by (blast intro: ConditionsEqual_trans ListenerStatusesEqual_trans)
  show "gateway_status_same (BuildGatewayStatus now ob ports)
      (BuildGatewayStatus now' (put_gateway_status (BuildGatewayStatus now ob ports) ob) ports)" if "unique_listeners ob"
    using gateway_status_fixpoint [OF that] by (simp add: gateway_status_same_def)
qed

lemma ParentStatusesEqual_trans: "ParentStatusesEqual a b \<Longrightarrow> ParentStatusesEqual b c \<Longrightarrow> ParentStatusesEqual a c"
  unfolding ParentStatusesEqual_def parentRefsEqual_def
  by (elim conjE) (rule conjI, simp, rule list_all2_trans, auto intro: ConditionsEqual_trans)

lemma parent_status_content:
  "rr_Meta r' = rr_Meta r \<Longrightarrow>
   ConditionsEqual (rps_Conditions (parent_status now r b res)) (rps_Conditions (parent_status now' r' b res))"
  by (simp add: parent_status_def Let_def ConditionsEqual_def StableCondition_content)

lemma BuildRouteStatus_content:
  "rr_Meta r' = rr_Meta r \<Longrightarrow>
   filter (\<lambda>p. rps_ControllerName p \<noteq> ControllerName) (rr_Parents r') =
     filter (\<lambda>p. rps_ControllerName p \<noteq> ControllerName) (rr_Parents r) \<Longrightarrow>
   ParentStatusesEqual (BuildRouteStatus now r results b) (BuildRouteStatus now' r' results b)"
  unfolding ParentStatusesEqual_def BuildRouteStatus_def
  by (auto intro!: list_all2_appendI list_all2_refl parent_status_content
      simp: list_all2_conv_all_nth [of _ "map _ _"] parentRefsEqual_def)
    (simp_all add: parent_status_def Let_def)

lemma BuildRouteStatus_foreign:
  "filter (\<lambda>p. rps_ControllerName p \<noteq> ControllerName) (BuildRouteStatus now r results b) =
   filter (\<lambda>p. rps_ControllerName p \<noteq> ControllerName) (rr_Parents r)"
  by (auto simp: BuildRouteStatus_def filter_empty_conv parent_status_def Let_def)

interpretation rts: status_builder "\<lambda>now r. BuildRouteStatus now r results backends" rr_Parents
  "\<lambda>ps. rr_Parents_update (\<lambda>_. ps)" ParentStatusesEqual "\<lambda>_. True" for results backends
proof unfold_locales
  fix s :: "RouteParentStatus list" and ob :: RsyncRoute and now now' :: int
  show "rr_Parents (ob\<lparr>rr_Parents := s\<rparr>) = s" by simp
  show "ParentStatusesEqual s (BuildRouteStatus now' ob results backends)"
    if "ParentStatusesEqual s (BuildRouteStatus now ob results backends)"
    using that BuildRouteStatus_content [of ob ob now results backends now'] by (blast intro: ParentStatusesEqual_trans)
  show "ParentStatusesEqual (BuildRouteStatus now ob results backends)
      (BuildRouteStatus now' (ob\<lparr>rr_Parents := BuildRouteStatus now ob results backends\<rparr>) results backends)"
    by (rule BuildRouteStatus_content) (simp_all add: BuildRouteStatus_foreign)
qed

text \<open>When listener names are unique, as the Gateway API demands, rebuilding the status of a Gateway that carries
  the status just built gives it back unchanged, transition times included, so the Gateway is written once.\<close>

theorem gateway_status_written_once:
  assumes "unique_listeners gw"
  shows "BuildGatewayStatus now' (put_gateway_status (BuildGatewayStatus now gw ports) gw) ports = BuildGatewayStatus now gw ports \<and>
    \<not> snd (write_status (\<lambda>gw. BuildGatewayStatus now' gw ports) get_gateway_status put_gateway_status gateway_status_same
      (fst (write_status (\<lambda>gw. BuildGatewayStatus now gw ports) get_gateway_status put_gateway_status gateway_status_same gw)))"
  using gateway_status_fixpoint [OF assms] gws.write_once [OF assms] by blast

theorem gateway_status_written_once_witness:
  "BuildGatewayStatus 9 (put_gateway_status (BuildGatewayStatus 5 sample_gateway [873]) sample_gateway) [873] =
     BuildGatewayStatus 5 sample_gateway [873] \<and> BuildGatewayStatus 5 sample_gateway [873] \<noteq> get_gateway_status sample_gateway"
proof
  have "unique_listeners sample_gateway" by code_simp
  then show "BuildGatewayStatus 9 (put_gateway_status (BuildGatewayStatus 5 sample_gateway [873]) sample_gateway) [873] =
      BuildGatewayStatus 5 sample_gateway [873]" using gateway_status_written_once by blast
  show "BuildGatewayStatus 5 sample_gateway [873] \<noteq> get_gateway_status sample_gateway" by code_simp
qed

text \<open>A route whose status was just written is not written again while its binding and backends stay the same,
  whatever the clock says and whatever parentRefs it has.\<close>

theorem route_status_written_once:
  "\<not> snd (write_status (\<lambda>r. BuildRouteStatus now' r results backends) rr_Parents (\<lambda>ps. rr_Parents_update (\<lambda>_. ps))
      ParentStatusesEqual
      (fst (write_status (\<lambda>r. BuildRouteStatus now r results backends) rr_Parents (\<lambda>ps. rr_Parents_update (\<lambda>_. ps))
        ParentStatusesEqual route)))"
  by (rule rts.write_once) simp

text \<open>The status of a route keeps the entries of other controllers, in order, and has one entry of this controller per
  binding result, in order; each carries Accepted, and ResolvedRefs exactly when the parent accepted the route.\<close>

theorem BuildRouteStatus_entries:
  "filter (\<lambda>p. rps_ControllerName p \<noteq> ControllerName) (BuildRouteStatus now route results backends) =
     filter (\<lambda>p. rps_ControllerName p \<noteq> ControllerName) (rr_Parents route) \<and>
   map (\<lambda>p. (rps_ParentRef p, map (\<lambda>c. (cd_Type c, cd_Status c, cd_Reason c)) (rps_Conditions p)))
     (filter (\<lambda>p. rps_ControllerName p = ControllerName) (BuildRouteStatus now route results backends)) =
   map (\<lambda>res. (pres_ParentRef res, (''Accepted'', conditionStatus (pres_Accepted res), pres_Reason res) #
       (if pres_Accepted res then [(''ResolvedRefs'', conditionStatus (bs_Resolved backends), bs_Reason backends)] else [])))
     results"
proof
  show "filter (\<lambda>p. rps_ControllerName p \<noteq> ControllerName) (BuildRouteStatus now route results backends) =
     filter (\<lambda>p. rps_ControllerName p \<noteq> ControllerName) (rr_Parents route)" by (rule BuildRouteStatus_foreign)
  have "filter (\<lambda>p. rps_ControllerName p = ControllerName) (BuildRouteStatus now route results backends) =
      map (parent_status now route backends) results"
    by (auto simp: BuildRouteStatus_def filter_empty_conv parent_status_def Let_def)
  then show "map (\<lambda>p. (rps_ParentRef p, map (\<lambda>c. (cd_Type c, cd_Status c, cd_Reason c)) (rps_Conditions p)))
     (filter (\<lambda>p. rps_ControllerName p = ControllerName) (BuildRouteStatus now route results backends)) =
   map (\<lambda>res. (pres_ParentRef res, (''Accepted'', conditionStatus (pres_Accepted res), pres_Reason res) #
       (if pres_Accepted res then [(''ResolvedRefs'', conditionStatus (bs_Resolved backends), bs_Reason backends)] else [])))
     results"
    by (simp add: parent_status_def Let_def StableCondition_find new_condition_def)
qed

text \<open>A listener whose allowedRoutes are reported as unsupported admits no route at all.\<close>

theorem unsupported_listener_admits_nothing:
  assumes "allowedRoutesParseError l \<noteq> ''''"
  shows "listenerAllows x l ns k r \<noteq> ''''"
  using assms unfolding listenerAllows_iff
  by (auto simp: allowedRoutesParseError_def listener_admits_def Let_def or_default_def split: option.splits if_splits)

theorem unsupported_listener_admits_nothing_witness:
  "listenerAllows ext0 (sample_listener\<lparr>l_AllowedRoutes := Some \<lparr>ar_Namespaces = Some \<lparr>rn_From = Some ''None'', rn_Selector = None\<rparr>,
     ar_Kinds = []\<rparr>\<rparr>) ''infra'' (''mirror'', ''debian'') (sample_route ''debian'' 10 []) \<noteq> ''''"
  by (rule unsupported_listener_admits_nothing) code_simp

text \<open>References that differ only in the section they name are not told apart when the previous status is looked up.\<close>

theorem parentRefsEqual_ignores_section: "parentRefsEqual ref (ref\<lparr>pref_SectionName := s\<rparr>)"
  by (simp add: parentRefsEqual_def ParentRefString_def fmtParentRef_def split: option.split)

lemma served_ports_spec:
  "set (served_ports addrs ports) = set ports \<union>
     {p. \<exists>addr\<in>set addrs. \<exists>h s n. SplitHostPort addr = Inr (h, s) \<and> ParseUint16 s = Some n \<and> p = int n} \<and>
   (distinct ports \<longrightarrow> distinct (served_ports addrs ports))"
proof (induction addrs ports rule: served_ports.induct)
  case (2 addr addrs ports)
  show ?case
  proof (cases "SplitHostPort addr")
    case (Inl e)
    with 2 show ?thesis by auto
  next
    case (Inr hp)
    obtain h s where hp: "hp = (h, s)" by (cases hp)
    with 2 Inr show ?thesis by (cases "ParseUint16 s") auto
  qed
qed simp

text \<open>The served ports are exactly the 16-bit ports of the bind addresses that parse, each once.\<close>

theorem ServedPorts_spec:
  "distinct (ServedPorts addrs) \<and>
   set (ServedPorts addrs) =
     {p. 0 \<le> p \<and> p < 65536 \<and> (\<exists>addr\<in>set addrs. \<exists>h s. SplitHostPort addr = Inr (h, s) \<and> ParseUint16 s = Some (nat p))}"
proof -
  have "ParseUint16 s = Some n \<Longrightarrow> n < 65536" for s n by (auto simp: ParseUint16_def split: if_splits)
  then show ?thesis using served_ports_spec [of addrs "[]"] by (force simp: ServedPorts_def)
qed

theorem ServedPorts_spec_witness:
  "distinct (ServedPorts [''[::]:873'', '':8873'', ''0.0.0.0:873'', ''nonsense'']) \<and>
   ServedPorts [''[::]:873'', '':8873'', ''0.0.0.0:873'', ''nonsense''] = [873, 8873]"
proof
  show "distinct (ServedPorts [''[::]:873'', '':8873'', ''0.0.0.0:873'', ''nonsense''])" using ServedPorts_spec by blast
  show "ServedPorts [''[::]:873'', '':8873'', ''0.0.0.0:873'', ''nonsense''] = [873, 8873]" by code_simp
qed

end
