(* ===== verification/AdmissionQueue.thy ===== *)
theory AdmissionQueue
  imports Prelude
begin

text \<open>
  The per-upstream admission queue, \<open>pkg/queue/queue.go\<close>.
  A \<open>Queue\<close> is the Go struct together with the part of the heap only it uses: the buffered
  channels \<open>make(chan Status, 1)\<close>, named by a \<open>chan_id\<close>, and the \<open>internalHandle\<close> objects.
  Every method body runs with \<open>q.mu\<close> held, so one method call is one step; the only thing a
  client does without the lock is to receive from \<open>Handle.C\<close> (\<open>recv\<close>).
  A send on a closed channel, a close of a closed channel and a send that can never proceed
  are values of \<open>chan_error\<close>, so the absence of panics and deadlocks is a theorem about the
  model and not built into it. Lengths and limits are Go \<open>int\<close>s that stay far below 63 bits
  and are modelled as \<open>int\<close>.
  The theory proves the invariant of the queue, that no operation panics or blocks, that the
  operations implement a first-come first-served admission controller without channels
  (\<open>aq_abs\<close>), and what a waiting client is told about its position.
\<close>

section \<open>State\<close>

record Status =
  st_Index :: int
  st_Max :: int
  st_Ok :: bool
  st_Full :: bool

definition zero_status :: Status where
  "zero_status = \<lparr>st_Index = 0, st_Max = 0, st_Ok = False, st_Full = False\<rparr>"

type_synonym chan_id = nat
type_synonym handle_id = nat

text \<open>A channel of capacity one: the buffered value and whether it is closed.\<close>

record chan =
  ch_buf :: "Status option"
  ch_closed :: bool

type_synonym queueItem = chan_id

record internalHandle =
  ih_ch :: chan_id
  ih_released :: bool

record Queue =
  q_max :: int
  q_active :: "queueItem list"
  q_queued :: "queueItem list"
  q_maxQueued :: int
  q_chans :: "chan_id \<rightharpoonup> chan"
  q_handles :: "handle_id \<rightharpoonup> internalHandle"
  q_next :: nat

datatype chan_error = SendOnClosed | CloseOfClosed | BlocksForever | IndexOutOfRange

definition New :: "int \<Rightarrow> int \<Rightarrow> Queue" where
  "New mx maxQueued = \<lparr>q_max = mx, q_active = [], q_queued = [], q_maxQueued = maxQueued,
     q_chans = Map.empty, q_handles = Map.empty, q_next = 0\<rparr>"

definition GetMax :: "Queue \<Rightarrow> int" where
  "GetMax q = q_max q"

definition GetMaxQueued :: "Queue \<Rightarrow> int" where
  "GetMaxQueued q = q_maxQueued q"

definition ActiveLen :: "Queue \<Rightarrow> int" where
  "ActiveLen q = int (length (q_active q))"

definition QueuedLen :: "Queue \<Rightarrow> int" where
  "QueuedLen q = int (length (q_queued q))"

section \<open>Channels\<close>

definition chan_send :: "chan_id \<Rightarrow> Status \<Rightarrow> Queue \<Rightarrow> chan_error + Queue" where
  "chan_send ch v q =
     (case q_chans q ch of
        None \<Rightarrow> Inl BlocksForever
      | Some c \<Rightarrow>
          if ch_closed c then Inl SendOnClosed
          else if ch_buf c \<noteq> None then Inl BlocksForever
          else Inr (q\<lparr>q_chans := (q_chans q)(ch \<mapsto> c\<lparr>ch_buf := Some v\<rparr>)\<rparr>))"

definition chan_close :: "chan_id \<Rightarrow> Queue \<Rightarrow> chan_error + Queue" where
  "chan_close ch q =
     (case q_chans q ch of
        None \<Rightarrow> Inl CloseOfClosed
      | Some c \<Rightarrow>
          if ch_closed c then Inl CloseOfClosed
          else Inr (q\<lparr>q_chans := (q_chans q)(ch \<mapsto> c\<lparr>ch_closed := True\<rparr>)\<rparr>))"

text \<open>The receive of a \<open>select\<close> with a \<open>default\<close> branch: it takes the buffered value, if any.\<close>

definition chan_drain :: "chan_id \<Rightarrow> Queue \<Rightarrow> Queue" where
  "chan_drain ch q =
     (case q_chans q ch of
        None \<Rightarrow> q
      | Some c \<Rightarrow> q\<lparr>q_chans := (q_chans q)(ch \<mapsto> c\<lparr>ch_buf := None\<rparr>)\<rparr>)"

definition trySend :: "chan_id \<Rightarrow> Status \<Rightarrow> Queue \<Rightarrow> chan_error + Queue" where
  "trySend ch obj q = chan_send ch obj (chan_drain ch q)"

text \<open>
  The client's \<open><-handle.C\<close>: the buffered value; the zero value once the channel is closed and
  empty; \<open>None\<close> while it has to wait.
\<close>

definition recv :: "chan_id \<Rightarrow> Queue \<Rightarrow> (Status \<times> Queue) option" where
  "recv ch q =
     (case q_chans q ch of
        None \<Rightarrow> None
      | Some c \<Rightarrow>
          (case ch_buf c of
             Some v \<Rightarrow> Some (v, q\<lparr>q_chans := (q_chans q)(ch \<mapsto> c\<lparr>ch_buf := None\<rparr>)\<rparr>)
           | None \<Rightarrow> if ch_closed c then Some (zero_status, q) else None))"

section \<open>Operations\<close>

definition surplus :: "Queue \<Rightarrow> int" where
  "surplus q = int (length (q_active q)) - q_max q"

definition has_room :: "Queue \<Rightarrow> bool" where
  "has_room q \<longleftrightarrow> int (length (q_active q)) < q_max q \<or> q_max q = 0"

definition popHead :: "Queue \<Rightarrow> chan_error + Queue" where
  "popHead q =
     (case q_queued q of
        [] \<Rightarrow> Inl IndexOutOfRange
      | head # rest \<Rightarrow>
          bindE (trySend head (zero_status\<lparr>st_Ok := True\<rparr>) q) (\<lambda>q1.
          bindE (chan_close head q1) (\<lambda>q2.
          Inr (q2\<lparr>q_active := q_active q2 @ [head], q_queued := rest\<rparr>))))"

lemma popHead_shrinks:
  "popHead q = Inr q' \<Longrightarrow> q_queued q \<noteq> [] \<Longrightarrow> length (q_queued q') < length (q_queued q)"
  by (auto simp: popHead_def bindE_Inr_iff split: list.splits)

text \<open>The loop \<open>for len(q.queued) > 0 && (len(q.active) < q.max || q.max == 0)\<close>.\<close>

function promote :: "Queue \<Rightarrow> chan_error + Queue" where
  "promote q = (if q_queued q \<noteq> [] \<and> has_room q then bindE (popHead q) promote else Inr q)"
  by pat_completeness auto
termination
  by (relation "measure (\<lambda>q. length (q_queued q))") (auto dest: popHead_shrinks)

declare promote.simps [simp del]

fun broadcast_from :: "int \<Rightarrow> int \<Rightarrow> queueItem list \<Rightarrow> Queue \<Rightarrow> chan_error + Queue" where
  "broadcast_from idx tot [] q = Inr q"
| "broadcast_from idx tot (ch # chs) q =
     bindE (trySend ch (zero_status\<lparr>st_Index := idx, st_Max := tot\<rparr>) q)
       (broadcast_from (idx + 1) tot chs)"

definition broadcastStatus :: "Queue \<Rightarrow> chan_error + Queue" where
  "broadcastStatus q =
     broadcast_from (surplus q) (surplus q + int (length (q_queued q))) (q_queued q) q"

definition SetMax :: "int \<Rightarrow> int \<Rightarrow> Queue \<Rightarrow> chan_error + Queue" where
  "SetMax mx maxQueued q =
     bindE (promote (q\<lparr>q_max := mx, q_maxQueued := maxQueued\<rparr>)) broadcastStatus"

definition makeHandle :: "chan_id \<Rightarrow> Queue \<Rightarrow> handle_id \<times> Queue" where
  "makeHandle ch q =
     (ch, q\<lparr>q_handles := (q_handles q)(ch \<mapsto> \<lparr>ih_ch = ch, ih_released = False\<rparr>)\<rparr>)"

definition make_chan :: "Queue \<Rightarrow> chan_id \<times> Queue" where
  "make_chan q =
     (q_next q, q\<lparr>q_chans := (q_chans q)(q_next q \<mapsto> \<lparr>ch_buf = None, ch_closed = False\<rparr>),
                q_next := Suc (q_next q)\<rparr>)"

definition Acquire :: "Queue \<Rightarrow> chan_error + (handle_id \<times> Queue)" where
  "Acquire q0 =
     (let (ch, q) = make_chan q0 in
      bindE
        (if has_room q then
           bindE (chan_send ch (zero_status\<lparr>st_Ok := True\<rparr>) (q\<lparr>q_active := q_active q @ [ch]\<rparr>))
             (chan_close ch)
         else if q_maxQueued q > 0 \<and> int (length (q_queued q)) \<ge> q_maxQueued q then
           bindE (chan_send ch (zero_status\<lparr>st_Full := True\<rparr>) q) (chan_close ch)
         else
           (let q1 = q\<lparr>q_queued := q_queued q @ [ch]\<rparr>; n = int (length (q_queued q1)) in
            chan_send ch (zero_status\<lparr>st_Index := surplus q1 + n - 1, st_Max := surplus q1 + n\<rparr>) q1))
        (\<lambda>q'. Inr (makeHandle ch q')))"

definition releaseFromHandle :: "internalHandle \<Rightarrow> Queue \<Rightarrow> chan_error + Queue" where
  "releaseFromHandle h q =
     (let newList = filter (\<lambda>item. ih_ch h \<noteq> item) (q_queued q) in
      if length newList \<noteq> length (q_queued q) then broadcastStatus (q\<lparr>q_queued := newList\<rparr>)
      else
        (let newActive = filter (\<lambda>item. ih_ch h \<noteq> item) (q_active q) in
         bindE (promote (q\<lparr>q_active := newActive\<rparr>)) broadcastStatus))"

text \<open>
  \<open>Handle.Release\<close>, also run by \<open>runtime.AddCleanup\<close> when the handle is collected. An unknown
  handle does not occur in Go, where a handle is a pointer that \<open>Acquire\<close> returned.
\<close>

definition release :: "handle_id \<Rightarrow> Queue \<Rightarrow> chan_error + Queue" where
  "release hid q =
     (case q_handles q hid of
        None \<Rightarrow> Inr q
      | Some h \<Rightarrow>
          if ih_released h then Inr q
          else
            (let h' = h\<lparr>ih_released := True\<rparr> in
             releaseFromHandle h' (q\<lparr>q_handles := (q_handles q)(hid \<mapsto> h')\<rparr>)))"

section \<open>Channels under the invariant: closed forms of the loops\<close>

abbreviation ok_status :: Status where
  "ok_status \<equiv> zero_status\<lparr>st_Ok := True\<rparr>"

abbreviation wait_status :: "int \<Rightarrow> int \<Rightarrow> Status" where
  "wait_status i n \<equiv> zero_status\<lparr>st_Index := i, st_Max := n\<rparr>"

definition open_chan :: "(chan_id \<rightharpoonup> chan) \<Rightarrow> chan_id \<Rightarrow> bool" where
  "open_chan m c \<longleftrightarrow> (\<exists>b. m c = Some \<lparr>ch_buf = b, ch_closed = False\<rparr>)"

fun told :: "int \<Rightarrow> int \<Rightarrow> queueItem list \<Rightarrow> (chan_id \<rightharpoonup> chan) \<Rightarrow> (chan_id \<rightharpoonup> chan)" where
  "told i n [] m = m"
| "told i n (c # cs) m =
     told (i + 1) n cs (m(c \<mapsto> \<lparr>ch_buf = Some (wait_status i n), ch_closed = False\<rparr>))"

definition granted :: "queueItem list \<Rightarrow> (chan_id \<rightharpoonup> chan) \<Rightarrow> (chan_id \<rightharpoonup> chan)" where
  "granted cs m c = (if c \<in> set cs then Some \<lparr>ch_buf = Some ok_status, ch_closed = True\<rparr> else m c)"

definition room :: "Queue \<Rightarrow> nat" where
  "room q = (if q_max q = 0 then length (q_queued q) else nat (q_max q - int (length (q_active q))))"

definition grant_first :: "nat \<Rightarrow> Queue \<Rightarrow> Queue" where
  "grant_first k q = q\<lparr>q_active := q_active q @ take k (q_queued q),
     q_queued := drop k (q_queued q), q_chans := granted (take k (q_queued q)) (q_chans q)\<rparr>"

lemma grant_first_0 [simp]: "grant_first 0 q = q"
  by (simp add: grant_first_def granted_def fun_eq_iff)

lemma trySend_open:
  "open_chan (q_chans q) c \<Longrightarrow>
   trySend c v q = Inr (q\<lparr>q_chans := (q_chans q)(c \<mapsto> \<lparr>ch_buf = Some v, ch_closed = False\<rparr>)\<rparr>)"
  by (auto simp: trySend_def chan_send_def chan_drain_def open_chan_def)

lemma broadcast_from_open:
  "\<forall>c\<in>set cs. open_chan (q_chans q) c \<Longrightarrow>
   broadcast_from i n cs q = Inr (q\<lparr>q_chans := told i n cs (q_chans q)\<rparr>)"
proof (induction cs arbitrary: i q)
  case (Cons c cs)
  let ?q = "q\<lparr>q_chans := (q_chans q)(c \<mapsto> \<lparr>ch_buf = Some (wait_status i n), ch_closed = False\<rparr>)\<rparr>"
  have "\<forall>d\<in>set cs. open_chan (q_chans ?q) d"
    using Cons.prems by (auto simp: open_chan_def)
  from Cons.IH [OF this, of "i + 1"] Cons.prems show ?case
    by (simp add: trySend_open fun_upd_def)
qed simp

lemma told_other: "c \<notin> set cs \<Longrightarrow> told i n cs m c = m c"
  by (induction cs arbitrary: i m) auto

lemma told_nth:
  "distinct cs \<Longrightarrow> k < length cs \<Longrightarrow>
   told i n cs m (cs ! k) = Some \<lparr>ch_buf = Some (wait_status (i + int k) n), ch_closed = False\<rparr>"
proof (induction cs arbitrary: i m k)
  case (Cons c cs)
  then show ?case by (cases k) (auto simp: told_other algebra_simps)
qed simp

lemma popHead_open:
  assumes "q_queued q = c # cs" "open_chan (q_chans q) c"
  shows "popHead q = Inr (grant_first 1 q)"
  using assms
  by (auto simp: popHead_def trySend_open chan_close_def grant_first_def granted_def fun_eq_iff)

lemma promote_open:
  assumes "\<forall>c\<in>set (q_queued q). open_chan (q_chans q) c" "distinct (q_queued q)"
  shows "promote q = Inr (grant_first (room q) q)"
  using assms
proof (induction "length (q_queued q)" arbitrary: q)
  case 0
  then show ?case
    by (subst promote.simps) (simp add: grant_first_def granted_def fun_eq_iff)
next
  case (Suc n)
  then obtain c cs where cs: "q_queued q = c # cs" by (cases "q_queued q") auto
  show ?case
  proof (cases "has_room q")
    case True
    let ?q = "grant_first 1 q"
    have pop: "popHead q = Inr ?q" using Suc.prems cs by (intro popHead_open) auto
    have room: "room q = Suc (room ?q)"
      using True cs by (auto simp: room_def has_room_def grant_first_def)
    have "promote ?q = Inr (grant_first (room ?q) ?q)"
      using Suc cs by (intro Suc.hyps) (auto simp: grant_first_def granted_def open_chan_def)
    moreover have "grant_first (room ?q) ?q = grant_first (room q) q"
      using cs unfolding room by (auto simp: grant_first_def granted_def fun_eq_iff)
    ultimately show ?thesis using pop True cs by (subst promote.simps) simp
  next
    case False
    then have "room q = 0" by (auto simp: room_def has_room_def)
    with False show ?thesis by (subst promote.simps) simp
  qed
qed

section \<open>The abstract admission controller\<close>

text \<open>
  What the queue promises, without channels: clients (named by their handle) run or wait; a
  positive capacity bounds the running ones, capacity 0 is no limit; waiting clients are
  admitted in the order in which they came.
\<close>

record admission =
  ad_cap :: int
  ad_qcap :: int
  ad_running :: "nat list"
  ad_waiting :: "nat list"

datatype verdict = Granted | Rejected | Waits

definition ad_slots :: "admission \<Rightarrow> nat" where
  "ad_slots a = (if ad_cap a = 0 then length (ad_waiting a) else nat (ad_cap a - int (length (ad_running a))))"

definition ad_fill :: "admission \<Rightarrow> admission" where
  "ad_fill a = a\<lparr>ad_running := ad_running a @ take (ad_slots a) (ad_waiting a),
                ad_waiting := drop (ad_slots a) (ad_waiting a)\<rparr>"

definition ad_resize :: "int \<Rightarrow> int \<Rightarrow> admission \<Rightarrow> admission" where
  "ad_resize cap qcap a = ad_fill (a\<lparr>ad_cap := cap, ad_qcap := qcap\<rparr>)"

definition ad_leave :: "nat \<Rightarrow> admission \<Rightarrow> admission" where
  "ad_leave c a = ad_fill (a\<lparr>ad_running := removeAll c (ad_running a), ad_waiting := removeAll c (ad_waiting a)\<rparr>)"

definition ad_verdict :: "admission \<Rightarrow> verdict" where
  "ad_verdict a =
     (if ad_cap a = 0 \<or> int (length (ad_running a)) < ad_cap a then Granted
      else if ad_qcap a > 0 \<and> int (length (ad_waiting a)) \<ge> ad_qcap a then Rejected
      else Waits)"

definition ad_join :: "nat \<Rightarrow> admission \<Rightarrow> admission" where
  "ad_join c a =
     (case ad_verdict a of
        Granted \<Rightarrow> a\<lparr>ad_running := ad_running a @ [c]\<rparr>
      | Rejected \<Rightarrow> a
      | Waits \<Rightarrow> a\<lparr>ad_waiting := ad_waiting a @ [c]\<rparr>)"

definition aq_abs :: "Queue \<Rightarrow> admission" where
  "aq_abs q = \<lparr>ad_cap = q_max q, ad_qcap = q_maxQueued q, ad_running = q_active q, ad_waiting = q_queued q\<rparr>"

lemma aq_abs_sel:
  "ad_running (aq_abs q) = q_active q" "ad_waiting (aq_abs q) = q_queued q" "ad_cap (aq_abs q) = q_max q"
  by (simp_all add: aq_abs_def)

section \<open>The invariant\<close>

text \<open>
  \<open>aq_pre\<close> is what holds inside a method, before the loops at its end: the lists are disjoint,
  every listed channel belongs to a live handle, the channels of active items are closed and
  those of queued items are open. \<open>aq_inv\<close> adds what the loops establish: nobody waits while
  there is room, and a position that a waiting client has not read yet is its current one.
\<close>

definition aq_pre :: "Queue \<Rightarrow> bool" where
  "aq_pre q \<longleftrightarrow>
     distinct (q_active q @ q_queued q) \<and>
     (\<forall>c\<in>set (q_active q @ q_queued q). q_handles q c = Some \<lparr>ih_ch = c, ih_released = False\<rparr>) \<and>
     (\<forall>h ih. q_handles q h = Some ih \<longrightarrow> ih_ch ih = h \<and> h < q_next q) \<and>
     (\<forall>c\<in>set (q_active q). \<exists>b. q_chans q c = Some \<lparr>ch_buf = b, ch_closed = True\<rparr> \<and> b \<in> {None, Some ok_status}) \<and>
     (\<forall>c\<in>set (q_queued q). open_chan (q_chans q) c)"

definition told_index :: "Queue \<Rightarrow> bool" where
  "told_index q \<longleftrightarrow>
     (\<forall>i<length (q_queued q). \<forall>c st. q_chans q (q_queued q ! i) = Some c \<longrightarrow> ch_buf c = Some st \<longrightarrow>
        \<not> st_Ok st \<and> \<not> st_Full st \<and> st_Index st = surplus q + int i)"

definition aq_inv :: "Queue \<Rightarrow> bool" where
  "aq_inv q \<longleftrightarrow> aq_pre q \<and> told_index q \<and> (q_queued q \<noteq> [] \<longrightarrow> \<not> has_room q)"

lemma aq_inv_New: "aq_inv (New m n)"
  by (simp add: aq_inv_def aq_pre_def told_index_def New_def)

lemma aq_pre_open: "aq_pre q \<Longrightarrow> \<forall>c\<in>set (q_queued q). open_chan (q_chans q) c"
  and aq_pre_distinct_queued: "aq_pre q \<Longrightarrow> distinct (q_queued q)"
  by (simp_all add: aq_pre_def)

lemma room_abs: "room q = ad_slots (aq_abs q)"
  by (simp add: room_def ad_slots_def aq_abs_def)

lemma aq_abs_grant: "aq_abs (grant_first (room q) q) = ad_fill (aq_abs q)"
  by (simp add: room_abs ad_fill_def) (simp add: aq_abs_def grant_first_def)

lemma aq_pre_grant:
  assumes "aq_pre q"
  shows "aq_pre (grant_first k q)"
proof -
  have "distinct (q_active q @ take k (q_queued q) @ drop k (q_queued q))"
    using assms by (simp add: aq_pre_def)
  moreover have "\<forall>c\<in>set (q_active q @ take k (q_queued q) @ drop k (q_queued q)).
      q_handles q c = Some \<lparr>ih_ch = c, ih_released = False\<rparr>"
    using assms by (simp add: aq_pre_def)
  ultimately show ?thesis
    using assms unfolding aq_pre_def grant_first_def
    by (auto simp: granted_def open_chan_def dest: in_set_dropD
        set_take_disj_set_drop_if_distinct [THEN disjoint_iff [THEN iffD1], rule_format, rotated 2])
qed

lemma no_room_after_grant:
  "q_queued (grant_first (room q) q) \<noteq> [] \<Longrightarrow> \<not> has_room (grant_first (room q) q)"
  by (auto simp: grant_first_def room_def has_room_def split: if_splits)

definition notified :: "chan_id set \<Rightarrow> Queue \<Rightarrow> bool" where
  "notified cs q \<longleftrightarrow>
     (\<forall>c\<in>cs \<inter> set (q_active q). q_chans q c = Some \<lparr>ch_buf = Some ok_status, ch_closed = True\<rparr>)"

text \<open>Both loops at the end of a method, from any state that satisfies \<open>aq_pre\<close>.\<close>

lemma settle:
  assumes "aq_pre q"
  shows "\<exists>q'. bindE (promote q) broadcastStatus = Inr q' \<and> aq_inv q' \<and>
    aq_abs q' = ad_fill (aq_abs q) \<and> q_handles q' = q_handles q \<and> q_next q' = q_next q \<and>
    notified (set (q_queued q)) q'"
proof -
  let ?g = "grant_first (room q) q"
  let ?n = "surplus ?g + int (length (q_queued ?g))"
  let ?r = "?g\<lparr>q_chans := told (surplus ?g) ?n (q_queued ?g) (q_chans ?g)\<rparr>"
  have pre: "aq_pre ?g" by (rule aq_pre_grant [OF assms])
  have "bindE (promote q) broadcastStatus = broadcastStatus ?g"
    using promote_open aq_pre_open [OF assms] aq_pre_distinct_queued [OF assms] by simp
  also have "\<dots> = Inr ?r"
    unfolding broadcastStatus_def by (rule broadcast_from_open [OF aq_pre_open [OF pre]])
  finally have run: "bindE (promote q) broadcastStatus = Inr ?r" .
  note at = told_nth [OF aq_pre_distinct_queued [OF pre]]
  have told: "told_index ?r"
    by (auto simp: told_index_def at surplus_def zero_status_def)
  have "open_chan (q_chans ?r) c" if "c \<in> set (q_queued ?r)" for c
    using that by (auto simp: open_chan_def in_set_conv_nth at)
  moreover have act: "q_chans ?r c = q_chans ?g c" if "c \<in> set (q_active ?g)" for c
    using that pre by (auto simp: aq_pre_def intro!: told_other)
  ultimately have "aq_pre ?r"
    using pre by (simp add: aq_pre_def)
  with told no_room_after_grant [of q] have "aq_inv ?r"
    by (simp add: aq_inv_def has_room_def)
  moreover have "aq_abs ?r = ad_fill (aq_abs q)"
    using aq_abs_grant [of q] by (simp add: aq_abs_def)
  moreover have "q_handles ?r = q_handles q" "q_next ?r = q_next q"
    by (simp_all add: grant_first_def)
  moreover have "notified (set (q_queued q)) ?r"
    using act assms by (auto simp: notified_def aq_pre_def grant_first_def granted_def)
  ultimately show ?thesis using run by blast
qed

section \<open>The operations keep the invariant and refine the specification\<close>

lemma SetMax_refines:
  assumes "aq_inv q"
  shows "\<exists>q'. SetMax m n q = Inr q' \<and> aq_inv q' \<and> aq_abs q' = ad_resize m n (aq_abs q) \<and>
    q_handles q' = q_handles q \<and> q_next q' = q_next q \<and> notified (set (q_queued q)) q'"
proof -
  let ?q = "q\<lparr>q_max := m, q_maxQueued := n\<rparr>"
  have "aq_pre ?q" using assms by (simp add: aq_inv_def aq_pre_def)
  from settle [OF this] show ?thesis
    by (simp add: SetMax_def ad_resize_def aq_abs_def)
qed

lemma removeAll_absent: "c \<notin> set xs \<Longrightarrow> removeAll c xs = xs"
  by (simp add: removeAll_id)

lemma releaseFromHandle_refines:
  assumes inv: "aq_inv q" and live: "q_handles q c = Some \<lparr>ih_ch = c, ih_released = False\<rparr>"
  defines "q1 \<equiv> q\<lparr>q_handles := (q_handles q)(c \<mapsto> \<lparr>ih_ch = c, ih_released = True\<rparr>)\<rparr>"
  shows "\<exists>q'. releaseFromHandle \<lparr>ih_ch = c, ih_released = True\<rparr> q1 = Inr q' \<and> aq_inv q' \<and>
    aq_abs q' = ad_leave c (aq_abs q) \<and> q_handles q' = q_handles q1 \<and> q_next q' = q_next q \<and>
    notified (set (q_queued q) - {c}) q'"
proof -
  let ?q = "q1\<lparr>q_active := removeAll c (q_active q), q_queued := removeAll c (q_queued q)\<rparr>"
  have filt: "filter (\<lambda>item. c \<noteq> item) xs = removeAll c xs" for xs :: "nat list"
    by (simp add: removeAll_filter_not_eq)
  have pre: "aq_pre ?q"
    using inv live by (auto simp: aq_inv_def aq_pre_def q1_def distinct_removeAll)
  have disj: "c \<in> set (q_queued q) \<Longrightarrow> c \<notin> set (q_active q)" 
    using inv by (auto simp: aq_inv_def aq_pre_def)
  have len: "length (removeAll c (q_queued q)) = length (q_queued q) \<longleftrightarrow> c \<notin> set (q_queued q)"
    by (auto simp: removeAll_id dest: length_removeAll_less)
  have run: "releaseFromHandle \<lparr>ih_ch = c, ih_released = True\<rparr> q1 = bindE (promote ?q) broadcastStatus"
  proof (cases "c \<in> set (q_queued q)")
    case True
    then have "\<not> has_room ?q"
      using inv disj by (auto simp: aq_inv_def has_room_def removeAll_id q1_def)
    then have "promote ?q = Inr ?q" by (subst promote.simps) simp
    moreover have "?q = q1\<lparr>q_queued := removeAll c (q_queued q)\<rparr>"
      using disj [OF True] by (simp add: removeAll_id q1_def)
    ultimately show ?thesis
      using True len by (simp add: releaseFromHandle_def filt q1_def)
  next
    case False
    then show ?thesis using len by (simp add: releaseFromHandle_def filt q1_def removeAll_id)
  qed
  show ?thesis
    using settle [OF pre] unfolding run by (simp add: ad_leave_def aq_abs_def q1_def)
qed

definition live_handle :: "Queue \<Rightarrow> handle_id \<Rightarrow> bool" where
  "live_handle q h \<longleftrightarrow> (\<exists>ih. q_handles q h = Some ih \<and> \<not> ih_released ih)"

lemma release_refines:
  assumes "aq_inv q"
  shows "\<exists>q'. release h q = Inr q' \<and> aq_inv q' \<and>
    aq_abs q' = (if live_handle q h then ad_leave h (aq_abs q) else aq_abs q) \<and>
    live_handle q' = (live_handle q)(h := False) \<and> q_next q' = q_next q \<and>
    notified (set (q_queued q) - {h}) q'"
proof (cases "live_handle q h")
  case True
  then have live: "q_handles q h = Some \<lparr>ih_ch = h, ih_released = False\<rparr>"
    using assms by (auto simp: live_handle_def aq_inv_def aq_pre_def)
  from releaseFromHandle_refines [OF assms live] True live show ?thesis
    by (auto simp: release_def live_handle_def fun_eq_iff)
next
  case False
  then show ?thesis
    using assms by (auto simp: release_def live_handle_def fun_eq_iff notified_def aq_inv_def aq_pre_def
        split: option.splits)
qed

lemma Acquire_refines:
  assumes inv: "aq_inv q"
  shows "\<exists>q'. Acquire q = Inr (q_next q, q') \<and> aq_inv q' \<and>
    aq_abs q' = ad_join (q_next q) (aq_abs q) \<and>
    live_handle q' = (live_handle q)(q_next q := True) \<and> q_next q' = Suc (q_next q)"
proof -
  have fresh: "q_next q \<notin> set (q_active q)" "q_next q \<notin> set (q_queued q)"
    using inv by (auto simp: aq_inv_def aq_pre_def)
  have fresh_nth: "i < length (q_queued q) \<Longrightarrow> q_queued q ! i \<noteq> q_next q" for i
    using fresh(2) nth_mem by metis
  have told': "told_index (q\<lparr>q_chans := (q_chans q)(q_next q \<mapsto> x)\<rparr>)" for x
    using inv fresh_nth by (auto simp: aq_inv_def told_index_def surplus_def)
  show ?thesis
  proof (cases "has_room q")
    case True
    then have "q_queued q = []" using inv by (auto simp: aq_inv_def)
    with True inv fresh show ?thesis
      by (auto simp: Acquire_def make_chan_def has_room_def chan_send_def chan_close_def makeHandle_def
          aq_inv_def aq_pre_def told_index_def aq_abs_def ad_join_def ad_verdict_def live_handle_def
          fun_eq_iff less_Suc_eq)
  next
    case room: False
    show ?thesis
    proof (cases "q_maxQueued q > 0 \<and> int (length (q_queued q)) \<ge> q_maxQueued q")
      case True
      with room inv fresh told' show ?thesis
        by (auto simp: Acquire_def make_chan_def has_room_def chan_send_def chan_close_def makeHandle_def
          aq_inv_def aq_pre_def told_index_def aq_abs_def ad_join_def ad_verdict_def live_handle_def
          fun_eq_iff less_Suc_eq open_chan_def surplus_def)
    next
      case False
      with room inv fresh told' show ?thesis
        by (auto simp: Acquire_def make_chan_def has_room_def chan_send_def chan_close_def makeHandle_def
          aq_inv_def aq_pre_def told_index_def aq_abs_def ad_join_def ad_verdict_def live_handle_def
          fun_eq_iff less_Suc_eq open_chan_def surplus_def nth_append zero_status_def Let_def)
    qed
  qed
qed

lemma recv_inv:
  assumes "aq_inv q" "recv c q = Some (v, q')"
  shows "aq_inv q' \<and> aq_abs q' = aq_abs q \<and> q_handles q' = q_handles q \<and> q_next q' = q_next q"
proof -
  from assms(2) obtain x where x: "q_chans q c = Some x" "q' = q \<or>
      (q' = q\<lparr>q_chans := (q_chans q)(c \<mapsto> x\<lparr>ch_buf := None\<rparr>)\<rparr>)"
    by (auto simp: recv_def split: option.splits if_splits)
  then show ?thesis
    using assms(1) by (cases x)
      (fastforce simp: aq_inv_def aq_pre_def told_index_def surplus_def has_room_def aq_abs_def open_chan_def
        split: if_splits)
qed

section \<open>The interface a client of the queue relies on\<close>

definition ad_wf :: "admission \<Rightarrow> bool" where
  "ad_wf a \<longleftrightarrow> distinct (ad_running a @ ad_waiting a) \<and>
     (ad_waiting a \<noteq> [] \<longrightarrow> ad_cap a \<noteq> 0 \<and> ad_cap a \<le> int (length (ad_running a)))"

definition ad_surplus :: "admission \<Rightarrow> int" where
  "ad_surplus a = int (length (ad_running a)) - ad_cap a"

text \<open>
  One client leaves: a client further back in line than position 0 moves up by exactly one
  position, the one at position 0 is admitted.
\<close>

lemma ad_leave_moves_up:
  assumes wf: "ad_wf a" and h: "h \<in> set (ad_running a)"
    and i: "i < length (ad_waiting a)" "ad_waiting a ! i = c"
  shows "if ad_surplus a + int i = 0 then c \<in> set (ad_running (ad_leave h a))
    else \<exists>j<length (ad_waiting (ad_leave h a)). ad_waiting (ad_leave h a) ! j = c \<and>
           ad_surplus (ad_leave h a) + int j = ad_surplus a + int i - 1"
proof -
  let ?r = "removeAll h (ad_running a)"
  have notin: "h \<notin> set (ad_waiting a)" and dist: "distinct (ad_running a)"
    using wf h by (auto simp: ad_wf_def)
  have cap: "ad_cap a \<noteq> 0" "ad_cap a \<le> int (length (ad_running a))"
    using wf i by (auto simp: ad_wf_def)
  have len: "length (ad_running a) = Suc (length ?r)"
    using dist h by (simp add: distinct_remove1_removeAll [symmetric] length_remove1)
      (metis Suc_pred length_pos_if_in_set)
  define k where "k = nat (ad_cap a - int (length ?r))"
  have "int (length (ad_running a)) = int (length ?r) + 1" using len by simp
  then have k: "k = (if ad_surplus a = 0 then 1 else 0)"
    using cap unfolding k_def ad_surplus_def by auto
  have leave: "ad_leave h a = a\<lparr>ad_running := ?r @ take k (ad_waiting a), ad_waiting := drop k (ad_waiting a)\<rparr>"
    using cap notin by (simp add: ad_leave_def ad_fill_def ad_slots_def k_def removeAll_id)
  show ?thesis
  proof (cases "ad_surplus a = 0")
    case True
    show ?thesis
    proof (cases i)
      case 0
      with True k i show ?thesis by (auto simp: leave take_Suc hd_conv_nth)
    next
      case (Suc j)
      with True k i len show ?thesis
        by (auto simp: leave ad_surplus_def drop_Suc nth_tl intro!: exI [of _ j])
    qed
  next
    case False
    then have "ad_surplus a > 0" using cap by (simp add: ad_surplus_def)
    with k i len show ?thesis by (auto simp: leave ad_surplus_def intro!: exI [of _ i])
  qed
qed

lemma ad_leave_keeps_running:
  "c \<in> set (ad_running a) \<Longrightarrow> h \<noteq> c \<Longrightarrow> c \<in> set (ad_running (ad_leave h a))"
  by (auto simp: ad_leave_def ad_fill_def)

lemma ad_leave_bound:
  assumes "ad_cap a > 0"
  shows "int (length (ad_running (ad_leave h a))) \<le> max (ad_cap a) (int (length (ad_running a)))"
proof -
  define r where "r = length (removeAll h (ad_running a))"
  have "r \<le> length (ad_running a)" by (simp add: r_def)
  then show ?thesis
    using assms by (simp add: ad_leave_def ad_fill_def ad_slots_def r_def [symmetric])
qed

locale admission_provider =
  fixes acquire :: "'q \<Rightarrow> 'e + (nat \<times> 'q)"
    and leave :: "nat \<Rightarrow> 'q \<Rightarrow> 'e + 'q"
    and resize :: "int \<Rightarrow> int \<Rightarrow> 'q \<Rightarrow> 'e + 'q"
    and invar :: "'q \<Rightarrow> bool"
    and absf :: "'q \<Rightarrow> admission"
    and live :: "'q \<Rightarrow> nat \<Rightarrow> bool"
  assumes wf_law: "invar q \<Longrightarrow> ad_wf (absf q)"
    and running_live_law: "invar q \<Longrightarrow> h \<in> set (ad_running (absf q)) \<Longrightarrow> live q h"
    and acquire_law: "invar q \<Longrightarrow> \<exists>h q'. acquire q = Inr (h, q') \<and> invar q' \<and> \<not> live q h \<and>
        absf q' = ad_join h (absf q) \<and> live q' = (live q)(h := True)"
    and leave_law: "invar q \<Longrightarrow> \<exists>q'. leave h q = Inr q' \<and> invar q' \<and>
        absf q' = (if live q h then ad_leave h (absf q) else absf q) \<and> live q' = (live q)(h := False)"
    and resize_law: "invar q \<Longrightarrow> \<exists>q'. resize m n q = Inr q' \<and> invar q' \<and>
        absf q' = ad_resize m n (absf q) \<and> live q' = live q"
begin

lemma running_leaves:
  assumes "invar q" "h \<in> set (ad_running (absf q))"
  shows "\<exists>q'. leave h q = Inr q' \<and> invar q' \<and> absf q' = ad_leave h (absf q)"
  using leave_law [of q h] running_live_law assms by auto

lemma departures:
  assumes "invar q" "distinct hs" "set hs \<subseteq> set (ad_running (absf q))"
  shows "\<exists>q'. foldE leave hs q = Inr q' \<and> invar q' \<and> absf q' = fold ad_leave hs (absf q)"
  using assms
proof (induction hs arbitrary: q)
  case (Cons h hs)
  from running_leaves [of q h] Cons.prems obtain q1
    where q1: "leave h q = Inr q1" "invar q1" "absf q1 = ad_leave h (absf q)" by auto
  have "set hs \<subseteq> set (ad_running (absf q1))"
    using Cons.prems q1(3) by (auto intro!: ad_leave_keeps_running)
  with Cons.IH [of q1] Cons.prems q1 show ?case by auto
qed simp

lemma admitted_stays:
  "c \<in> set (ad_running a) \<Longrightarrow> c \<notin> set hs \<Longrightarrow> c \<in> set (ad_running (fold ad_leave hs a))"
  by (induction hs arbitrary: a) (auto simp: ad_leave_keeps_running)

text \<open>
  A client that waits at index \<open>i\<close> is admitted by exactly \<open>surplus + i + 1\<close> departures of
  running clients, whichever they are.
\<close>

lemma departures_admit:
  assumes "invar q" "distinct hs" "set hs \<subseteq> set (ad_running (absf q))"
    "i < length (ad_waiting (absf q))" "ad_waiting (absf q) ! i = c"
  shows "c \<in> set (ad_running (fold ad_leave hs (absf q))) \<longleftrightarrow>
    int (length hs) \<ge> ad_surplus (absf q) + int i + 1"
  using assms
proof (induction hs arbitrary: q i)
  case Nil
  have wf: "ad_wf (absf q)" using Nil.prems wf_law by blast
  then have "c \<notin> set (ad_running (absf q))" "ad_surplus (absf q) \<ge> 0"
    using Nil.prems(4,5) nth_mem by (fastforce simp: ad_wf_def ad_surplus_def)+
  then show ?case by simp
next
  case (Cons h hs)
  from running_leaves [of q h] Cons.prems obtain q1
    where q1: "invar q1" "absf q1 = ad_leave h (absf q)" by auto
  have wf: "ad_wf (absf q)" using Cons.prems wf_law by blast
  then have nonneg: "ad_surplus (absf q) \<ge> 0" and notin: "c \<notin> set (ad_running (absf q))"
    using Cons.prems(4,5) nth_mem by (fastforce simp: ad_wf_def ad_surplus_def)+
  have sub: "set hs \<subseteq> set (ad_running (absf q1))"
    using Cons.prems q1(2) by (auto intro!: ad_leave_keeps_running)
  note moves = ad_leave_moves_up [OF wf _ Cons.prems(4,5), of h]
  show ?case
  proof (cases "ad_surplus (absf q) + int i = 0")
    case True
    with moves Cons.prems(3) have "c \<in> set (ad_running (ad_leave h (absf q)))" by simp
    moreover have "c \<notin> set hs" using notin Cons.prems(3) by auto
    ultimately show ?thesis using True by (simp add: admitted_stays)
  next
    case False
    with moves Cons.prems(3) obtain j where "j < length (ad_waiting (absf q1))"
      "ad_waiting (absf q1) ! j = c" "ad_surplus (absf q1) + int j = ad_surplus (absf q) + int i - 1"
      by (auto simp: q1)
    with Cons.IH [OF q1(1) _ sub] Cons.prems(2) show ?thesis by (simp add: q1)
  qed
qed

lemma grows_only_to_cap:
  assumes "invar q" "ad_cap (absf q) > 0"
  shows "acquire q = Inr (h, q') \<Longrightarrow>
      int (length (ad_running (absf q'))) \<le> max (ad_cap (absf q)) (int (length (ad_running (absf q))))"
    and "leave h q = Inr q' \<Longrightarrow>
      int (length (ad_running (absf q'))) \<le> max (ad_cap (absf q)) (int (length (ad_running (absf q))))"
  using acquire_law [OF assms(1)] leave_law [OF assms(1), of h] ad_leave_bound [OF assms(2), of h] assms(2)
  by (auto simp: ad_join_def ad_verdict_def)

end

lemma aq_inv_wf: "aq_inv q \<Longrightarrow> ad_wf (aq_abs q)"
  by (auto simp: aq_inv_def aq_pre_def ad_wf_def aq_abs_def has_room_def)

interpretation aq: admission_provider Acquire release SetMax aq_inv aq_abs live_handle
proof unfold_locales
  fix q :: Queue and h m n
  assume inv: "aq_inv q"
  show "ad_wf (aq_abs q)" by (rule aq_inv_wf [OF inv])
  show "h \<in> set (ad_running (aq_abs q)) \<Longrightarrow> live_handle q h"
    using inv by (auto simp: aq_abs_def live_handle_def aq_inv_def aq_pre_def)
  have "\<not> live_handle q (q_next q)"
    using inv by (auto simp: live_handle_def aq_inv_def aq_pre_def)
  with Acquire_refines [OF inv]
  show "\<exists>h q'. Acquire q = Inr (h, q') \<and> aq_inv q' \<and> \<not> live_handle q h \<and>
      aq_abs q' = ad_join h (aq_abs q) \<and> live_handle q' = (live_handle q)(h := True)" by blast
  show "\<exists>q'. release h q = Inr q' \<and> aq_inv q' \<and>
      aq_abs q' = (if live_handle q h then ad_leave h (aq_abs q) else aq_abs q) \<and>
      live_handle q' = (live_handle q)(h := False)"
    using release_refines [OF inv, of h] by blast
  show "\<exists>q'. SetMax m n q = Inr q' \<and> aq_inv q' \<and> aq_abs q' = ad_resize m n (aq_abs q) \<and>
      live_handle q' = live_handle q"
    using SetMax_refines [OF inv, of m n] by (auto simp: live_handle_def fun_eq_iff)
qed

section \<open>Runs of the queue\<close>

inductive q_step :: "Queue \<Rightarrow> Queue \<Rightarrow> bool" where
  acquire: "Acquire q = Inr (h, q') \<Longrightarrow> q_step q q'"
| release: "release h q = Inr q' \<Longrightarrow> q_step q q'"
| resize: "SetMax m n q = Inr q' \<Longrightarrow> q_step q q'"
| receive: "recv c q = Some (v, q') \<Longrightarrow> q_step q q'"

definition q_init :: "Queue \<Rightarrow> bool" where
  "q_init q \<longleftrightarrow> (\<exists>m n. q = New m n)"

interpretation queue_runs: transition_system q_init q_step aq_inv
proof unfold_locales
  show "q_init s \<Longrightarrow> aq_inv s" for s
    by (auto simp: q_init_def aq_inv_New)
  show "aq_inv t" if inv: "aq_inv s" and step: "q_step s t" for s t
    using step
  proof cases
    case (acquire h)
    then show ?thesis using Acquire_refines [OF inv] by simp
  next
    case (release h)
    then show ?thesis using release_refines [OF inv, of h] by simp
  next
    case (resize m n)
    then show ?thesis using SetMax_refines [OF inv, of m n] by simp
  next
    case (receive c v)
    then show ?thesis using recv_inv [OF inv] by simp
  qed
qed

abbreviation q_reachable :: "Queue \<Rightarrow> bool" where
  "q_reachable \<equiv> reachable_from q_init q_step"

lemma q_step_limit:
  assumes "q_reachable q" "q_step q q'" "0 < q_max q'"
  shows "int (length (q_active q')) \<le> max (q_max q') (int (length (q_active q)))"
proof -
  have inv: "aq_inv q" by (rule queue_runs.reachable_inv [OF assms(1)])
  show ?thesis
    using assms(2)
  proof cases
    case (acquire h)
    then have "q_max q' = q_max q"
      using Acquire_refines [OF inv] by (auto simp: aq_abs_def ad_join_def split: verdict.splits)
    then show ?thesis
      using aq.grows_only_to_cap(1) [OF inv _ acquire] assms(3) by (simp add: aq_abs_sel)
  next
    case (release h)
    then have "q_max q' = q_max q"
      using release_refines [OF inv, of h] by (auto simp: aq_abs_def ad_leave_def ad_fill_def split: if_splits)
    then show ?thesis
      using aq.grows_only_to_cap(2) [OF inv _ release] assms(3) by (simp add: aq_abs_sel)
  next
    case (resize m n)
    with SetMax_refines [OF inv, of m n] assms(3) show ?thesis
      by (auto simp: aq_abs_def ad_resize_def ad_fill_def ad_slots_def)
  next
    case (receive c v)
    with recv_inv [OF inv] show ?thesis by (auto simp: aq_abs_def)
  qed
qed

section \<open>A concrete queue\<close>

fun acquire_n :: "nat \<Rightarrow> Queue \<Rightarrow> Queue" where
  "acquire_n 0 q = q"
| "acquire_n (Suc n) q = (case Acquire q of Inl e \<Rightarrow> q | Inr (h, q') \<Rightarrow> acquire_n n q')"

lemma Acquire_reachable: "q_reachable q \<Longrightarrow> Acquire q = Inr (h, q') \<Longrightarrow> q_reachable q'"
  by (erule reachable_from.move) (rule q_step.acquire)

lemma acquire_n_reachable: "q_reachable q \<Longrightarrow> q_reachable (acquire_n n q)"
proof (induction n arbitrary: q)
  case (Suc n)
  then show ?case
    by (auto split: sum.splits dest: Acquire_reachable)
qed simp

lemma New_reachable: "q_reachable (New m n)"
  by (rule reachable_from.start) (auto simp: q_init_def)

definition sample_queue :: Queue where
  "sample_queue = acquire_n 3 (New 1 2)"

lemma sample_reachable: "q_reachable sample_queue"
  unfolding sample_queue_def by (rule acquire_n_reachable [OF New_reachable])

lemma sample_queue_eq:
  "sample_queue = \<lparr>q_max = 1, q_active = [0], q_queued = [1, 2], q_maxQueued = 2,
     q_chans = [0 \<mapsto> \<lparr>ch_buf = Some ok_status, ch_closed = True\<rparr>,
                1 \<mapsto> \<lparr>ch_buf = Some (wait_status 0 1), ch_closed = False\<rparr>,
                2 \<mapsto> \<lparr>ch_buf = Some (wait_status 1 2), ch_closed = False\<rparr>],
     q_handles = [0 \<mapsto> \<lparr>ih_ch = 0, ih_released = False\<rparr>, 1 \<mapsto> \<lparr>ih_ch = 1, ih_released = False\<rparr>,
                  2 \<mapsto> \<lparr>ih_ch = 2, ih_released = False\<rparr>], q_next = 3\<rparr>"
  by (simp add: sample_queue_def New_def Acquire_def make_chan_def has_room_def chan_send_def chan_close_def
      makeHandle_def surplus_def Let_def eval_nat_numeral)

lemma sample_step: "\<exists>q'. q_step sample_queue q' \<and> q_max q' = 1 \<and> 1 \<in> set (q_active q')"
proof -
  from release_refines [OF queue_runs.reachable_inv [OF sample_reachable], of 0] obtain q'
    where "release 0 sample_queue = Inr q'" "aq_abs q' = ad_leave 0 (aq_abs sample_queue)"
    by (auto simp: live_handle_def sample_queue_eq)
  then have "q_step sample_queue q'" "q_max q' = 1" "1 \<in> set (q_active q')"
    by (auto intro: q_step.release simp: aq_abs_def ad_leave_def ad_fill_def ad_slots_def sample_queue_eq)
  then show ?thesis by blast
qed

section \<open>Properties\<close>

text \<open>C8: In every reachable state of the queue every operation completes: no send on a closed
  channel, no double close, and no send that would block forever while the mutex is held.\<close>

theorem queue_never_panics_or_deadlocks:
  assumes "q_reachable q"
  shows "(\<exists>h q'. Acquire q = Inr (h, q')) \<and> (\<exists>q'. release hid q = Inr q') \<and>
    (\<exists>q'. SetMax m n q = Inr q')"
  using queue_runs.reachable_inv [OF assms] Acquire_refines release_refines SetMax_refines by meson

theorem queue_never_panics_or_deadlocks_witness:
  "\<exists>h q'. Acquire sample_queue = Inr (h, q')"
  using queue_never_panics_or_deadlocks [OF sample_reachable] by blast



text \<open>C10: A client that waits at index \<open>i\<close> becomes active exactly when \<open>surplus + i + 1\<close> of the
  active clients have released their handles, whichever clients these are.\<close>

theorem queue_position_counts_departures:
  assumes "q_reachable q" "distinct hs" "set hs \<subseteq> set (q_active q)" "i < length (q_queued q)"
  shows "\<exists>q'. foldE release hs q = Inr q' \<and>
    (q_queued q ! i \<in> set (q_active q') \<longleftrightarrow> int (length hs) \<ge> surplus q + int i + 1)"
proof -
  have inv: "aq_inv q" by (rule queue_runs.reachable_inv [OF assms(1)])
  have sub: "set hs \<subseteq> set (ad_running (aq_abs q))" and i: "i < length (ad_waiting (aq_abs q))"
    using assms by (simp_all add: aq_abs_def)
  from aq.departures [OF inv assms(2) sub] obtain q'
    where run: "foldE release hs q = Inr q'" "aq_abs q' = fold ad_leave hs (aq_abs q)" by blast
  from aq.departures_admit [OF inv assms(2) sub i refl]
  have "q_queued q ! i \<in> set (q_active q') \<longleftrightarrow> int (length hs) \<ge> surplus q + int i + 1"
    unfolding run(2) [symmetric] by (simp add: aq_abs_sel ad_surplus_def surplus_def)
  with run(1) show ?thesis by blast
qed

theorem queue_position_counts_departures_witness:
  "\<exists>q'. foldE release [0] sample_queue = Inr q' \<and> 1 \<in> set (q_active q')"
  using queue_position_counts_departures [OF sample_reachable, of "[0]" 0]
  by (auto simp: surplus_def sample_queue_eq)

text \<open>A position read by a waiting client is its current one: the status received by the
  client at index \<open>i\<close> carries \<open>surplus + i\<close> and neither grants nor refuses.\<close>

theorem queue_told_position:
  assumes "q_reachable q" "i < length (q_queued q)" "recv (q_queued q ! i) q = Some (st, q')"
  shows "st_Index st = surplus q + int i \<and> \<not> st_Ok st \<and> \<not> st_Full st"
proof -
  have inv: "aq_inv q" by (rule queue_runs.reachable_inv [OF assms(1)])
  then have "open_chan (q_chans q) (q_queued q ! i)"
    using assms(2) by (auto simp: aq_inv_def aq_pre_def)
  with assms(3) inv assms(2) show ?thesis
    by (auto simp: recv_def open_chan_def aq_inv_def told_index_def split: option.splits)
qed

theorem queue_told_position_witness:
  "\<exists>st q'. recv 2 sample_queue = Some (st, q') \<and> st_Index st = 1"
proof -
  obtain st q' where r: "recv (q_queued sample_queue ! 1) sample_queue = Some (st, q')"
    by (simp add: recv_def sample_queue_eq)
  with queue_told_position [OF sample_reachable _ r] show ?thesis
    by (auto simp: sample_queue_eq surplus_def)
qed

text \<open>C11: A client that a step moves from the waiting to the active list finds the granting status
  in its channel, so its blocked receive returns it.\<close>

theorem queue_promotion_is_delivered:
  assumes "q_reachable q" "q_step q q'" "c \<in> set (q_queued q)" "c \<in> set (q_active q')"
  shows "\<exists>q''. recv c q' = Some (ok_status, q'')"
proof -
  have inv: "aq_inv q" by (rule queue_runs.reachable_inv [OF assms(1)])
  have inv': "aq_inv q'" using assms(1,2) by (blast intro: queue_runs.reachable_inv reachable_from.move)
  have c: "c \<notin> set (q_active q)" "c \<noteq> q_next q" using inv assms(3) by (auto simp: aq_inv_def aq_pre_def)
  have "notified {c} q'"
    using assms(2)
  proof cases
    case (acquire h)
    then have "aq_abs q' = ad_join (q_next q) (aq_abs q)" using Acquire_refines [OF inv] by simp
    with c assms(4) show ?thesis
      by (auto simp: aq_abs_def ad_join_def split: verdict.splits)
  next
    case (release h)
    show ?thesis
    proof (cases "h = c")
      case True
      have "live_handle q c" using inv assms(3) by (auto simp: live_handle_def aq_inv_def aq_pre_def)
      with release_refines [OF inv, of h] release True have "\<not> live_handle q' c" by auto
      with inv' assms(4) show ?thesis by (auto simp: live_handle_def aq_inv_def aq_pre_def)
    qed (use release_refines [OF inv, of h] release assms(3) in \<open>auto simp: notified_def\<close>)
  next
    case (resize m n)
    with SetMax_refines [OF inv, of m n] assms(3) show ?thesis by (auto simp: notified_def)
  next
    case (receive d v)
    with recv_inv [OF inv] c assms(4) show ?thesis by (auto simp: aq_abs_def)
  qed
  with assms(4) show ?thesis by (auto simp: notified_def recv_def)
qed

theorem queue_promotion_is_delivered_witness:
  "\<exists>q' q''. q_step sample_queue q' \<and> recv 1 q' = Some (ok_status, q'')"
proof -
  obtain q' where q': "q_step sample_queue q'" "1 \<in> set (q_active q')" using sample_step by blast
  have "1 \<in> set (q_queued sample_queue)" by (simp add: sample_queue_eq)
  from queue_promotion_is_delivered [OF sample_reachable q'(1) this q'(2)] q'(1) show ?thesis by blast
qed

text \<open>No slot is idle while a client waits: with a non-empty waiting list a limit is set and at
  least that many clients are active.\<close>

theorem queue_work_conserving:
  assumes "q_reachable q" "q_queued q \<noteq> []"
  shows "q_max q \<noteq> 0 \<and> q_max q \<le> int (length (q_active q))"
  using queue_runs.reachable_inv [OF assms(1)] assms(2) by (auto simp: aq_inv_def has_room_def)

theorem queue_work_conserving_witness:
  "q_queued sample_queue \<noteq> [] \<and> q_max sample_queue \<le> int (length (q_active sample_queue))"
proof -
  have "q_queued sample_queue \<noteq> []" by (simp add: sample_queue_eq)
  with queue_work_conserving [OF sample_reachable] show ?thesis by blast
qed

text \<open>No step takes the number of active clients above a positive limit; after the limit has been
  lowered below the current number, that number can only shrink.\<close>

theorem queue_respects_limit:
  assumes "q_reachable q" "q_step q q'" "0 < q_max q'"
  shows "int (length (q_active q')) \<le> max (q_max q') (int (length (q_active q)))"
  using assms by (rule q_step_limit)

theorem queue_respects_limit_witness:
  "\<exists>q'. q_step sample_queue q' \<and> int (length (q_active q')) \<le> 1"
proof -
  obtain q' where q': "q_step sample_queue q'" "q_max q' = 1" using sample_step by blast
  from queue_respects_limit [OF sample_reachable q'(1)] q' show ?thesis
    by (auto simp: sample_queue_eq)
qed

text \<open>Releasing a handle twice is the same as releasing it once.\<close>

theorem queue_release_idempotent:
  assumes "q_reachable q" "release hid q = Inr q1"
  shows "release hid q1 = Inr q1"
proof -
  have "\<not> live_handle q1 hid"
    using release_refines [OF queue_runs.reachable_inv [OF assms(1)], of hid] assms(2) by auto
  then show ?thesis by (auto simp: release_def live_handle_def split: option.splits)
qed

theorem queue_release_idempotent_witness:
  "\<exists>q1. release 0 sample_queue = Inr q1 \<and> release 0 q1 = Inr q1"
proof -
  obtain q1 where r: "release 0 sample_queue = Inr q1"
    using release_refines [OF queue_runs.reachable_inv [OF sample_reachable]] by blast
  from queue_release_idempotent [OF sample_reachable r] r show ?thesis by blast
qed

text \<open>With \<open>maxQueued = 0\<close> and no free slot every new client is queued: 0 means that the waiting
  list is unbounded.\<close>

theorem queue_zero_maxQueued_unbounded:
  assumes "q_reachable q" "q_maxQueued q = 0" "\<not> has_room q"
  shows "\<exists>q'. Acquire q = Inr (q_next q, q') \<and> q_queued q' = q_queued q @ [q_next q]"
  using Acquire_refines [OF queue_runs.reachable_inv [OF assms(1)]] assms(2,3)
  by (auto simp: aq_abs_def ad_join_def ad_verdict_def has_room_def)

theorem queue_zero_maxQueued_unbounded_witness:
  "\<exists>q'. Acquire (acquire_n 1 (New 1 0)) = Inr (1, q') \<and> q_queued q' = [1]"
proof -
  let ?q = "acquire_n 1 (New 1 0)"
  have f: "q_maxQueued ?q = 0" "\<not> has_room ?q" "q_next ?q = 1" "q_queued ?q = []"
    by (simp_all add: New_def Acquire_def make_chan_def has_room_def chan_send_def chan_close_def
      makeHandle_def Let_def)
  from queue_zero_maxQueued_unbounded [OF acquire_n_reachable [OF New_reachable] f(1,2)]
  show ?thesis unfolding f by simp
qed

end
