(* ===== verification/Logging.thy ===== *)
theory Logging
  imports Prelude
begin

text \<open>
  The reopenable log files of \<open>pkg/logging/file.go\<close>. Open files are numbers; \<open>Files\<close> is the set of
  open ones, and the outcome of the system calls is the parameter \<open>OS\<close>. The destination of the
  embedded \<open>log.Logger\<close> is \<open>fl_out\<close>, with \<open>None\<close> for \<open>io.Discard\<close>. Every operation holds the
  mutex of the logger.
\<close>

record OS =
  os_MkdirAllDir :: "string \<Rightarrow> string option"
  os_OpenFile :: "string \<Rightarrow> string option"

record Files =
  fs_open :: "nat list"
  fs_next :: nat

record FileLogger =
  fl_filename :: string
  fl_f :: "nat option"
  fl_out :: "nat option"

definition close_file :: "nat option \<Rightarrow> Files \<Rightarrow> Files" where
  "close_file f fs = (case f of None \<Rightarrow> fs | Some i \<Rightarrow> fs\<lparr>fs_open := removeAll i (fs_open fs)\<rparr>)"

definition reopen :: "OS \<Rightarrow> FileLogger \<Rightarrow> Files \<Rightarrow> string option \<times> FileLogger \<times> Files" where
  "reopen os l fs =
     (if fl_filename l = '''' then (None, l\<lparr>fl_f := None, fl_out := None\<rparr>, close_file (fl_f l) fs)
      else case os_MkdirAllDir os (fl_filename l) of
        Some err \<Rightarrow> (Some err, l, fs)
      | None \<Rightarrow>
          (case os_OpenFile os (fl_filename l) of
             Some err \<Rightarrow> (Some err, l, fs)
           | None \<Rightarrow>
               (let f = fs_next fs in
                (None, l\<lparr>fl_f := Some f, fl_out := Some f\<rparr>,
                 close_file (fl_f l) (fs\<lparr>fs_open := f # fs_open fs, fs_next := Suc f\<rparr>)))))"

definition SetFile :: "OS \<Rightarrow> string \<Rightarrow> FileLogger \<Rightarrow> Files \<Rightarrow> string option \<times> FileLogger \<times> Files" where
  "SetFile os filename l fs = reopen os (l\<lparr>fl_filename := filename\<rparr>) fs"

definition Reopen :: "OS \<Rightarrow> FileLogger \<Rightarrow> Files \<Rightarrow> string option \<times> FileLogger \<times> Files" where
  "Reopen os l fs = reopen os l fs"

definition CloseLog :: "FileLogger \<Rightarrow> Files \<Rightarrow> FileLogger \<times> Files" where
  "CloseLog l fs = (l\<lparr>fl_f := None\<rparr>, close_file (fl_f l) fs)"

text \<open>The named results of \<open>NewFileLogger\<close>: the error of \<open>reopen\<close> is bound to an inner variable that shadows \<open>err\<close>.\<close>

definition NewFileLogger :: "OS \<Rightarrow> string \<Rightarrow> Files \<Rightarrow> FileLogger option \<times> string option \<times> Files" where
  "NewFileLogger os filename fs =
     (let l = \<lparr>fl_filename = filename, fl_f = None, fl_out = None\<rparr> in
      if filename \<noteq> '''' then
        (case reopen os l fs of
           (Some err, _, fs') \<Rightarrow> (None, None, fs')
         | (None, l', fs') \<Rightarrow> (Some l', None, fs'))
      else (Some l, None, fs))"

text \<open>Whether a line handed to \<open>F\<close> or \<open>Ln\<close> reaches its destination: a closed file refuses it.\<close>

definition log_delivers :: "FileLogger \<Rightarrow> Files \<Rightarrow> bool" where
  "log_delivers l fs \<longleftrightarrow> (case fl_out l of None \<Rightarrow> True | Some i \<Rightarrow> i \<in> set (fs_open fs))"

section \<open>The logger keeps at most one file open\<close>

definition log_inv :: "FileLogger \<Rightarrow> Files \<Rightarrow> bool" where
  "log_inv l fs \<longleftrightarrow>
     (\<forall>i\<in>set (fs_open fs). i < fs_next fs) \<and>
     (case fl_f l of None \<Rightarrow> True | Some i \<Rightarrow> i \<in> set (fs_open fs) \<and> fl_out l = Some i)"

lemma reopen_inv:
  assumes "log_inv l fs" "reopen os l fs = (e, l', fs')"
  shows "log_inv l' fs'"
  using assms
  by (auto simp: less_Suc_eq log_inv_def reopen_def close_file_def Let_def split: if_splits option.splits)

lemma reopen_files:
  assumes "log_inv l fs" "reopen os l fs = (e, l', fs')"
  shows "set (fs_open fs') - set_option (fl_f l') = set (fs_open fs) - set_option (fl_f l)"
  using assms
  by (auto simp: log_inv_def reopen_def close_file_def Let_def split: if_splits option.splits)

text \<open>Switching the log file either succeeds, and then the previous file is closed, the logger holds exactly the new one
  and lines are delivered to it, or fails and leaves the open files and the destination as they were.\<close>

theorem SetFile_swaps_one_file:
  assumes "log_inv l fs" "SetFile os name l fs = (e, l', fs')"
  shows "log_inv l' fs' \<and> fl_filename l' = name \<and>
    set (fs_open fs') - set_option (fl_f l') = set (fs_open fs) - set_option (fl_f l) \<and>
    (e = None \<longrightarrow> log_delivers l' fs' \<and> (fl_out l' = None \<longleftrightarrow> name = '''')) \<and>
    (e \<noteq> None \<longrightarrow> fs' = fs \<and> fl_out l' = fl_out l \<and> fl_f l' = fl_f l)"
proof -
  let ?l = "l\<lparr>fl_filename := name\<rparr>"
  have inv: "log_inv ?l fs" using assms(1) by (simp add: log_inv_def split: option.splits)
  have re: "reopen os ?l fs = (e, l', fs')" using assms(2) by (simp add: SetFile_def)
  have "fl_filename l' = name \<and> (e = None \<longrightarrow> log_delivers l' fs' \<and> (fl_out l' = None \<longleftrightarrow> name = '''')) \<and>
      (e \<noteq> None \<longrightarrow> fs' = fs \<and> fl_out l' = fl_out l \<and> fl_f l' = fl_f l)"
    using re inv
    by (auto simp: reopen_def log_delivers_def log_inv_def close_file_def Let_def split: if_splits option.splits
        dest!: sym [of "Some _"])
  then show ?thesis using reopen_inv [OF inv re] reopen_files [OF inv re] by simp
qed

definition os_fail :: OS where
  "os_fail = \<lparr>os_MkdirAllDir = (\<lambda>_. None), os_OpenFile = (\<lambda>_. Some ''permission denied'')\<rparr>"

definition os_ok :: OS where
  "os_ok = \<lparr>os_MkdirAllDir = (\<lambda>_. None), os_OpenFile = (\<lambda>_. None)\<rparr>"

theorem SetFile_swaps_one_file_witness:
  "let (e, l', fs') = SetFile os_ok ''b.log'' \<lparr>fl_filename = ''a.log'', fl_f = Some 0, fl_out = Some 0\<rparr>
       \<lparr>fs_open = [0], fs_next = 1\<rparr> in
   e = None \<and> log_delivers l' fs' \<and> fs_open fs' = [1]"
proof -
  let ?l = "\<lparr>fl_filename = ''a.log'', fl_f = Some (0::nat), fl_out = Some 0\<rparr>" and ?fs = "\<lparr>fs_open = [0::nat], fs_next = 1\<rparr>"
  obtain l' fs' where r: "SetFile os_ok ''b.log'' ?l ?fs = (None, l', fs')" "fs_open fs' = [1]"
    by (simp add: SetFile_def reopen_def os_ok_def close_file_def Let_def)
  have "log_inv ?l ?fs" by (simp add: log_inv_def)
  from SetFile_swaps_one_file [OF this r(1)] r show ?thesis by simp
qed

text \<open>A log file that cannot be opened makes \<open>NewFileLogger\<close> return no logger and no error.\<close>

theorem NewFileLogger_swallows_error:
  assumes "filename \<noteq> ''''" "os_MkdirAllDir os filename \<noteq> None \<or> os_OpenFile os filename \<noteq> None"
  shows "NewFileLogger os filename fs = (None, None, fs)"
  using assms by (auto simp: NewFileLogger_def reopen_def Let_def split: option.splits)

theorem NewFileLogger_swallows_error_witness:
  "NewFileLogger os_fail ''/var/log/rsync.log'' \<lparr>fs_open = [], fs_next = 0\<rparr> = (None, None, \<lparr>fs_open = [], fs_next = 0\<rparr>)"
  by (rule NewFileLogger_swallows_error) (simp_all add: os_fail_def)

end
