(* ===== verification/ServerConfig.thy ===== *)
theory ServerConfig
  imports AdmissionQueue GoStd Logging
begin

text \<open>
  The configuration of one proxy server: \<open>pkg/server/config.go\<close>, the types and getters of
  \<open>pkg/server/server.go\<close> that hold the routing state, and \<open>loadConfig\<close> with everything it calls.
  \<open>Env\<close> collects what the code gets from the system: name resolution, certificate loading, the
  log files and the upstream daemons that module discovery talks to (a \<open>Peer\<close> is the script of
  one conversation: the bytes it will send, the error that ends them, and the outcome of each
  write). A \<open>*queue.Queue\<close> is an index into \<open>s_queue_heap\<close>, so that a queue survives a reload
  under the same pointer. \<open>loadConfig\<close> returns the server as it is left behind, also when it fails;
  a panic of a queue operation would be \<open>Inl\<close>. The map \<open>Upstreams\<close> holds no nil pointers.
\<close>

section \<open>Configuration types\<close>

record Upstream =
  u_Address :: string
  u_Modules :: "string list"
  u_DiscoverModules :: bool
  u_UseProxyProtocol :: bool
  u_MaxActiveConns :: int
  u_MaxQueuedConns :: int
  u_PerIPMaxActiveConns :: int

record ProxySettingsT =
  ps_Listen :: string
  ps_ListenTLS :: string
  ps_ListenHTTP :: string
  ps_Motd :: string
  ps_AccessLog :: string
  ps_ErrorLog :: string
  ps_TLSCertFile :: string
  ps_TLSKeyFile :: string
  ps_RelayIdleTimeoutSecs :: int
  ps_RelayMaxDurationSecs :: int
  ps_TCPKeepAliveSecs :: int
  ps_PerIPMaxActiveConns :: int
  ps_DialTimeoutSecs :: int
  ps_MinThroughputBytes :: int
  ps_MinThroughputWindowSecs :: int
  ps_MinThroughputGraceSecs :: int

record Config =
  c_Proxy :: ProxySettingsT
  c_Upstreams :: "(string, Upstream) gomap"

definition zero_proxy :: ProxySettingsT where
  "zero_proxy = \<lparr>ps_Listen = '''', ps_ListenTLS = '''', ps_ListenHTTP = '''', ps_Motd = '''', ps_AccessLog = '''',
     ps_ErrorLog = '''', ps_TLSCertFile = '''', ps_TLSKeyFile = '''', ps_RelayIdleTimeoutSecs = 0,
     ps_RelayMaxDurationSecs = 0, ps_TCPKeepAliveSecs = 0, ps_PerIPMaxActiveConns = 0, ps_DialTimeoutSecs = 0,
     ps_MinThroughputBytes = 0, ps_MinThroughputWindowSecs = 0, ps_MinThroughputGraceSecs = 0\<rparr>"

section \<open>Server state\<close>

record Target =
  t_Upstream :: string
  t_Addr :: string
  t_UseProxyProtocol :: bool

record upstreamConfig =
  uc_Name :: string
  uc_Target :: Target
  uc_Modules :: "string list"
  uc_DiscoverModules :: bool
  uc_MaxActiveConns :: int
  uc_MaxQueuedConns :: int
  uc_PerIPMaxActiveConns :: int

text \<open>A listener: its identity among the sockets of the process and its resolved address.\<close>

record listener =
  lst_Id :: nat
  lst_Addr :: string

record Server =
  s_ListenAddr :: string
  s_TLSListenAddr :: string
  s_HTTPListenAddr :: string
  s_ReadTimeout :: int
  s_WriteTimeout :: int
  s_RelayIdleTimeout :: int
  s_RelayMaxDuration :: int
  s_TCPKeepAlive :: int
  s_MinThroughputBytes :: int
  s_MinThroughputWindow :: int
  s_MinThroughputGrace :: int
  s_Motd :: string
  s_accessLog :: FileLogger
  s_errorLog :: FileLogger
  s_files :: Files
  s_dialer_KeepAlive :: int
  s_dialer_Timeout :: int
  s_modules :: "(string, Target list) gomap"
  s_upstreams :: "upstreamConfig list"
  s_tlsCertificate :: "string option"
  s_upstreamQueues :: "(string, nat) gomap"
  s_queue_heap :: "Queue list"
  s_TCPListener :: "listener option"
  s_TLSListener :: "listener option"
  s_HTTPListener :: "listener option"

definition discard_logger :: FileLogger where
  "discard_logger = \<lparr>fl_filename = '''', fl_f = None, fl_out = None\<rparr>"

definition NewServer :: Server where
  "NewServer = \<lparr>s_ListenAddr = '''', s_TLSListenAddr = '''', s_HTTPListenAddr = '''', s_ReadTimeout = 0, s_WriteTimeout = 0,
     s_RelayIdleTimeout = 0, s_RelayMaxDuration = 0, s_TCPKeepAlive = 0, s_MinThroughputBytes = 0,
     s_MinThroughputWindow = 0, s_MinThroughputGrace = 0, s_Motd = '''',
     s_accessLog = discard_logger, s_errorLog = discard_logger, s_files = \<lparr>fs_open = [], fs_next = 0\<rparr>,
     s_dialer_KeepAlive = 0, s_dialer_Timeout = 0, s_modules = [], s_upstreams = [], s_tlsCertificate = None,
     s_upstreamQueues = [], s_queue_heap = [], s_TCPListener = None, s_TLSListener = None, s_HTTPListener = None\<rparr>"

record Peer =
  pe_data :: string
  pe_err :: string
  pe_write :: "nat \<Rightarrow> string option"

record Env =
  e_OS :: OS
  e_LoadX509KeyPair :: "string \<Rightarrow> string \<Rightarrow> string + string"
  e_ResolveTCPAddr :: "string \<Rightarrow> string option"
  e_Dial :: "string \<Rightarrow> string + Peer"

section \<open>Addresses (\<open>utils.go\<close>)\<close>

definition validateTCPOrUnixAddr :: "Env \<Rightarrow> string \<Rightarrow> string option" where
  "validateTCPOrUnixAddr env addr = (if HasPrefix addr ''/'' then None else e_ResolveTCPAddr env addr)"

definition addDefaultTCPPort :: "string \<Rightarrow> string \<Rightarrow> string" where
  "addDefaultTCPPort addr defaultPort =
     (if HasPrefix addr ''/'' then addr
      else (case SplitHostPort addr of
              Inl MissingPort \<Rightarrow> JoinHostPort addr defaultPort
            | _ \<Rightarrow> addr))"

section \<open>Module discovery\<close>

definition lineFeed :: char where
  "lineFeed = CHR 0x0A"

definition RsyncdVersionPrefix :: string where
  "RsyncdVersionPrefix = ''@RSYNCD:''"

definition RsyncdServerVersion :: string where
  "RsyncdServerVersion = ''@RSYNCD: 32.0 sha512 sha256 sha1 md5 md4'' @ [lineFeed]"

text \<open>\<open>bufio.Reader.ReadString('\n')\<close>: the bytes up to and including the next line feed.\<close>

definition ReadString :: "string \<Rightarrow> (string \<times> string) option" where
  "ReadString s =
     (let l = takeWhile (\<lambda>c. c \<noteq> lineFeed) s in
      if length l < length s then Some (l @ [lineFeed], drop (Suc (length l)) s) else None)"

definition is_space :: "char \<Rightarrow> bool" where
  "is_space c \<longleftrightarrow> c \<in> {CHR 0x09, CHR 0x0A, CHR 0x0B, CHR 0x0C, CHR 0x0D, CHR '' ''}"

text \<open>\<open>strings.Fields\<close> of an ASCII line.\<close>

definition first_field :: "string \<Rightarrow> string option" where
  "first_field s = (let t = dropWhile is_space s in if t = [] then None else Some (takeWhile (\<lambda>c. \<not> is_space c) t))"

text \<open>
  The loop over the module list: a blank line discards what was read so far (it was part of a
  message of the day), a line with the protocol prefix ends the list.
\<close>

lemma ReadString_shorter: "ReadString s = Some (l, rest) \<Longrightarrow> length rest < length s"
  by (auto simp: ReadString_def Let_def split: if_splits)

function read_modules :: "string \<Rightarrow> string list \<Rightarrow> string list option" where
  "read_modules s modules =
     (case ReadString s of
        None \<Rightarrow> None
      | Some (line, rest) \<Rightarrow>
          (let line' = TrimSuffix line [lineFeed] in
           if HasPrefix line' RsyncdVersionPrefix then Some modules
           else (case first_field line' of
                   None \<Rightarrow> read_modules rest []
                 | Some f \<Rightarrow> read_modules rest (modules @ [f]))))"
  by pat_completeness auto
termination
  by (relation "measure (\<lambda>(s, ms). length s)") (auto dest: ReadString_shorter)

declare read_modules.simps [simp del]

definition discoverModulesFromUpstream :: "Env \<Rightarrow> upstreamConfig \<Rightarrow> string + string list" where
  "discoverModulesFromUpstream env upstream =
     (let addr = addDefaultTCPPort (t_Addr (uc_Target upstream)) ''873'' in
      case e_Dial env addr of
        Inl err \<Rightarrow> Inl (''dial: '' @ err)
      | Inr peer \<Rightarrow>
          (let proxy = t_UseProxyProtocol (uc_Target upstream); w = (if proxy then 1 else 0) in
           case (if proxy then pe_write peer 0 else None) of
             Some err \<Rightarrow> Inl (''send proxy protocol header: '' @ err)
           | None \<Rightarrow>
          (case pe_write peer w of
             Some err \<Rightarrow> Inl (''send version: '' @ err)
           | None \<Rightarrow>
          (case ReadString (pe_data peer) of
             None \<Rightarrow> Inl (''read version: '' @ pe_err peer)
           | Some (line, rest) \<Rightarrow>
               if \<not> HasPrefix line RsyncdVersionPrefix then Inl (''unexpected version response: '' @ Quote line)
               else
          (case pe_write peer (w + 1) of
             Some err \<Rightarrow> Inl (''request module list: '' @ err)
           | None \<Rightarrow>
          (case read_modules rest [] of
             None \<Rightarrow> Inl (''read module list: '' @ pe_err peer)
           | Some modules \<Rightarrow> Inr (sort modules)))))))"

definition DiscoverModulesWithProxyProtocol :: "Env \<Rightarrow> string \<Rightarrow> bool \<Rightarrow> string + string list" where
  "DiscoverModulesWithProxyProtocol env addr useProxyProtocol =
     discoverModulesFromUpstream env
       \<lparr>uc_Name = addr, uc_Target = \<lparr>t_Upstream = addr, t_Addr = addr, t_UseProxyProtocol = useProxyProtocol\<rparr>, uc_Modules = [],
        uc_DiscoverModules = False, uc_MaxActiveConns = 0, uc_MaxQueuedConns = 0, uc_PerIPMaxActiveConns = 0\<rparr>"

fun discoverConfiguredModules :: "Env \<Rightarrow> upstreamConfig list \<Rightarrow> (string, string list) gomap \<Rightarrow>
    string + (string, string list) gomap" where
  "discoverConfiguredModules env [] discovered = Inr discovered"
| "discoverConfiguredModules env (upstream # upstreams) discovered =
     (if \<not> uc_DiscoverModules upstream then discoverConfiguredModules env upstreams discovered
      else case discoverModulesFromUpstream env upstream of
        Inl err \<Rightarrow> Inl (''discover modules from upstream '' @ uc_Name upstream @ '' ('' @ t_Addr (uc_Target upstream) @ ''): '' @ err)
      | Inr modules \<Rightarrow> discoverConfiguredModules env upstreams (AList.update (uc_Name upstream) modules discovered))"

section \<open>Loading a configuration\<close>

definition resolveUpstreams :: "upstreamConfig list \<Rightarrow> (string, string list) gomap \<Rightarrow> upstreamConfig list" where
  "resolveUpstreams upstreams discovered =
     map (\<lambda>u. u\<lparr>uc_Modules := (if uc_DiscoverModules u
       then (case map_of discovered (uc_Name u) of None \<Rightarrow> [] | Some ms \<Rightarrow> ms) else uc_Modules u)\<rparr>) upstreams"

fun add_targets :: "Target \<Rightarrow> string list \<Rightarrow> (string, Target list) gomap \<Rightarrow> (string, Target list) gomap" where
  "add_targets t [] modules = modules"
| "add_targets t (m # ms) modules =
     add_targets t ms (AList.update m ((case map_of modules m of None \<Rightarrow> [] | Some ts \<Rightarrow> ts) @ [t]) modules)"

definition buildModuleTargets :: "upstreamConfig list \<Rightarrow> (string, Target list) gomap" where
  "buildModuleTargets upstreams = fold (\<lambda>u. add_targets (uc_Target u) (uc_Modules u)) upstreams []"

text \<open>The queues of the new table: the old pointer under the new limits, or a fresh queue.\<close>

definition update_queue :: "(string, nat) gomap \<Rightarrow> upstreamConfig \<Rightarrow> (string, nat) gomap \<times> Queue list \<Rightarrow>
    chan_error + ((string, nat) gomap \<times> Queue list)" where
  "update_queue old u st =
     (let (queues, heap) = st in
      case map_of old (uc_Name u) of
        None \<Rightarrow>
          Inr (AList.update (uc_Name u) (length heap) queues, heap @ [New (uc_MaxActiveConns u) (uc_MaxQueuedConns u)])
      | Some p \<Rightarrow>
          bindE (SetMax (uc_MaxActiveConns u) (uc_MaxQueuedConns u) (heap ! p))
            (\<lambda>q. Inr (AList.update (uc_Name u) p queues, heap[p := q])))"

definition updateUpstreamQueuesLocked :: "(string, nat) gomap \<Rightarrow> upstreamConfig list \<Rightarrow> Queue list \<Rightarrow>
    chan_error + ((string, nat) gomap \<times> Queue list)" where
  "updateUpstreamQueuesLocked old us heap = foldE (update_queue old) us ([], heap)"

text \<open>\<open>time.Duration(n) * time.Second\<close>, a product of signed 64-bit integers.\<close>

definition wrap64 :: "int \<Rightarrow> int" where
  "wrap64 i = (i + 2 ^ 63) mod 2 ^ 64 - 2 ^ 63"

definition seconds :: "int \<Rightarrow> int" where
  "seconds n = wrap64 (n * 1000000000)"

definition non_negative :: "string \<Rightarrow> int \<Rightarrow> string option" where
  "non_negative name v = (if v < 0 then Some (name @ '' must be non-negative, got '' @ Itoa v) else None)"

fun first_error :: "string option list \<Rightarrow> string option" where
  "first_error [] = None"
| "first_error (None # es) = first_error es"
| "first_error (Some e # es) = Some e"

definition check_tls :: "Env \<Rightarrow> ProxySettingsT \<Rightarrow> Server \<Rightarrow> string + string option" where
  "check_tls env p s =
     (let serverStarted = (s_TCPListener s \<noteq> None \<or> s_HTTPListener s \<noteq> None \<or> s_TLSListener s \<noteq> None) in
      if serverStarted \<and> s_TLSListener s = None \<and> ps_ListenTLS p \<noteq> '''' then
        Inl ''listen_tls cannot be enabled on reload; restart required''
      else if serverStarted \<and> s_TLSListener s \<noteq> None \<and> ps_ListenTLS p = '''' then
        Inl ''listen_tls cannot be disabled on reload; restart required''
      else if ps_ListenTLS p = '''' then Inr None
      else if ps_TLSCertFile p = '''' \<or> ps_TLSKeyFile p = '''' then
        Inl ''listen_tls requires tls_cert_file and tls_key_file''
      else (case e_LoadX509KeyPair env (ps_TLSCertFile p) (ps_TLSKeyFile p) of
              Inl err \<Rightarrow> Inl (''load tls certificate: '' @ err)
            | Inr cert \<Rightarrow> Inr (Some cert)))"

definition check_proxy :: "ProxySettingsT \<Rightarrow> string option" where
  "check_proxy p = first_error
     [non_negative ''relay_max_duration'' (ps_RelayMaxDurationSecs p),
      non_negative ''tcp_keepalive'' (ps_TCPKeepAliveSecs p),
      non_negative ''per_ip_max_active_connections'' (ps_PerIPMaxActiveConns p),
      non_negative ''dial_timeout'' (ps_DialTimeoutSecs p),
      non_negative ''min_throughput_bytes'' (ps_MinThroughputBytes p),
      non_negative ''min_throughput_window'' (ps_MinThroughputWindowSecs p),
      non_negative ''min_throughput_grace'' (ps_MinThroughputGraceSecs p)]"

definition check_upstream :: "Env \<Rightarrow> Config \<Rightarrow> string \<times> Upstream \<Rightarrow> string + upstreamConfig" where
  "check_upstream env c nv =
     (let (upstreamName, v) = nv in
      if u_Modules v = [] \<and> \<not> u_DiscoverModules v then
        Inl (''upstream='' @ upstreamName @ '' must set modules or discover_modules'')
      else if u_PerIPMaxActiveConns v < 0 then
        Inl (''upstream='' @ upstreamName @ '': per_ip_max_active_connections must be non-negative, got '' @
          Itoa (u_PerIPMaxActiveConns v))
      else case validateTCPOrUnixAddr env (u_Address v) of
        Some err \<Rightarrow> Inl (''resolve address: '' @ err @ '', upstream='' @ upstreamName @ '', address='' @ u_Address v)
      | None \<Rightarrow>
          (let effectivePerIP = (if u_PerIPMaxActiveConns v = 0 then ps_PerIPMaxActiveConns (c_Proxy c)
                                 else u_PerIPMaxActiveConns v) in
           Inr \<lparr>uc_Name = upstreamName,
                uc_Target = \<lparr>t_Upstream = upstreamName, t_Addr = u_Address v, t_UseProxyProtocol = u_UseProxyProtocol v\<rparr>,
                uc_Modules = u_Modules v, uc_DiscoverModules = u_DiscoverModules v,
                uc_MaxActiveConns = u_MaxActiveConns v, uc_MaxQueuedConns = u_MaxQueuedConns v,
                uc_PerIPMaxActiveConns = effectivePerIP\<rparr>))"

text \<open>The upstreams in the order of their sorted names.\<close>

definition sorted_upstreams :: "Config \<Rightarrow> (string \<times> Upstream) list" where
  "sorted_upstreams c = map (\<lambda>n. (n, the (map_of (c_Upstreams c) n))) (sort (map fst (c_Upstreams c)))"

text \<open>Everything before the reload lock is taken: it only reads the server.\<close>

definition check_config :: "Env \<Rightarrow> Config \<Rightarrow> Server \<Rightarrow> string + (string option \<times> upstreamConfig list)" where
  "check_config env c s =
     bindE (check_tls env (c_Proxy c) s) (\<lambda>cert.
     case check_proxy (c_Proxy c) of
       Some e \<Rightarrow> Inl e
     | None \<Rightarrow> bindE (mapE (check_upstream env c) (sorted_upstreams c)) (\<lambda>us. Inr (cert, us)))"

definition set_addrs :: "ProxySettingsT \<Rightarrow> Server \<Rightarrow> Server" where
  "set_addrs p s = s
     \<lparr>s_ListenAddr := (if s_ListenAddr s = '''' then ps_Listen p else s_ListenAddr s),
      s_TLSListenAddr := (if s_TLSListenAddr s = '''' then ps_ListenTLS p else s_TLSListenAddr s),
      s_HTTPListenAddr := (if s_HTTPListenAddr s = '''' then ps_ListenHTTP p else s_HTTPListenAddr s)\<rparr>"

text \<open>Opening the two log files; the second one is not touched when the first fails.\<close>

definition set_logs :: "Env \<Rightarrow> ProxySettingsT \<Rightarrow> Server \<Rightarrow> Server \<times> string option" where
  "set_logs env p s =
     (case SetFile (e_OS env) (ps_AccessLog p) (s_accessLog s) (s_files s) of
        (Some err, l, fs) \<Rightarrow> (s\<lparr>s_accessLog := l, s_files := fs\<rparr>, Some err)
      | (None, l, fs) \<Rightarrow>
          (case SetFile (e_OS env) (ps_ErrorLog p) (s_errorLog s) fs of
             (err, l', fs') \<Rightarrow> (s\<lparr>s_accessLog := l, s_errorLog := l', s_files := fs'\<rparr>, err)))"

definition set_timings :: "ProxySettingsT \<Rightarrow> Server \<Rightarrow> Server" where
  "set_timings p s =
     (let windowSecs = (if ps_MinThroughputWindowSecs p = 0 then 60 else ps_MinThroughputWindowSecs p);
          graceSecs = (if ps_MinThroughputGraceSecs p = 0 then windowSecs else ps_MinThroughputGraceSecs p) in
      s\<lparr>s_RelayIdleTimeout := seconds (ps_RelayIdleTimeoutSecs p),
        s_RelayMaxDuration := seconds (ps_RelayMaxDurationSecs p),
        s_TCPKeepAlive := seconds (ps_TCPKeepAliveSecs p),
        s_MinThroughputBytes := ps_MinThroughputBytes p,
        s_MinThroughputWindow := seconds windowSecs,
        s_MinThroughputGrace := seconds graceSecs,
        s_dialer_KeepAlive := seconds (ps_TCPKeepAliveSecs p),
        s_dialer_Timeout := seconds (ps_DialTimeoutSecs p)\<rparr>)"

definition loadConfig :: "Env \<Rightarrow> Config \<Rightarrow> bool \<Rightarrow> Server \<Rightarrow> chan_error + (Server \<times> string option)" where
  "loadConfig env c openLog s =
     (case check_config env c s of
        Inl err \<Rightarrow> Inr (s, Some err)
      | Inr (tlsCertificate, upstreams) \<Rightarrow>
     (case (if openLog then discoverConfiguredModules env upstreams [] else Inr []) of
        Inl err \<Rightarrow> Inr (s, Some err)
      | Inr discovered \<Rightarrow>
     (let resolved = resolveUpstreams upstreams discovered;
          modules = buildModuleTargets resolved;
          s1 = set_addrs (c_Proxy c) s in
      case (if openLog then set_logs env (c_Proxy c) s1 else (s1, None)) of
        (s2, Some err) \<Rightarrow> Inr (s2, Some err)
      | (s2, None) \<Rightarrow>
     (let s3 = s2\<lparr>s_Motd := ps_Motd (c_Proxy c)\<rparr> in
      if ps_RelayIdleTimeoutSecs (c_Proxy c) < 0 then
        Inr (s3, Some (''relay_idle_timeout must be non-negative, got '' @ Itoa (ps_RelayIdleTimeoutSecs (c_Proxy c))))
      else
        bindE (updateUpstreamQueuesLocked (s_upstreamQueues s3) resolved (s_queue_heap s3)) (\<lambda>(queues, heap).
          Inr ((set_timings (c_Proxy c) s3)
            \<lparr>s_modules := modules, s_upstreams := resolved, s_upstreamQueues := queues, s_queue_heap := heap,
             s_tlsCertificate := tlsCertificate\<rparr>, None))))))"

definition ApplyConfig :: "Env \<Rightarrow> Config \<Rightarrow> bool \<Rightarrow> Server \<Rightarrow> chan_error + (Server \<times> string option)" where
  "ApplyConfig env c openLog s = loadConfig env c openLog s"

section \<open>Reading the configuration\<close>

definition getTargetsForModule :: "Server \<Rightarrow> string \<Rightarrow> Target list option" where
  "getTargetsForModule s moduleName = map_of (s_modules s) moduleName"

definition getQueueForUpstream :: "Server \<Rightarrow> string \<Rightarrow> nat option" where
  "getQueueForUpstream s name = map_of (s_upstreamQueues s) name"

definition getDialer :: "Server \<Rightarrow> int \<times> int" where
  "getDialer s = (s_dialer_KeepAlive s, s_dialer_Timeout s)"

record relayTimings =
  rt_idle :: int
  rt_maxDuration :: int
  rt_tcpKeepAlive :: int
  rt_minBytes :: int
  rt_minWindow :: int
  rt_minGrace :: int

definition getRelayTimings :: "Server \<Rightarrow> relayTimings" where
  "getRelayTimings s = \<lparr>rt_idle = s_RelayIdleTimeout s, rt_maxDuration = s_RelayMaxDuration s,
     rt_tcpKeepAlive = s_TCPKeepAlive s, rt_minBytes = s_MinThroughputBytes s,
     rt_minWindow = s_MinThroughputWindow s, rt_minGrace = s_MinThroughputGrace s\<rparr>"

definition getTCPKeepAlive :: "Server \<Rightarrow> int" where
  "getTCPKeepAlive s = s_TCPKeepAlive s"

definition getPerIPLimitForUpstream :: "Server \<Rightarrow> string \<Rightarrow> int" where
  "getPerIPLimitForUpstream s name =
     (case find (\<lambda>u. uc_Name u = name) (s_upstreams s) of Some u \<Rightarrow> uc_PerIPMaxActiveConns u | None \<Rightarrow> 0)"

definition ListUpstreamModules :: "Env \<Rightarrow> Server \<Rightarrow> string \<Rightarrow> bool \<Rightarrow> string + string list" where
  "ListUpstreamModules env s name forceDiscover =
     (case find (\<lambda>u. \<not> uc_Name u \<noteq> name) (s_upstreams s) of
        None \<Rightarrow> Inl (''unknown upstream: '' @ name)
      | Some u \<Rightarrow>
          if forceDiscover then
            (case discoverModulesFromUpstream env u of
               Inl err \<Rightarrow> Inl (''discover modules from upstream '' @ uc_Name u @ '' ('' @ t_Addr (uc_Target u) @ ''): '' @ err)
             | Inr ms \<Rightarrow> Inr ms)
          else Inr (sort (uc_Modules u)))"

definition getTLSCertificate :: "Server \<Rightarrow> string + string" where
  "getTLSCertificate s =
     (case s_tlsCertificate s of None \<Rightarrow> Inl ''tls certificate is not configured'' | Some cert \<Rightarrow> Inr cert)"

text \<open>The bytes \<open>listAllModules\<close> writes to the client.\<close>

definition RsyncdExit :: string where
  "RsyncdExit = ''@RSYNCD: EXIT'' @ [lineFeed]"

definition listAllModules :: "Server \<Rightarrow> string" where
  "listAllModules s = concat (map (\<lambda>name. name @ [lineFeed]) (sort (map fst (s_modules s)))) @ RsyncdExit"

section \<open>The module table\<close>

definition targets_of :: "upstreamConfig list \<Rightarrow> string \<Rightarrow> Target list" where
  "targets_of us m = concat (map (\<lambda>u. replicate (count_list (uc_Modules u) m) (uc_Target u)) us)"

definition lookup_or_nil :: "(string, Target list) gomap \<Rightarrow> string \<Rightarrow> Target list" where
  "lookup_or_nil mods m = (case map_of mods m of None \<Rightarrow> [] | Some ts \<Rightarrow> ts)"

definition no_empty_entry :: "(string, Target list) gomap \<Rightarrow> bool" where
  "no_empty_entry mods \<longleftrightarrow> (\<forall>m. map_of mods m \<noteq> Some [])"

lemma add_targets_lookup:
  "lookup_or_nil (add_targets t ms mods) m = lookup_or_nil mods m @ replicate (count_list ms m) t"
proof (induction t ms mods rule: add_targets.induct)
  case (2 t k ms mods)
  show ?case
  proof (cases "k = m")
    case True
    with 2 show ?thesis
      by (simp add: lookup_or_nil_def update_conv)
  qed (use 2 in \<open>simp add: lookup_or_nil_def update_conv\<close>)
qed simp

lemma add_targets_no_empty: "no_empty_entry mods \<Longrightarrow> no_empty_entry (add_targets t ms mods)"
  by (induction t ms mods rule: add_targets.induct) (simp_all add: no_empty_entry_def update_conv)

lemma add_targets_wf: "gm_wf mods \<Longrightarrow> gm_wf (add_targets t ms mods)"
  by (induction t ms mods rule: add_targets.induct) (simp_all add: distinct_update)

lemma buildModuleTargets_fold:
  "no_empty_entry mods \<Longrightarrow> gm_wf mods \<Longrightarrow>
   let mods' = fold (\<lambda>u. add_targets (uc_Target u) (uc_Modules u)) us mods in
     no_empty_entry mods' \<and> gm_wf mods' \<and> lookup_or_nil mods' m = lookup_or_nil mods m @ targets_of us m"
  by (induction us arbitrary: mods)
    (simp_all add: targets_of_def Let_def add_targets_no_empty add_targets_wf add_targets_lookup)

lemma buildModuleTargets_lookup:
  "map_of (buildModuleTargets us) m = (if targets_of us m = [] then None else Some (targets_of us m))"
proof -
  have "no_empty_entry (buildModuleTargets us) \<and> lookup_or_nil (buildModuleTargets us) m = targets_of us m"
    using buildModuleTargets_fold [of "[]" us m]
    by (simp add: buildModuleTargets_def Let_def no_empty_entry_def lookup_or_nil_def)
  then show ?thesis
    by (auto simp: no_empty_entry_def lookup_or_nil_def split: option.splits)
qed

lemma buildModuleTargets_wf: "gm_wf (buildModuleTargets us)"
  using buildModuleTargets_fold [of "[]" us] by (simp add: buildModuleTargets_def Let_def no_empty_entry_def)

lemma targets_of_set: "t \<in> set (targets_of us m) \<longleftrightarrow> (\<exists>u\<in>set us. m \<in> set (uc_Modules u) \<and> uc_Target u = t)"
  by (auto simp: targets_of_def count_list_0_iff)

section \<open>The queues of a server\<close>

text \<open>
  What every server satisfies: the queue pointers are valid and unshared, every queue is a reachable
  state of the admission queue, and every target of the module table has a queue.
\<close>

definition queues_ok :: "(string, nat) gomap \<Rightarrow> Queue list \<Rightarrow> bool" where
  "queues_ok queues heap \<longleftrightarrow>
     gm_wf queues \<and> distinct (map snd queues) \<and> (\<forall>(n, p)\<in>set queues. p < length heap) \<and> (\<forall>q\<in>set heap. q_reachable q)"

definition srv_inv :: "Server \<Rightarrow> bool" where
  "srv_inv s \<longleftrightarrow> queues_ok (s_upstreamQueues s) (s_queue_heap s) \<and>
     (\<forall>m ts. map_of (s_modules s) m = Some ts \<longrightarrow>
        ts \<noteq> [] \<and> (\<forall>t\<in>set ts. map_of (s_upstreamQueues s) (t_Upstream t) \<noteq> None))"

lemma srv_inv_NewServer: "srv_inv NewServer"
  by (simp add: srv_inv_def queues_ok_def NewServer_def)

lemma SetMax_reachable:
  assumes "q_reachable q"
  shows "\<exists>q'. SetMax m n q = Inr q' \<and> q_reachable q' \<and> aq_abs q' = ad_resize m n (aq_abs q)"
proof -
  have "aq_inv q" using assms by (rule queue_runs.reachable_inv)
  then obtain q' where q': "SetMax m n q = Inr q'" "aq_abs q' = ad_resize m n (aq_abs q)"
    using aq.resize_law by blast
  moreover have "q_reachable q'" using assms by (rule reachable_from.move) (rule q_step.resize [OF q'(1)])
  ultimately show ?thesis by blast
qed


definition old_pointers :: "(string, nat) gomap \<Rightarrow> upstreamConfig list \<Rightarrow> nat set" where
  "old_pointers old us = {p. \<exists>u\<in>set us. map_of old (uc_Name u) = Some p}"

text \<open>What the update does for one upstream.\<close>

definition queue_updated :: "(string, nat) gomap \<Rightarrow> Queue list \<Rightarrow> (string, nat) gomap \<Rightarrow> Queue list \<Rightarrow> upstreamConfig \<Rightarrow> bool" where
  "queue_updated old heap queues' heap' u \<longleftrightarrow>
     (case map_of old (uc_Name u) of
        Some p \<Rightarrow> map_of queues' (uc_Name u) = Some p \<and>
          SetMax (uc_MaxActiveConns u) (uc_MaxQueuedConns u) (heap ! p) = Inr (heap' ! p)
      | None \<Rightarrow> \<exists>p. map_of queues' (uc_Name u) = Some p \<and> length heap \<le> p \<and> p < length heap' \<and>
          heap' ! p = New (uc_MaxActiveConns u) (uc_MaxQueuedConns u))"

lemma queues_ok_insert:
  assumes "queues_ok queues heap" "p \<notin> set (map snd queues)" "n \<notin> set (map fst queues)" "p < length heap'"
    and "length heap \<le> length heap'" "\<forall>q\<in>set heap'. q_reachable q"
  shows "queues_ok (AList.update n p queues) heap'"
proof -
  have "AList.update n p queues = queues @ [(n, p)]"
    using assms(3) by (induction queues) auto
  then show ?thesis using assms by (fastforce simp: queues_ok_def)
qed

text \<open>The state of the loop after the upstreams \<open>us\<close>, from the heap \<open>heap0\<close>.\<close>

definition queues_after :: "(string, nat) gomap \<Rightarrow> Queue list \<Rightarrow> upstreamConfig list \<Rightarrow> (string, nat) gomap \<times> Queue list \<Rightarrow> bool" where
  "queues_after old heap0 us st \<longleftrightarrow>
     (let (queues, heap) = st in
      queues_ok queues heap \<and> length heap0 \<le> length heap \<and> fst ` set queues = uc_Name ` set us \<and>
      (\<forall>n p. (n, p) \<in> set queues \<longrightarrow> map_of old n = Some p \<or> length heap0 \<le> p) \<and>
      (\<forall>p < length heap0. p \<notin> old_pointers old us \<longrightarrow> heap ! p = heap0 ! p) \<and>
      (\<forall>u\<in>set us. queue_updated old heap0 queues heap u))"

lemma update_absent: "n \<notin> set (map fst queues) \<Longrightarrow> AList.update n p queues = queues @ [(n, p)]"
  by (induction queues) auto

lemma queue_updated_keep:
  assumes "queue_updated old heap0 queues heap u" "uc_Name u \<noteq> n"
    and "\<And>p. map_of queues (uc_Name u) = Some p \<Longrightarrow> p < length heap' \<and> heap' ! p = heap ! p"
    and "n \<notin> set (map fst queues)" "length heap \<le> length heap'"
  shows "queue_updated old heap0 (queues @ [(n, p)]) heap' u"
  using assms unfolding queue_updated_def by (fastforce split: option.splits)

lemma queues_after_pointer:
  assumes "queues_after old heap0 us (queues, heap)" "map_of queues n = Some p"
  shows "p < length heap" "map_of old n = Some p \<or> length heap0 \<le> p" "n \<in> uc_Name ` set us"
proof -
  from assms(2) have "(n, p) \<in> set queues" by (rule map_of_SomeD)
  with assms(1) show "p < length heap" "map_of old n = Some p \<or> length heap0 \<le> p" "n \<in> uc_Name ` set us"
    by (auto simp: queues_after_def queues_ok_def) (metis fst_conv image_eqI)
qed

lemma update_queue_fresh:
  assumes "queues_after old heap0 us (queues, heap)" "uc_Name u \<notin> uc_Name ` set us" "map_of old (uc_Name u) = None"
  shows "queues_after old heap0 (us @ [u])
    (queues @ [(uc_Name u, length heap)], heap @ [New (uc_MaxActiveConns u) (uc_MaxQueuedConns u)])"
proof -
  note a = assms(1) [unfolded queues_after_def Let_def prod.case]
  have n: "uc_Name u \<notin> set (map fst queues)" using a assms(2) by simp
  then have none: "map_of queues (uc_Name u) = None" by (simp add: map_of_eq_None_iff)
  have "length heap \<notin> set (map snd queues)" using a by (fastforce simp: queues_ok_def)
  then have "queues_ok (queues @ [(uc_Name u, length heap)]) (heap @ [New (uc_MaxActiveConns u) (uc_MaxQueuedConns u)])"
    using queues_ok_insert [of queues heap "length heap" "uc_Name u" "heap @ [New (uc_MaxActiveConns u) (uc_MaxQueuedConns u)]"]
      a n New_reachable by (simp add: update_absent queues_ok_def)
  moreover have "queue_updated old heap0 (queues @ [(uc_Name u, length heap)])
      (heap @ [New (uc_MaxActiveConns u) (uc_MaxQueuedConns u)]) v" if "v \<in> set us" for v
  proof (rule queue_updated_keep [where heap = heap])
    show "queue_updated old heap0 queues heap v" using a that by blast
    show "uc_Name v \<noteq> uc_Name u" using that assms(2) by (metis image_eqI)
    show "p < length (heap @ [New (uc_MaxActiveConns u) (uc_MaxQueuedConns u)]) \<and>
        (heap @ [New (uc_MaxActiveConns u) (uc_MaxQueuedConns u)]) ! p = heap ! p" if "map_of queues (uc_Name v) = Some p" for p
      using queues_after_pointer(1) [OF assms(1) that] by (simp add: nth_append)
  qed (simp_all add: n del: set_map)
  moreover have "queue_updated old heap0 (queues @ [(uc_Name u, length heap)])
      (heap @ [New (uc_MaxActiveConns u) (uc_MaxQueuedConns u)]) u"
    using none a assms(3) by (simp add: queue_updated_def map_add_def)
  moreover have "old_pointers old (us @ [u]) = old_pointers old us" using assms(3) by (auto simp: old_pointers_def)
  ultimately show ?thesis using a unfolding queues_after_def by (auto simp: nth_append)
qed

lemma update_queue_kept:
  assumes "queues_after old heap0 us (queues, heap)" "uc_Name u \<notin> uc_Name ` set us" "map_of old (uc_Name u) = Some p"
    and "p < length heap0" "\<And>n. map_of old n = Some p \<Longrightarrow> n = uc_Name u"
    and "SetMax (uc_MaxActiveConns u) (uc_MaxQueuedConns u) (heap ! p) = Inr q" "q_reachable q"
  shows "queues_after old heap0 (us @ [u]) (queues @ [(uc_Name u, p)], heap[p := q])"
proof -
  note a = assms(1) [unfolded queues_after_def Let_def prod.case]
  have n: "uc_Name u \<notin> set (map fst queues)" using a assms(2) by simp
  then have none: "map_of queues (uc_Name u) = None" by (simp add: map_of_eq_None_iff)
  have p: "p < length heap" using a assms(4) by simp
  have other: "p' \<noteq> p" if "map_of queues n' = Some p'" for n' p'
    using queues_after_pointer(2,3) [OF assms(1) that] assms(2,4,5) by auto
  have "p \<notin> set (map snd queues)"
    using other a by (force simp: queues_ok_def)
  then have "queues_ok (queues @ [(uc_Name u, p)]) (heap[p := q])"
    using queues_ok_insert [of queues heap p "uc_Name u" "heap[p := q]"] a n p assms(7)
    by (auto simp: update_absent queues_ok_def dest!: set_update_subset_insert [THEN subsetD])
  moreover have "queue_updated old heap0 (queues @ [(uc_Name u, p)]) (heap[p := q]) v" if "v \<in> set us" for v
  proof (rule queue_updated_keep [where heap = heap])
    show "queue_updated old heap0 queues heap v" using a that by blast
    show "uc_Name v \<noteq> uc_Name u" using that assms(2) by (metis image_eqI)
    show "p' < length (heap[p := q]) \<and> heap[p := q] ! p' = heap ! p'" if "map_of queues (uc_Name v) = Some p'" for p'
      using queues_after_pointer(1) [OF assms(1) that] other [OF that] by simp
  qed (simp_all add: n del: set_map)
  moreover have "heap ! p = heap0 ! p"
    using a assms(2,4,5) by (auto simp: old_pointers_def)
  then have "queue_updated old heap0 (queues @ [(uc_Name u, p)]) (heap[p := q]) u"
    using none p assms(3,6) by (simp add: queue_updated_def map_add_def)
  moreover have "heap[p := q] ! p' = heap0 ! p'" if "p' < length heap0" "p' \<notin> old_pointers old (us @ [u])" for p'
    using that a assms(3) by (auto simp: old_pointers_def)
  ultimately show ?thesis using a assms(3) unfolding queues_after_def by auto
qed

lemma update_queues:
  assumes "queues_ok old heap" "distinct (map uc_Name us)"
  shows "\<exists>st. updateUpstreamQueuesLocked old us heap = Inr st \<and> queues_after old heap us st"
proof -
  have old_inj: "n1 = n2" if "map_of old n1 = Some p" "map_of old n2 = Some p" for n1 n2 p
  proof -
    have "(n1, p) \<in> set old" "(n2, p) \<in> set old" using that by (auto dest: map_of_SomeD)
    then have "(n1, p) = (n2, p)"
      using assms(1) unfolding queues_ok_def distinct_map by (metis inj_onD snd_conv)
    then show ?thesis by simp
  qed
  have "\<exists>st'. foldE (update_queue old) vs st = Inr st' \<and> queues_after old heap (us1 @ vs) st'"
    if "queues_after old heap us1 st" "distinct (map uc_Name (us1 @ vs))" for us1 vs st
    using that
  proof (induction vs arbitrary: us1 st)
    case (Cons u vs)
    obtain queues h where st: "st = (queues, h)" by (cases st)
    have u: "uc_Name u \<notin> uc_Name ` set us1" using Cons.prems(2) by auto
    have n: "uc_Name u \<notin> set (map fst queues)" using Cons.prems(1) u st by (simp add: queues_after_def)
    have "\<exists>st1. update_queue old u st = Inr st1 \<and> queues_after old heap (us1 @ [u]) st1"
    proof (cases "map_of old (uc_Name u)")
      case None
      then show ?thesis using update_queue_fresh [of old heap us1 queues h u] Cons.prems(1) u n st
        by (simp add: update_queue_def update_absent del: set_map)
    next
      case (Some p)
      have p: "p < length heap" using assms(1) map_of_SomeD [OF Some] by (auto simp: queues_ok_def)
      then have "q_reachable (h ! p)" using Cons.prems(1) st by (auto simp: queues_after_def queues_ok_def)
      from SetMax_reachable [OF this] obtain q where
        q: "SetMax (uc_MaxActiveConns u) (uc_MaxQueuedConns u) (h ! p) = Inr q" "q_reachable q" by blast
      have "queues_after old heap (us1 @ [u]) (queues @ [(uc_Name u, p)], h[p := q])"
        using Cons.prems(1) [unfolded st] u Some p _ q by (rule update_queue_kept) (rule old_inj [OF _ Some])
      then show ?thesis using Some q st update_absent [OF n] by (simp add: update_queue_def)
    qed
    then show ?case using Cons.IH [of "us1 @ [u]"] Cons.prems(2) by force
  qed simp
  moreover have "queues_after old heap [] ([], heap)"
    using assms(1) by (simp add: queues_after_def queues_ok_def)
  ultimately show ?thesis using assms(2) unfolding updateUpstreamQueuesLocked_def by force
qed

section \<open>What loading a configuration does\<close>

lemma mapE_names:
  assumes "mapE (check_upstream env c) nvs = Inr us"
  shows "map uc_Name us = map fst nvs"
  using assms
proof (induction nvs arbitrary: us)
  case (Cons nv nvs)
  then obtain u us' where "us = u # us'" "check_upstream env c nv = Inr u" "mapE (check_upstream env c) nvs = Inr us'"
    by (auto simp: bindE_Inr_iff)
  moreover from this have "uc_Name u = fst nv"
    by (auto simp: check_upstream_def Let_def split: if_splits option.splits prod.splits)
  ultimately show ?case using Cons.IH by simp
qed simp

lemma mapE_targets:
  assumes "mapE (check_upstream env c) nvs = Inr us" "u \<in> set us"
  shows "t_Upstream (uc_Target u) = uc_Name u"
  using assms
proof (induction nvs arbitrary: us)
  case (Cons nv nvs)
  then obtain u' us' where "us = u' # us'" "check_upstream env c nv = Inr u'" "mapE (check_upstream env c) nvs = Inr us'"
    by (auto simp: bindE_Inr_iff)
  moreover from this have "t_Upstream (uc_Target u') = uc_Name u'"
    by (auto simp: check_upstream_def Let_def split: if_splits option.splits prod.splits)
  ultimately show ?case using Cons by auto
qed simp

lemma check_config_Inr:
  assumes "check_config env c s = Inr (cert, us)" "gm_wf (c_Upstreams c)"
  shows "mapE (check_upstream env c) (sorted_upstreams c) = Inr us" "distinct (map uc_Name us)"
    "\<forall>u\<in>set us. t_Upstream (uc_Target u) = uc_Name u" "check_tls env (c_Proxy c) s = Inr cert"
proof -
  show m: "mapE (check_upstream env c) (sorted_upstreams c) = Inr us" and "check_tls env (c_Proxy c) s = Inr cert"
    using assms(1) by (auto simp: check_config_def bindE_Inr_iff split: option.splits)
  from mapE_names [OF m] assms(2) show "distinct (map uc_Name us)"
    by (simp add: sorted_upstreams_def comp_def)
  show "\<forall>u\<in>set us. t_Upstream (uc_Target u) = uc_Name u" using mapE_targets [OF m] by blast
qed

lemma resolveUpstreams_names [simp]: "map uc_Name (resolveUpstreams us d) = map uc_Name us"
  by (simp add: resolveUpstreams_def)

lemma resolveUpstreams_targets: "\<forall>u\<in>set us. P (uc_Name u) (uc_Target u) \<Longrightarrow> \<forall>u\<in>set (resolveUpstreams us d). P (uc_Name u) (uc_Target u)"
  by (auto simp: resolveUpstreams_def)

text \<open>The fields that \<open>loadConfig\<close> installs only when it succeeds.\<close>

definition routing_state :: "Server \<Rightarrow> (string, Target list) gomap \<times> upstreamConfig list \<times> (string, nat) gomap \<times> Queue list \<times>
    relayTimings \<times> (int \<times> int) \<times> string option" where
  "routing_state s = (s_modules s, s_upstreams s, s_upstreamQueues s, s_queue_heap s, getRelayTimings s, getDialer s, s_tlsCertificate s)"

lemma set_addrs_simps [simp]:
  "routing_state (set_addrs p s) = routing_state s"
  "s_upstreamQueues (set_addrs p s) = s_upstreamQueues s" "s_queue_heap (set_addrs p s) = s_queue_heap s"
  by (simp_all add: set_addrs_def routing_state_def getRelayTimings_def getDialer_def)

lemma set_logs_simps:
  assumes "set_logs env p s = (s', e)"
  shows "routing_state s' = routing_state s" "s_upstreamQueues s' = s_upstreamQueues s" "s_queue_heap s' = s_queue_heap s"
  using assms by (auto simp: set_logs_def routing_state_def getRelayTimings_def getDialer_def split: prod.splits option.splits)

text \<open>The case analysis of a load: it fails with the routing state untouched, or installs the new tables.\<close>

lemma loadConfig_cases:
  assumes "srv_inv s" "gm_wf (c_Upstreams c)"
  obtains (failed) s' e where "loadConfig env c openLog s = Inr (s', Some e)" "routing_state s' = routing_state s"
  | (loaded) s' cert us disc queues heap where "loadConfig env c openLog s = Inr (s', None)"
      "check_config env c s = Inr (cert, us)" "0 \<le> ps_RelayIdleTimeoutSecs (c_Proxy c)"
      "(if openLog then discoverConfiguredModules env us [] else Inr []) = Inr disc"
      "updateUpstreamQueuesLocked (s_upstreamQueues s) (resolveUpstreams us disc) (s_queue_heap s) = Inr (queues, heap)"
      "queues_after (s_upstreamQueues s) (s_queue_heap s) (resolveUpstreams us disc) (queues, heap)"
      "s_modules s' = buildModuleTargets (resolveUpstreams us disc)" "s_upstreams s' = resolveUpstreams us disc"
      "s_upstreamQueues s' = queues" "s_queue_heap s' = heap" "s_tlsCertificate s' = cert"
      "\<exists>s3. getRelayTimings s' = getRelayTimings (set_timings (c_Proxy c) s3) \<and> getDialer s' = getDialer (set_timings (c_Proxy c) s3)"
proof (cases "check_config env c s")
  case (Inl e)
  then show ?thesis using failed by (simp add: loadConfig_def)
next
  case (Inr cu)
  obtain cert us where cu: "cu = (cert, us)" by (cases cu)
  note ci = check_config_Inr [OF Inr [unfolded cu] assms(2)]
  show ?thesis
  proof (cases "if openLog then discoverConfiguredModules env us [] else Inr []")
    case (Inl e)
    then show ?thesis using failed Inr cu by (simp add: loadConfig_def)
  next
    case disc: (Inr disc)
    let ?s1 = "set_addrs (c_Proxy c) s"
    obtain s2 e where s2: "(if openLog then set_logs env (c_Proxy c) ?s1 else (?s1, None)) = (s2, e)" by fastforce
    then have keep: "routing_state s2 = routing_state s" "s_upstreamQueues s2 = s_upstreamQueues s" "s_queue_heap s2 = s_queue_heap s"
      using set_logs_simps [of env "c_Proxy c" ?s1] by (auto split: if_splits)
    have keep3: "routing_state (s2\<lparr>s_Motd := m\<rparr>) = routing_state s" for m
      using keep(1) by (simp add: routing_state_def getRelayTimings_def getDialer_def)
    obtain queues heap where up: "updateUpstreamQueuesLocked (s_upstreamQueues s) (resolveUpstreams us disc) (s_queue_heap s) = Inr (queues, heap)"
      "queues_after (s_upstreamQueues s) (s_queue_heap s) (resolveUpstreams us disc) (queues, heap)"
      using update_queues [of "s_upstreamQueues s" "s_queue_heap s" "resolveUpstreams us disc"] assms(1) ci(2)
      by (auto simp: srv_inv_def)
    show ?thesis
    proof (cases e)
      case (Some err)
      then show ?thesis using failed [of s2 err] Inr cu disc s2 keep by (simp add: loadConfig_def Let_def)
    next
      case None
      show ?thesis
      proof (cases "ps_RelayIdleTimeoutSecs (c_Proxy c) < 0")
        case True
        then show ?thesis using failed None Inr cu disc s2 keep3 by (simp add: loadConfig_def Let_def)
      next
        case False
        then show ?thesis
          using loaded [of _ cert us disc queues heap] None Inr cu disc s2 keep up
          by (auto simp: loadConfig_def Let_def getRelayTimings_def getDialer_def)
      qed
    qed
  qed
qed

lemma loaded_srv_inv:
  assumes "queues_after old heap0 us (queues, heap)" "\<forall>u\<in>set us. t_Upstream (uc_Target u) = uc_Name u"
    and "s_modules s' = buildModuleTargets us" "s_upstreamQueues s' = queues" "s_queue_heap s' = heap"
  shows "srv_inv s'"
proof -
  have "map_of queues (uc_Name u) \<noteq> None" if "u \<in> set us" for u
    using assms(1) that by (simp add: queues_after_def map_of_eq_None_iff)
  then have "ts \<noteq> [] \<and> (\<forall>t\<in>set ts. map_of queues (t_Upstream t) \<noteq> None)" if "map_of (s_modules s') m = Some ts" for m ts
    using that assms(2,3) targets_of_set [of _ us m] by (auto simp: buildModuleTargets_lookup split: if_splits)
  moreover have "queues_ok queues heap" using assms(1) by (simp add: queues_after_def)
  ultimately show ?thesis using assms(4,5) by (simp add: srv_inv_def)
qed

lemma loadConfig_total:
  assumes "srv_inv s" "gm_wf (c_Upstreams c)"
  shows "\<exists>s' e. loadConfig env c openLog s = Inr (s', e) \<and> srv_inv s'"
  using assms
proof (cases rule: loadConfig_cases [where env = env and openLog = openLog])
  case (failed s' e)
  then have "srv_inv s'" using assms(1) by (simp add: routing_state_def srv_inv_def)
  with failed show ?thesis by blast
next
  case (loaded s' cert us disc queues heap)
  have "\<forall>u\<in>set (resolveUpstreams us disc). t_Upstream (uc_Target u) = uc_Name u"
    using check_config_Inr(3) [OF loaded(2) assms(2)] by (rule resolveUpstreams_targets)
  from loaded_srv_inv [OF loaded(6) this loaded(7,9,10)] loaded(1) show ?thesis by blast
qed

text \<open>C19: Loading a configuration never panics and keeps the invariant of the server: in particular every target that a module
  lookup can return has an admission queue.\<close>

theorem loadConfig_keeps_invariant:
  assumes "srv_inv s" "gm_wf (c_Upstreams c)"
  shows "\<exists>s' e. loadConfig env c openLog s = Inr (s', e) \<and> srv_inv s'"
  using assms by (rule loadConfig_total)

text \<open>C20: A configuration that is refused leaves the module table, the upstreams, the queues, the relay timings, the dialer and
  the certificate as they were.\<close>

theorem refused_config_keeps_routing:
  assumes "srv_inv s" "gm_wf (c_Upstreams c)" "loadConfig env c openLog s = Inr (s', Some e)"
  shows "routing_state s' = routing_state s"
  using assms(1,2)
proof (cases rule: loadConfig_cases [where env = env and openLog = openLog])
  case failed
  with assms(3) show ?thesis by simp
qed (use assms(3) in simp)

text \<open>It is not all-or-nothing: a negative relay_idle_timeout is refused only after the message of the day was replaced.\<close>

theorem refused_config_changes_motd:
  assumes "srv_inv s" "gm_wf (c_Upstreams c)" "check_config env c s = Inr r" "ps_RelayIdleTimeoutSecs (c_Proxy c) < 0"
  shows "\<exists>s' e. loadConfig env c False s = Inr (s', Some e) \<and> s_Motd s' = ps_Motd (c_Proxy c)"
  using assms(3,4) by (cases r) (simp add: loadConfig_def Let_def)

lemma loaded_targets:
  assumes "srv_inv s" "gm_wf (c_Upstreams c)" "loadConfig env c False s = Inr (s', None)"
  shows "getTargetsForModule s' m =
    (let ts = concat (map (\<lambda>(n, v). replicate (if u_DiscoverModules v then 0 else count_list (u_Modules v) m)
         \<lparr>t_Upstream = n, t_Addr = u_Address v, t_UseProxyProtocol = u_UseProxyProtocol v\<rparr>) (sorted_upstreams c))
     in if ts = [] then None else Some ts)"
  using assms(1,2)
proof (cases rule: loadConfig_cases [where env = env and openLog = False])
  case failed
  with assms(3) show ?thesis by simp
next
  case (loaded s'' cert us disc queues heap)
  have "targets_of (resolveUpstreams us []) m = concat (map (\<lambda>(n, v). replicate (if u_DiscoverModules v then 0 else count_list (u_Modules v) m)
         \<lparr>t_Upstream = n, t_Addr = u_Address v, t_UseProxyProtocol = u_UseProxyProtocol v\<rparr>) nvs)"
    if "mapE (check_upstream env c) nvs = Inr us" for nvs us
    using that
  proof (induction nvs arbitrary: us)
    case (Cons nv nvs)
    then obtain u us' where u: "us = u # us'" "check_upstream env c nv = Inr u" "mapE (check_upstream env c) nvs = Inr us'"
      by (auto simp: bindE_Inr_iff)
    obtain n v where nv: "nv = (n, v)" by (cases nv)
    have "uc_Target u = \<lparr>t_Upstream = n, t_Addr = u_Address v, t_UseProxyProtocol = u_UseProxyProtocol v\<rparr>"
      "uc_Modules u = u_Modules v" "uc_DiscoverModules u = u_DiscoverModules v"
      using u(2) nv by (auto simp: check_upstream_def Let_def split: if_splits option.splits)
    then show ?case using Cons.IH [OF u(3)] u(1) nv by (simp add: targets_of_def resolveUpstreams_def)
  qed (simp add: targets_of_def resolveUpstreams_def)
  from this [OF check_config_Inr(1) [OF loaded(2) assms(2)]]
  show ?thesis using loaded assms(3) by (simp add: getTargetsForModule_def buildModuleTargets_lookup Let_def)
qed

text \<open>After a successful load a module is served by exactly the targets of the upstreams that list it, in the order of the
  upstream names and independently of the iteration order of the configuration map; with discovery, by those that reported it.\<close>

theorem loaded_module_table:
  assumes "srv_inv s" "gm_wf (c_Upstreams c)" "loadConfig env c False s = Inr (s', None)"
  shows "getTargetsForModule s' m =
    (let ts = concat (map (\<lambda>(n, v). replicate (if u_DiscoverModules v then 0 else count_list (u_Modules v) m)
         \<lparr>t_Upstream = n, t_Addr = u_Address v, t_UseProxyProtocol = u_UseProxyProtocol v\<rparr>) (sorted_upstreams c))
     in if ts = [] then None else Some ts)"
  using assms by (rule loaded_targets)

text \<open>Loading does not depend on the iteration order of the map of upstreams.\<close>

theorem loadConfig_order_independent:
  assumes "gm_wf (c_Upstreams c)" "mset us = mset (c_Upstreams c)"
  shows "loadConfig env (c\<lparr>c_Upstreams := us\<rparr>) openLog s = loadConfig env c openLog s"
proof -
  have "mset (map fst us) = mset (map fst (c_Upstreams c))" using assms(2) by simp
  then have "sort (map fst us) = sort (map fst (c_Upstreams c))" "gm_wf us"
    using assms(1) mset_eq_imp_distinct_iff by (metis properties_for_sort mset_sort sorted_sort, blast)
  moreover from this have "map_of us = map_of (c_Upstreams c)"
    using assms by (metis map_of_inject_set mset_eq_setD)
  ultimately have "sorted_upstreams (c\<lparr>c_Upstreams := us\<rparr>) = sorted_upstreams c" by (simp add: sorted_upstreams_def)
  moreover have "check_upstream env (c\<lparr>c_Upstreams := us\<rparr>) = check_upstream env c"
    by (intro ext) (simp add: check_upstream_def Let_def split: prod.split option.split)
  moreover have "c_Proxy (c\<lparr>c_Upstreams := us\<rparr>) = c_Proxy c" by simp
  ultimately show ?thesis unfolding loadConfig_def check_config_def by (simp only:)
qed

text \<open>C21: An upstream that stays in the configuration keeps its queue: the same queue object with the new limits, in which every
  running connection still runs and the waiting ones keep their order.\<close>

theorem reload_keeps_queues:
  assumes "srv_inv s" "gm_wf (c_Upstreams c)" "loadConfig env c openLog s = Inr (s', None)"
    and "getQueueForUpstream s name = Some p" "map_of (c_Upstreams c) name = Some v"
  shows "getQueueForUpstream s' name = Some p \<and>
    aq_abs (s_queue_heap s' ! p) = ad_resize (u_MaxActiveConns v) (u_MaxQueuedConns v) (aq_abs (s_queue_heap s ! p)) \<and>
    set (q_active (s_queue_heap s ! p)) \<subseteq> set (q_active (s_queue_heap s' ! p))"
  using assms(1,2)
proof (cases rule: loadConfig_cases [where env = env and openLog = openLog])
  case failed
  with assms(3) show ?thesis by simp
next
  case (loaded s'' cert us disc queues heap)
  have s': "s'' = s'" using loaded(1) assms(3) by simp
  have "(name, v) \<in> set (sorted_upstreams c)"
    using assms(5) by (force simp: sorted_upstreams_def dest: map_of_SomeD)
  then obtain u where u: "u \<in> set us" "check_upstream env c (name, v) = Inr u"
    using check_config_Inr(1) [OF loaded(2) assms(2)] by (metis in_set_conv_nth mapE_Inr_length mapE_Inr_nth)
  then have "uc_Name u = name" "uc_MaxActiveConns u = u_MaxActiveConns v" "uc_MaxQueuedConns u = u_MaxQueuedConns v"
    by (auto simp: check_upstream_def Let_def split: if_splits option.splits)
  then have "\<exists>u\<in>set (resolveUpstreams us disc). uc_Name u = name \<and> uc_MaxActiveConns u = u_MaxActiveConns v \<and>
      uc_MaxQueuedConns u = u_MaxQueuedConns v"
    using u(1) by (auto simp: resolveUpstreams_def)
  then have step: "map_of queues name = Some p" "SetMax (u_MaxActiveConns v) (u_MaxQueuedConns v) (s_queue_heap s ! p) = Inr (heap ! p)"
    using loaded(6) assms(4) by (auto simp: queues_after_def queue_updated_def getQueueForUpstream_def)
  have "(name, p) \<in> set (s_upstreamQueues s)" using assms(4) by (simp add: getQueueForUpstream_def map_of_SomeD)
  then have "p < length (s_queue_heap s)" using assms(1) by (auto simp: srv_inv_def queues_ok_def)
  then have "q_reachable (s_queue_heap s ! p)" using assms(1) by (simp add: srv_inv_def queues_ok_def)
  from SetMax_reachable [OF this, of "u_MaxActiveConns v" "u_MaxQueuedConns v"] step(2)
  have abs: "aq_abs (heap ! p) = ad_resize (u_MaxActiveConns v) (u_MaxQueuedConns v) (aq_abs (s_queue_heap s ! p))" by auto
  then have "set (q_active (s_queue_heap s ! p)) \<subseteq> set (q_active (heap ! p))"
    by (auto simp: ad_resize_def ad_fill_def aq_abs_def)
  then show ?thesis using abs step loaded(9,10) s' by (simp add: getQueueForUpstream_def)
qed

text \<open>Settings in seconds become the exact duration as long as they fit a 64-bit count of nanoseconds; one more second
  wraps to a negative duration, which the relay treats as no limit.\<close>

theorem seconds_exact_then_wraps:
  "(0 \<le> n \<and> n \<le> 9223372036 \<longrightarrow> seconds n = n * 1000000000) \<and> seconds 9223372037 < 0"
  by (auto simp: seconds_def wrap64_def)

section \<open>Witnesses\<close>

definition env0 :: Env where
  "env0 = \<lparr>e_OS = os_ok, e_LoadX509KeyPair = (\<lambda>_ _. Inl ''no such file''), e_ResolveTCPAddr = (\<lambda>_. None),
     e_Dial = (\<lambda>_. Inl ''connection refused'')\<rparr>"

definition upstream0 :: "string \<Rightarrow> string list \<Rightarrow> Upstream" where
  "upstream0 addr ms = \<lparr>u_Address = addr, u_Modules = ms, u_DiscoverModules = False, u_UseProxyProtocol = False,
     u_MaxActiveConns = 2, u_MaxQueuedConns = 8, u_PerIPMaxActiveConns = 0\<rparr>"

definition conf0 :: Config where
  "conf0 = \<lparr>c_Proxy = zero_proxy\<lparr>ps_Motd := ''hi''\<rparr>,
     c_Upstreams = [(''b'', upstream0 ''10.0.0.2:873'' [''debian'']), (''a'', upstream0 ''10.0.0.1:873'' [''debian'', ''arch''])]\<rparr>"

lemma conf0_wf: "gm_wf (c_Upstreams conf0)"
  by (simp add: conf0_def)

lemma conf0_loads:
  assumes "srv_inv s" "s_TLSListener s = None"
  shows "\<exists>s'. loadConfig env0 conf0 False s = Inr (s', None) \<and> srv_inv s'"
proof -
  obtain s' e where l: "loadConfig env0 conf0 False s = Inr (s', e)" "srv_inv s'"
    using loadConfig_total [OF assms(1) conf0_wf] by blast
  have "check_tls env0 (c_Proxy conf0) s = Inr None" using assms(2) by (simp add: check_tls_def conf0_def zero_proxy_def Let_def)
  moreover have "case mapE (check_upstream env0 conf0) (sorted_upstreams conf0) of Inl e \<Rightarrow> False | Inr us \<Rightarrow> True" by code_simp
  moreover have "check_proxy (c_Proxy conf0) = None" by code_simp
  ultimately obtain us where "check_config env0 conf0 s = Inr (None, us)" by (auto simp: check_config_def split: sum.splits)
  then have "e = None" using l(1) by (auto simp: loadConfig_def Let_def conf0_def zero_proxy_def bindE_Inr_iff)
  then show ?thesis using l by blast
qed

theorem loadConfig_keeps_invariant_witness:
  "\<exists>s' e. loadConfig env0 conf0 False NewServer = Inr (s', e) \<and> srv_inv s'"
  using loadConfig_keeps_invariant [OF srv_inv_NewServer conf0_wf] by blast

definition bad_conf :: Config where
  "bad_conf = conf0\<lparr>c_Proxy := (c_Proxy conf0)\<lparr>ps_RelayIdleTimeoutSecs := -1\<rparr>\<rparr>"

lemma bad_conf_checks: "\<exists>r. check_config env0 bad_conf NewServer = Inr r"
proof -
  have "case check_config env0 bad_conf NewServer of Inl e \<Rightarrow> False | Inr r \<Rightarrow> True" by code_simp
  then show ?thesis by (simp split: sum.splits)
qed

theorem refused_config_changes_motd_witness:
  "\<exists>s' e. loadConfig env0 bad_conf False NewServer = Inr (s', Some e) \<and> s_Motd s' = ''hi'' \<and> s_Motd NewServer = ''''"
  using refused_config_changes_motd [OF srv_inv_NewServer, of bad_conf env0] bad_conf_checks
  by (auto simp: bad_conf_def conf0_def zero_proxy_def NewServer_def)

theorem refused_config_keeps_routing_witness:
  "\<exists>s' e. loadConfig env0 bad_conf False NewServer = Inr (s', Some e) \<and> routing_state s' = routing_state NewServer"
proof -
  obtain r where "check_config env0 bad_conf NewServer = Inr r" using bad_conf_checks by blast
  then obtain s' e where l: "loadConfig env0 bad_conf False NewServer = Inr (s', Some e)"
    by (cases r) (simp add: loadConfig_def Let_def bad_conf_def)
  have "gm_wf (c_Upstreams bad_conf)" using conf0_wf by (simp add: bad_conf_def)
  from refused_config_keeps_routing [OF srv_inv_NewServer this l] l show ?thesis by blast
qed

theorem loaded_module_table_witness:
  "\<exists>s'. loadConfig env0 conf0 False NewServer = Inr (s', None) \<and>
     map_option (map t_Upstream) (getTargetsForModule s' ''debian'') = Some [''a'', ''b'']"
proof -
  obtain s' where l: "loadConfig env0 conf0 False NewServer = Inr (s', None)"
    using conf0_loads [OF srv_inv_NewServer] by (auto simp: NewServer_def)
  have "map_option (map t_Upstream) (let ts = concat (map (\<lambda>(n, v). replicate (if u_DiscoverModules v then 0 else count_list (u_Modules v) ''debian'')
         \<lparr>t_Upstream = n, t_Addr = u_Address v, t_UseProxyProtocol = u_UseProxyProtocol v\<rparr>) (sorted_upstreams conf0))
     in if ts = [] then None else Some ts) = Some [''a'', ''b'']" by code_simp
  then show ?thesis
    using loaded_module_table [OF srv_inv_NewServer conf0_wf l, of "''debian''"] l by auto
qed

theorem loadConfig_order_independent_witness:
  "loadConfig env0 (conf0\<lparr>c_Upstreams := rev (c_Upstreams conf0)\<rparr>) False NewServer = loadConfig env0 conf0 False NewServer"
  by (rule loadConfig_order_independent [OF conf0_wf]) simp

theorem reload_keeps_queues_witness:
  "\<exists>s s' p. getQueueForUpstream s ''a'' = Some p \<and> loadConfig env0 conf0 False s = Inr (s', None) \<and>
     getQueueForUpstream s' ''a'' = Some p"
proof -
  obtain s where l: "loadConfig env0 conf0 False NewServer = Inr (s, None)" "srv_inv s"
    using conf0_loads [OF srv_inv_NewServer] by (auto simp: NewServer_def)
  have "case loadConfig env0 conf0 False NewServer of Inl e \<Rightarrow> False
      | Inr (s, e) \<Rightarrow> getQueueForUpstream s ''a'' = Some 0 \<and> Option.is_none (s_TLSListener s)" by code_simp
  then have p: "getQueueForUpstream s ''a'' = Some 0" "s_TLSListener s = None" using l(1) by (simp_all add: is_none_simps Option.is_none_def)
  obtain s' where l': "loadConfig env0 conf0 False s = Inr (s', None)" using conf0_loads [OF l(2) p(2)] by blast
  have "map_of (c_Upstreams conf0) ''a'' = Some (upstream0 ''10.0.0.1:873'' [''debian'', ''arch''])" by (simp add: conf0_def)
  from reload_keeps_queues [OF l(2) conf0_wf l' p(1) this] show ?thesis using p(1) l' by blast
qed

theorem seconds_exact_then_wraps_witness: "seconds 600 = 600000000000 \<and> seconds 9223372037 < 0"
  using seconds_exact_then_wraps [of 600] by simp

section \<open>Discovery reads what the listing writes\<close>

definition clean_name :: "string \<Rightarrow> bool" where
  "clean_name m \<longleftrightarrow> m \<noteq> [] \<and> (\<forall>c\<in>set m. \<not> is_space c) \<and> \<not> HasPrefix m RsyncdVersionPrefix"

lemma discovered_sorted: "discoverModulesFromUpstream env u = Inr ms \<Longrightarrow> sorted ms"
  by (auto simp: discoverModulesFromUpstream_def Let_def split: sum.splits option.splits prod.splits if_splits)

lemma ReadString_line: "lineFeed \<notin> set m \<Longrightarrow> ReadString (m @ lineFeed # rest) = Some (m @ [lineFeed], rest)"
proof -
  assume m: "lineFeed \<notin> set m"
  then have "takeWhile (\<lambda>c. c \<noteq> lineFeed) (m @ lineFeed # rest) = m"
    by (subst takeWhile_append2) auto
  then show ?thesis by (simp add: ReadString_def Let_def)
qed

lemma TrimSuffix_line: "TrimSuffix (m @ [lineFeed]) [lineFeed] = m"
  by (simp add: TrimSuffix_def)

lemma clean_name_line: "clean_name m \<Longrightarrow> lineFeed \<notin> set m"
  by (auto simp: clean_name_def is_space_def lineFeed_def)

lemma first_field_clean: "clean_name m \<Longrightarrow> first_field m = Some m"
proof -
  assume m: "clean_name m"
  then have "dropWhile is_space m = m" by (cases m) (auto simp: clean_name_def)
  moreover have "takeWhile (\<lambda>c. \<not> is_space c) m = m" using m by (simp add: clean_name_def takeWhile_eq_all_conv)
  ultimately show ?thesis using m by (simp add: first_field_def Let_def clean_name_def)
qed

lemma read_modules_names:
  "\<forall>m\<in>set ms. clean_name m \<Longrightarrow>
   read_modules (concat (map (\<lambda>m. m @ [lineFeed]) ms) @ RsyncdExit) acc = Some (acc @ ms)"
proof (induction ms arbitrary: acc)
  case Nil
  have "read_modules RsyncdExit acc = Some acc"
  proof -
    have "ReadString RsyncdExit = Some (RsyncdExit, [])"
      using ReadString_line [of "''@RSYNCD: EXIT''" "[]"] by (simp add: RsyncdExit_def lineFeed_def)
    moreover have "TrimSuffix RsyncdExit [lineFeed] = ''@RSYNCD: EXIT''"
      unfolding RsyncdExit_def by (rule TrimSuffix_line)
    moreover have "HasPrefix ''@RSYNCD: EXIT'' RsyncdVersionPrefix" by (simp add: HasPrefix_def RsyncdVersionPrefix_def)
    ultimately show ?thesis by (subst read_modules.simps) simp
  qed
  then show ?case by simp
next
  case (Cons m ms)
  then have m: "clean_name m" by simp
  then have "\<not> HasPrefix m RsyncdVersionPrefix" by (simp add: clean_name_def)
  with Cons.IH [of "acc @ [m]"] Cons.prems show ?case
    by (subst read_modules.simps)
      (simp add: ReadString_line [OF clean_name_line [OF m]] TrimSuffix_line first_field_clean [OF m])
qed

text \<open>C39: Discovery against a proxy of this program, with the greeting it sends and without a message of the day, finds exactly the
  modules that proxy serves, sorted, provided that no module name holds white space or starts like a greeting, the PROXY protocol
  is off, the dial succeeds and no write fails.\<close>

theorem discovery_reads_listing:
  assumes "\<forall>m\<in>fst ` set (s_modules s). clean_name m" "\<not> t_UseProxyProtocol (uc_Target u)"
    and "e_Dial env (addDefaultTCPPort (t_Addr (uc_Target u)) ''873'') = Inr peer" "\<forall>i. pe_write peer i = None"
    and "pe_data peer = RsyncdServerVersion @ listAllModules s"
  shows "discoverModulesFromUpstream env u = Inr (sort (map fst (s_modules s)))"
proof -
  have "lineFeed \<notin> set ''@RSYNCD: 32.0 sha512 sha256 sha1 md5 md4''" by (simp add: lineFeed_def)
  from ReadString_line [OF this] have r: "ReadString (pe_data peer) = Some (RsyncdServerVersion, listAllModules s)"
    using assms(5) by (simp add: RsyncdServerVersion_def)
  moreover have "HasPrefix RsyncdServerVersion RsyncdVersionPrefix"
    by (simp add: HasPrefix_def RsyncdVersionPrefix_def RsyncdServerVersion_def)
  moreover have "read_modules (listAllModules s) [] = Some (sort (map fst (s_modules s)))"
    unfolding listAllModules_def by (subst read_modules_names) (use assms(1) in auto)
  ultimately show ?thesis using assms(2-4) by (simp add: discoverModulesFromUpstream_def Let_def sorted_sort_id)
qed

definition listing_peer :: "string \<Rightarrow> Server \<Rightarrow> Peer" where
  "listing_peer motd s = \<lparr>pe_data = RsyncdServerVersion @ motd @ listAllModules s, pe_err = ''EOF'', pe_write = (\<lambda>_. None)\<rparr>"

definition listing_server :: Server where
  "listing_server = NewServer\<lparr>s_modules := [(''ubuntu'', []), (''debian'', [])]\<rparr>"

definition listing_upstream :: upstreamConfig where
  "listing_upstream = \<lparr>uc_Name = ''up'', uc_Target = \<lparr>t_Upstream = ''up'', t_Addr = ''10.0.0.1'', t_UseProxyProtocol = False\<rparr>,
     uc_Modules = [], uc_DiscoverModules = True, uc_MaxActiveConns = 0, uc_MaxQueuedConns = 0, uc_PerIPMaxActiveConns = 0\<rparr>"

theorem discovery_reads_listing_witness:
  "discoverModulesFromUpstream (env0\<lparr>e_Dial := (\<lambda>_. Inr (listing_peer '''' listing_server))\<rparr>) listing_upstream = Inr [''debian'', ''ubuntu'']"
proof -
  have "discoverModulesFromUpstream (env0\<lparr>e_Dial := (\<lambda>_. Inr (listing_peer '''' listing_server))\<rparr>) listing_upstream =
      Inr (sort (map fst (s_modules listing_server)))"
  proof (rule discovery_reads_listing [where peer = "listing_peer '''' listing_server"])
    show "\<forall>m\<in>fst ` set (s_modules listing_server). clean_name m"
      by (simp add: listing_server_def clean_name_def is_space_def HasPrefix_def RsyncdVersionPrefix_def)
  qed (simp_all add: listing_upstream_def listing_peer_def)
  moreover have "sort (map fst (s_modules listing_server)) = [''debian'', ''ubuntu'']" by code_simp
  ultimately show ?thesis by simp
qed

text \<open>A message of the day is sent with a single line feed, so discovery against such a proxy takes its first word for a module.\<close>

theorem discovery_takes_motd_for_module:
  "discoverModulesFromUpstream (env0\<lparr>e_Dial := (\<lambda>_. Inr (listing_peer (''welcome'' @ [lineFeed]) listing_server))\<rparr>) listing_upstream =
     Inr [''debian'', ''ubuntu'', ''welcome'']"
  by code_simp

end
