(* ===== verification/Translate.thy ===== *)
theory Translate
  imports Backends ServerConfig
begin

text \<open>
  Translation of bound routes into the data-plane configuration (\<open>internal/translate/translate.go\<close>).
  Strings are byte lists, so \<open>UpstreamName\<close> decodes UTF-8 the way \<open>range\<close> over a string does: an
  invalid byte is the replacement rune, one rune gives one output byte. \<open>strings.ToLower\<close> maps
  exactly two runes outside ASCII into ASCII, U+0130 to \<open>i\<close> and U+212A to \<open>k\<close>. A dereference of the
  nil \<open>spec\<close> in \<open>BuildServerConfig\<close> is \<open>Inl NilSpec\<close>, an error return is \<open>Inl (BadConfig e)\<close>.
\<close>

section \<open>Upstream names\<close>

definition cont_byte :: "nat \<Rightarrow> bool" where
  "cont_byte b \<longleftrightarrow> 0x80 \<le> b \<and> b \<le> 0xBF"

definition is_seq2 :: "nat \<Rightarrow> nat \<Rightarrow> bool" where
  "is_seq2 b0 b1 \<longleftrightarrow> 0xC2 \<le> b0 \<and> b0 \<le> 0xDF \<and> cont_byte b1"

definition is_seq3 :: "nat \<Rightarrow> nat \<Rightarrow> nat \<Rightarrow> bool" where
  "is_seq3 b0 b1 b2 \<longleftrightarrow> 0xE0 \<le> b0 \<and> b0 \<le> 0xEF \<and> cont_byte b1 \<and> cont_byte b2 \<and>
     (b0 = 0xE0 \<longrightarrow> 0xA0 \<le> b1) \<and> (b0 = 0xED \<longrightarrow> b1 \<le> 0x9F)"

definition is_seq4 :: "nat \<Rightarrow> nat \<Rightarrow> nat \<Rightarrow> nat \<Rightarrow> bool" where
  "is_seq4 b0 b1 b2 b3 \<longleftrightarrow> 0xF0 \<le> b0 \<and> b0 \<le> 0xF4 \<and> cont_byte b1 \<and> cont_byte b2 \<and> cont_byte b3 \<and>
     (b0 = 0xF0 \<longrightarrow> 0x90 \<le> b1) \<and> (b0 = 0xF4 \<longrightarrow> b1 \<le> 0x8F)"

definition RuneError :: nat where
  "RuneError = 0xFFFD"

fun runes :: "nat list \<Rightarrow> nat list" where
  "runes [] = []"
| "runes (b0 # bs) =
     (if b0 < 0x80 then b0 # runes bs
      else case bs of
        [] \<Rightarrow> [RuneError]
      | b1 # bs1 \<Rightarrow>
          if is_seq2 b0 b1 then ((b0 - 0xC0) * 64 + (b1 - 0x80)) # runes bs1
          else case bs1 of
            [] \<Rightarrow> RuneError # runes bs
          | b2 # bs2 \<Rightarrow>
              if is_seq3 b0 b1 b2 then ((b0 - 0xE0) * 4096 + (b1 - 0x80) * 64 + (b2 - 0x80)) # runes bs2
              else case bs2 of
                [] \<Rightarrow> RuneError # runes bs
              | b3 # bs3 \<Rightarrow>
                  if is_seq4 b0 b1 b2 b3
                  then ((b0 - 0xF0) * 262144 + (b1 - 0x80) * 4096 + (b2 - 0x80) * 64 + (b3 - 0x80)) # runes bs3
                  else RuneError # runes bs)"

text \<open>\<open>unicode.ToLower\<close>, as far as its result is compared with ASCII letters and digits.\<close>

definition ToLowerRune :: "nat \<Rightarrow> nat" where
  "ToLowerRune r =
     (if 65 \<le> r \<and> r \<le> 90 then r + 32 else if r = 0x130 then 105 else if r = 0x212A then 107 else r)"

definition name_char :: "nat \<Rightarrow> char" where
  "name_char r =
     (if (97 \<le> r \<and> r \<le> 122) \<or> (48 \<le> r \<and> r \<le> 57) \<or> r = 45 then char_of r else CHR ''-'')"

definition UpstreamName :: "NamespacedName \<Rightarrow> int \<Rightarrow> string" where
  "UpstreamName route index =
     (let raw = fst route @ ''-'' @ snd route @ ''-'' @ Itoa index;
          name = map (name_char \<circ> ToLowerRune) (runes (map of_char raw)) in
      take 63 name)"

section \<open>Settings\<close>

definition DurationSecs :: "string option \<Rightarrow> string + int" where
  "DurationSecs d =
     (case d of
        None \<Rightarrow> Inr 0
      | Some s \<Rightarrow>
          (case ParseDuration s of
             Inl err \<Rightarrow> Inl (''invalid duration '' @ Quote s @ '': '' @ err)
           | Inr dur \<Rightarrow>
               if dur < 0 then Inl (''duration must be non-negative, got '' @ s) else Inr (dur div 1000000000)))"

definition derefInt32 :: "int option \<Rightarrow> int" where
  "derefInt32 p = (case p of None \<Rightarrow> 0 | Some i \<Rightarrow> i)"

definition named_error :: "string \<Rightarrow> string + int \<Rightarrow> string + int" where
  "named_error name r = (case r of Inl err \<Rightarrow> Inl (name @ '': '' @ err) | Inr v \<Rightarrow> Inr v)"

definition ProxySettings :: "GatewayConfigSpec option \<Rightarrow> string + ProxySettingsT" where
  "ProxySettings cfg =
     (case cfg of
        None \<Rightarrow> Inr zero_proxy
      | Some cfg \<Rightarrow>
     (case Validate cfg of
        Some err \<Rightarrow> Inl err
      | None \<Rightarrow>
      bindE (named_error ''relayIdleTimeout'' (DurationSecs (gcs_RelayIdleTimeout cfg))) (\<lambda>idle.
      bindE (named_error ''relayMaxDuration'' (DurationSecs (gcs_RelayMaxDuration cfg))) (\<lambda>maxDuration.
      bindE (named_error ''tcpKeepAlive'' (DurationSecs (gcs_TCPKeepAlive cfg))) (\<lambda>keepAlive.
      bindE (named_error ''dialTimeout'' (DurationSecs (gcs_DialTimeout cfg))) (\<lambda>dialTimeout.
      bindE (case gcs_ThroughputFloor cfg of None \<Rightarrow> Inr 0
             | Some t \<Rightarrow> named_error ''throughputFloor.window'' (DurationSecs (tf_Window t))) (\<lambda>window.
      bindE (case gcs_ThroughputFloor cfg of None \<Rightarrow> Inr 0
             | Some t \<Rightarrow> named_error ''throughputFloor.grace'' (DurationSecs (tf_Grace t))) (\<lambda>grace.
        let minBytes = (case gcs_ThroughputFloor cfg of None \<Rightarrow> 0
              | Some t \<Rightarrow> (case tf_MinBytes t of None \<Rightarrow> 0 | Some b \<Rightarrow> b));
            window' = (if minBytes > 0 \<and> window = 0 then 60 else window);
            grace' = (if minBytes > 0 \<and> grace = 0 then window' else grace) in
        Inr (zero_proxy
          \<lparr>ps_RelayIdleTimeoutSecs := idle, ps_RelayMaxDurationSecs := maxDuration, ps_TCPKeepAliveSecs := keepAlive,
           ps_DialTimeoutSecs := dialTimeout, ps_PerIPMaxActiveConns := derefInt32 (gcs_PerIPMaxActiveConnections cfg),
           ps_Motd := (case gcs_Motd cfg of None \<Rightarrow> '''' | Some m \<Rightarrow> m),
           ps_MinThroughputBytes := minBytes, ps_MinThroughputWindowSecs := window', ps_MinThroughputGraceSecs := grace'\<rparr>)))))))))"

section \<open>The server configuration\<close>

record RouteBackend =
  rtb_Name :: string
  rtb_Namespace :: string
  rtb_Port :: int

record RouteInput =
  ri_Route :: NamespacedName
  ri_Modules :: "string list"
  ri_Backends :: "RouteBackend list"
  ri_Config :: "GatewayConfigSpec option"

datatype build_error = NilSpec | BadConfig string

definition backend_address :: "RouteBackend \<Rightarrow> string" where
  "backend_address b = rtb_Name b @ ''.'' @ rtb_Namespace b @ ''.svc:'' @ Itoa (rtb_Port b)"

definition route_upstream :: "RouteInput \<Rightarrow> GatewayConfigSpec \<Rightarrow> RouteBackend \<Rightarrow> Upstream" where
  "route_upstream route spec backend =
     \<lparr>u_Address = backend_address backend, u_Modules = ri_Modules route, u_DiscoverModules = False,
      u_UseProxyProtocol = False, u_MaxActiveConns = derefInt32 (gcs_MaxActiveConnections spec),
      u_MaxQueuedConns = derefInt32 (gcs_MaxQueuedConnections spec),
      u_PerIPMaxActiveConns = derefInt32 (gcs_PerIPMaxActiveConnections spec)\<rparr>"

definition add_backend :: "RouteInput \<Rightarrow> GatewayConfigSpec option \<Rightarrow> nat \<times> RouteBackend \<Rightarrow> (string, Upstream) gomap \<Rightarrow>
    build_error + (string, Upstream) gomap" where
  "add_backend route spec ib ups =
     (case spec of
        None \<Rightarrow> Inl NilSpec
      | Some spec \<Rightarrow>
          Inr (AList.update (UpstreamName (ri_Route route) (int (fst ib))) (route_upstream route spec (snd ib)) ups))"

definition add_route :: "Ext \<Rightarrow> GatewayConfigSpec option \<Rightarrow> RouteInput \<Rightarrow> (string, Upstream) gomap \<Rightarrow>
    build_error + (string, Upstream) gomap" where
  "add_route x primary route ups =
     (let spec = (case ri_Config route of None \<Rightarrow> primary | Some c \<Rightarrow> Some c) in
      case (case spec of None \<Rightarrow> None | Some sp \<Rightarrow> Validate sp) of
        Some err \<Rightarrow> Inl (BadConfig (''route '' @ x_String x (ri_Route route) @ '': invalid GatewayConfig: '' @ err))
      | None \<Rightarrow> foldE (add_backend route spec) (enumerate 0 (ri_Backends route)) ups)"

definition BuildServerConfig :: "Ext \<Rightarrow> GatewayConfigSpec option \<Rightarrow> RouteInput list \<Rightarrow> build_error + Config" where
  "BuildServerConfig x primary routes =
     (case ProxySettings primary of
        Inl err \<Rightarrow> Inl (BadConfig (''invalid GatewayConfig: '' @ err))
      | Inr proxy \<Rightarrow>
          bindE (foldE (add_route x primary) routes []) (\<lambda>ups. Inr \<lparr>c_Proxy = proxy, c_Upstreams = ups\<rparr>))"

section \<open>Names are labels\<close>

definition label_char :: "char \<Rightarrow> bool" where
  "label_char c \<longleftrightarrow> (CHR ''a'' \<le> c \<and> c \<le> CHR ''z'') \<or> (CHR ''0'' \<le> c \<and> c \<le> CHR ''9'') \<or> c = CHR ''-''"

lemma name_char_label: "label_char (name_char r)"
proof (cases "(97 \<le> r \<and> r \<le> 122) \<or> (48 \<le> r \<and> r \<le> 57) \<or> r = 45")
  case True
  then have "r < 256" by auto
  then have "of_char (char_of r :: char) = r" by (simp add: of_char_of)
  moreover have "char_of (45 :: nat) = CHR ''-''" by code_simp
  ultimately show ?thesis using True by (auto simp: name_char_def label_char_def less_eq_char_def)
qed (auto simp: name_char_def label_char_def)

text \<open>Whatever the namespace and name of the route, an upstream name has at most 63 characters, all of them lower-case
  letters, digits or hyphens.\<close>

theorem UpstreamName_is_label: "length (UpstreamName route i) \<le> 63 \<and> list_all label_char (UpstreamName route i)"
proof -
  have "list_all label_char (take n (map (name_char \<circ> f) rs))" for n f rs
    using in_set_takeD [of _ n "map (name_char \<circ> f) rs"] by (fastforce simp: list_all_iff name_char_label)
  then show ?thesis by (simp add: UpstreamName_def Let_def)
qed

definition ascii :: "string \<Rightarrow> bool" where
  "ascii s \<longleftrightarrow> list_all (\<lambda>c. of_char c < (128::nat)) s"

lemma runes_ascii: "ascii s \<Longrightarrow> runes (map of_char s) = map of_char s"
  by (induction s) (auto simp: ascii_def)

lemma digit_name_char: "is_digit c \<Longrightarrow> name_char (ToLowerRune (of_char c)) = c"
proof -
  assume "is_digit c"
  then have "48 \<le> (of_char c :: nat) \<and> of_char c \<le> (57 :: nat)" by (simp add: is_digit_def less_eq_char_def)
  then show ?thesis by (simp add: name_char_def ToLowerRune_def)
qed

lemma Itoa_nat: "Itoa (int n) = dec_digits n"
  by (simp add: Itoa_def)

lemma ascii_digits: "ascii (dec_digits n)"
proof -
  have "is_digit c \<Longrightarrow> of_char c < (128::nat)" for c by (simp add: is_digit_def less_eq_char_def)
  then show ?thesis using dec_digits_digits [of n] by (auto simp: ascii_def list_all_iff)
qed

text \<open>The backends of one route get pairwise different upstream names, provided the route's namespace and name are ASCII, as
  Kubernetes demands, and the name with its index is not cut off.\<close>

theorem UpstreamName_separates_backends:
  assumes "ascii (fst route)" "ascii (snd route)" "UpstreamName route (int i) = UpstreamName route (int j)"
    and "length (fst route) + length (snd route) + 2 + length (dec_digits i) \<le> 63"
    and "length (fst route) + length (snd route) + 2 + length (dec_digits j) \<le> 63"
  shows "i = j"
proof -
  let ?pre = "fst route @ ''-'' @ snd route @ ''-''"
  have name: "UpstreamName route (int k) = map (name_char \<circ> ToLowerRune \<circ> of_char) ?pre @ dec_digits k"
    if "length (fst route) + length (snd route) + 2 + length (dec_digits k) \<le> 63" for k
  proof -
    have "ascii (?pre @ dec_digits k)" using assms(1,2) ascii_digits [of k] by (simp add: ascii_def)
    then have "runes (map of_char (?pre @ dec_digits k)) = map of_char (?pre @ dec_digits k)" by (rule runes_ascii)
    moreover have "map (name_char \<circ> ToLowerRune \<circ> of_char) (dec_digits k) = dec_digits k"
      using dec_digits_digits [of k] by (simp add: digit_name_char map_idI)
    ultimately show ?thesis using that by (simp add: UpstreamName_def Itoa_nat comp_def Let_def)
  qed
  from name [OF assms(4)] name [OF assms(5)] assms(3) have "dec_digits i = dec_digits j" by simp
  then show ?thesis by (rule dec_digits_inj)
qed

theorem UpstreamName_separates_backends_witness:
  "UpstreamName (''mirror'', ''debian'') (int 0) \<noteq> UpstreamName (''mirror'', ''debian'') (int 1)"
proof
  assume eq: "UpstreamName (''mirror'', ''debian'') (int 0) = UpstreamName (''mirror'', ''debian'') (int 1)"
  have "ascii ''mirror''" "ascii ''debian''" "length (dec_digits 0) = 1" "length (dec_digits 1) = 1" by code_simp+
  then show False using UpstreamName_separates_backends [of "(''mirror'', ''debian'')" 0 1] eq by simp
qed

text \<open>Names of different routes can collide, because the separator is a legal character of a namespace and of a name; the
  later route then overwrites the upstream of the earlier one.\<close>

theorem UpstreamName_collides:
  "UpstreamName (''a'', ''b-c'') i = UpstreamName (''a-b'', ''c'') i"
  by (simp add: UpstreamName_def)

section \<open>Settings of a valid configuration\<close>

lemma DurationSecs_good:
  assumes "good_duration v"
  shows "\<exists>d. DurationSecs v = Inr d \<and> 0 \<le> d \<and> d \<le> 9223372036"
proof (cases v)
  case (Some s)
  then obtain dur where d: "0 \<le> dur" "ParseDuration s = Inr dur" using assms by (auto simp: good_duration_def)
  then have "dur < 2 ^ 63" by (auto dest: ParseDuration_bound)
  then have "dur div 1000000000 \<le> 9223372036" by simp
  with d Some show ?thesis by (auto simp: DurationSecs_def pos_imp_zdiv_nonneg_iff)
qed (simp add: DurationSecs_def)

lemma DurationSecs_floor:
  assumes "good_duration (case f of None \<Rightarrow> None | Some t \<Rightarrow> sel t)"
  shows "\<exists>d. (case f of None \<Rightarrow> Inr 0 | Some t \<Rightarrow> named_error n (DurationSecs (sel t))) = Inr d \<and> 0 \<le> d \<and> d \<le> 9223372036"
  using assms DurationSecs_good [of "sel (the f)"] by (cases f) (auto simp: named_error_def)

definition within :: "int \<Rightarrow> bool" where
  "within d \<longleftrightarrow> 0 \<le> d \<and> d \<le> 9223372036"

lemma ProxySettings_valid_lemma:
  assumes "Validate spec = None"
  shows "\<exists>p. ProxySettings (Some spec) = Inr p \<and> ps_Listen p = '''' \<and> ps_ListenTLS p = '''' \<and> ps_ListenHTTP p = '''' \<and>
    ps_AccessLog p = '''' \<and> ps_ErrorLog p = '''' \<and>
    ps_Motd p = (case gcs_Motd spec of None \<Rightarrow> '''' | Some m \<Rightarrow> m) \<and>
    within (ps_RelayIdleTimeoutSecs p) \<and> within (ps_RelayMaxDurationSecs p) \<and> within (ps_TCPKeepAliveSecs p) \<and>
    within (ps_DialTimeoutSecs p) \<and> within (ps_MinThroughputWindowSecs p) \<and> within (ps_MinThroughputGraceSecs p) \<and>
    0 \<le> ps_PerIPMaxActiveConns p \<and> 0 \<le> ps_MinThroughputBytes p \<and>
    (0 < ps_MinThroughputBytes p \<longrightarrow> 0 < ps_MinThroughputWindowSecs p \<and> 0 < ps_MinThroughputGraceSecs p)"
proof -
  note v = assms [unfolded Validate_None_iff]
  obtain idle where idle: "DurationSecs (gcs_RelayIdleTimeout spec) = Inr idle" "0 \<le> idle" "idle \<le> 9223372036"
    using v DurationSecs_good by blast
  obtain dur where dur: "DurationSecs (gcs_RelayMaxDuration spec) = Inr dur" "0 \<le> dur" "dur \<le> 9223372036"
    using v DurationSecs_good by blast
  obtain keep where keep: "DurationSecs (gcs_TCPKeepAlive spec) = Inr keep" "0 \<le> keep" "keep \<le> 9223372036"
    using v DurationSecs_good by blast
  obtain dial where dial: "DurationSecs (gcs_DialTimeout spec) = Inr dial" "0 \<le> dial" "dial \<le> 9223372036"
    using v DurationSecs_good by blast
  obtain win where win: "(case gcs_ThroughputFloor spec of None \<Rightarrow> Inr 0
      | Some t \<Rightarrow> named_error ''throughputFloor.window'' (DurationSecs (tf_Window t))) = Inr win" "0 \<le> win" "win \<le> 9223372036"
    using v DurationSecs_floor [where f = "gcs_ThroughputFloor spec" and sel = tf_Window] unfolding ThroughputFloorWindow_def by blast
  obtain gra where gra: "(case gcs_ThroughputFloor spec of None \<Rightarrow> Inr 0
      | Some t \<Rightarrow> named_error ''throughputFloor.grace'' (DurationSecs (tf_Grace t))) = Inr gra" "0 \<le> gra" "gra \<le> 9223372036"
    using v DurationSecs_floor [where f = "gcs_ThroughputFloor spec" and sel = tf_Grace] unfolding ThroughputFloorGrace_def by blast
  have bytes: "0 \<le> (case gcs_ThroughputFloor spec of None \<Rightarrow> 0 | Some t \<Rightarrow> (case tf_MinBytes t of None \<Rightarrow> 0 | Some b \<Rightarrow> b))"
    using v by (auto simp: nonneg_opt_def split: option.splits)
  have "0 \<le> derefInt32 (gcs_PerIPMaxActiveConnections spec)"
    using v by (auto simp: nonneg_opt_def derefInt32_def split: option.splits)
  then show ?thesis
    using assms idle dur keep dial win gra bytes
    by (simp add: ProxySettings_def named_error_def Let_def zero_proxy_def within_def)
qed

lemma ProxySettings_valid_ok: "Validate spec = None \<Longrightarrow> \<exists>p. ProxySettings (Some spec) = Inr p"
  using ProxySettings_valid_lemma by blast

text \<open>A GatewayConfig that validates translates into proxy settings without listeners or log files, all of them non-negative
  and small enough that the data plane computes the exact durations; with a throughput floor the window and the grace
  period are at least one second.\<close>

theorem ProxySettings_of_valid:
  assumes "Validate spec = None"
  shows "\<exists>p. ProxySettings (Some spec) = Inr p \<and> ps_Listen p = '''' \<and> ps_ListenTLS p = '''' \<and> ps_ListenHTTP p = '''' \<and>
    ps_AccessLog p = '''' \<and> ps_ErrorLog p = '''' \<and>
    ps_Motd p = (case gcs_Motd spec of None \<Rightarrow> '''' | Some m \<Rightarrow> m) \<and>
    within (ps_RelayIdleTimeoutSecs p) \<and> within (ps_RelayMaxDurationSecs p) \<and> within (ps_TCPKeepAliveSecs p) \<and>
    within (ps_DialTimeoutSecs p) \<and> within (ps_MinThroughputWindowSecs p) \<and> within (ps_MinThroughputGraceSecs p) \<and>
    0 \<le> ps_PerIPMaxActiveConns p \<and> 0 \<le> ps_MinThroughputBytes p \<and>
    (0 < ps_MinThroughputBytes p \<longrightarrow> 0 < ps_MinThroughputWindowSecs p \<and> 0 < ps_MinThroughputGraceSecs p)"
  using assms by (rule ProxySettings_valid_lemma)

theorem ProxySettings_of_valid_witness:
  "\<exists>p. ProxySettings (Some sample_spec) = Inr p \<and> within (ps_RelayIdleTimeoutSecs p) \<and> ps_RelayIdleTimeoutSecs p = 90"
proof -
  obtain p where p: "ProxySettings (Some sample_spec) = Inr p" "within (ps_RelayIdleTimeoutSecs p)"
    using ProxySettings_of_valid [OF sample_config_valid(2)] by blast
  have "case ProxySettings (Some sample_spec) of Inl e \<Rightarrow> False | Inr p \<Rightarrow> ps_RelayIdleTimeoutSecs p = 90" by code_simp
  with p show ?thesis by simp
qed


section \<open>The table\<close>

definition route_spec :: "GatewayConfigSpec option \<Rightarrow> RouteInput \<Rightarrow> GatewayConfigSpec option" where
  "route_spec primary route = (case ri_Config route of None \<Rightarrow> primary | Some c \<Rightarrow> Some c)"

definition valid_input :: "GatewayConfigSpec option \<Rightarrow> RouteInput \<Rightarrow> bool" where
  "valid_input primary route \<longleftrightarrow> (\<exists>spec. route_spec primary route = Some spec \<and> Validate spec = None)"

text \<open>One entry per backend of each route, in order.\<close>

definition route_entries :: "GatewayConfigSpec option \<Rightarrow> RouteInput \<Rightarrow> (string \<times> Upstream) list" where
  "route_entries primary route =
     map (\<lambda>(i, b). (UpstreamName (ri_Route route) (int i), route_upstream route (the (route_spec primary route)) b))
       (enumerate 0 (ri_Backends route))"

definition upstream_entries :: "GatewayConfigSpec option \<Rightarrow> RouteInput list \<Rightarrow> (string \<times> Upstream) list" where
  "upstream_entries primary routes = concat (map (route_entries primary) routes)"

definition insert_entries :: "('k \<times> 'v) list \<Rightarrow> ('k, 'v) gomap \<Rightarrow> ('k, 'v) gomap" where
  "insert_entries es m = fold (\<lambda>(k, v). AList.update k v) es m"

lemma insert_entries_append: "insert_entries (es @ fs) m = insert_entries fs (insert_entries es m)"
  by (simp add: insert_entries_def)

lemma insert_entries_wf: "gm_wf m \<Longrightarrow> gm_wf (insert_entries es m)"
  by (induction es arbitrary: m) (auto simp: insert_entries_def distinct_update)

lemma insert_entries_lookup: "map_of (insert_entries es m) = map_of m ++ map_of (rev es)"
proof (induction es arbitrary: m)
  case (Cons e es)
  have "map_of (insert_entries (e # es) m) = map_of (insert_entries es (AList.update (fst e) (snd e) m))"
    by (simp add: insert_entries_def case_prod_unfold)
  then show ?case using Cons.IH by (cases e) (auto simp: update_conv fun_eq_iff map_add_def split: option.splits)
qed (simp add: insert_entries_def)

lemma add_route_valid:
  assumes "valid_input primary route"
  shows "add_route x primary route ups = Inr (insert_entries (route_entries primary route) ups)"
proof -
  obtain spec where spec: "route_spec primary route = Some spec" "Validate spec = None"
    using assms by (auto simp: valid_input_def)
  have "foldE (add_backend route (Some spec)) ibs m =
      Inr (insert_entries (map (\<lambda>(i, b). (UpstreamName (ri_Route route) (int i), route_upstream route spec b)) ibs) m)" for ibs m
    by (induction ibs arbitrary: m) (auto simp: add_backend_def insert_entries_def)
  with spec show ?thesis
    by (simp add: add_route_def route_spec_def [symmetric] route_entries_def Let_def)
qed

lemma add_routes_valid:
  "\<forall>r\<in>set routes. valid_input primary r \<Longrightarrow>
   foldE (add_route x primary) routes ups = Inr (insert_entries (upstream_entries primary routes) ups)"
  by (induction routes arbitrary: ups)
    (simp_all add: add_route_valid upstream_entries_def insert_entries_append, simp add: insert_entries_def)

lemma BuildServerConfig_entries:
  assumes "case primary of None \<Rightarrow> True | Some spec \<Rightarrow> Validate spec = None" "\<forall>r\<in>set routes. valid_input primary r"
  shows "\<exists>cfg. BuildServerConfig x primary routes = Inr cfg \<and> gm_wf (c_Upstreams cfg) \<and>
    ProxySettings primary = Inr (c_Proxy cfg) \<and>
    map_of (c_Upstreams cfg) = map_of (rev (upstream_entries primary routes))"
proof -
  obtain p where "ProxySettings primary = Inr p"
    using assms(1) ProxySettings_valid_ok by (cases primary) (auto simp: ProxySettings_def)
  then show ?thesis
    using add_routes_valid [OF assms(2), of x "[]"] insert_entries_wf [of "[]"]
    by (simp add: BuildServerConfig_def insert_entries_lookup)
qed

text \<open>If every route has a valid GatewayConfig in effect, the table is built; it holds one upstream per backend of each route,
  under its name, with the modules of the route and the limits of its GatewayConfig; of entries with the same name the last
  one counts.\<close>

theorem BuildServerConfig_table:
  assumes "case primary of None \<Rightarrow> True | Some spec \<Rightarrow> Validate spec = None" "\<forall>r\<in>set routes. valid_input primary r"
  shows "\<exists>cfg. BuildServerConfig x primary routes = Inr cfg \<and> gm_wf (c_Upstreams cfg) \<and>
    ProxySettings primary = Inr (c_Proxy cfg) \<and>
    map_of (c_Upstreams cfg) = map_of (rev (upstream_entries primary routes))"
  using assms by (rule BuildServerConfig_entries)

definition sample_input :: RouteInput where
  "sample_input = \<lparr>ri_Route = (''mirror'', ''debian''), ri_Modules = [''debian''],
     ri_Backends = [\<lparr>rtb_Name = ''store'', rtb_Namespace = ''mirror'', rtb_Port = 873\<rparr>], ri_Config = Some sample_spec\<rparr>"

theorem BuildServerConfig_table_witness:
  "\<exists>cfg. BuildServerConfig ext0 (Some sample_spec) [sample_input] = Inr cfg \<and>
     map_of (c_Upstreams cfg) ''mirror-debian-0'' = Some (route_upstream sample_input sample_spec (hd (ri_Backends sample_input)))"
proof -
  have "valid_input (Some sample_spec) sample_input"
    using sample_config_valid(2) by (simp add: valid_input_def route_spec_def sample_input_def)
  then obtain cfg where cfg: "BuildServerConfig ext0 (Some sample_spec) [sample_input] = Inr cfg"
    "map_of (c_Upstreams cfg) = map_of (rev (upstream_entries (Some sample_spec) [sample_input]))"
    using BuildServerConfig_table [of "Some sample_spec" "[sample_input]" ext0] sample_config_valid(2) by auto
  have "map_of (rev (upstream_entries (Some sample_spec) [sample_input])) ''mirror-debian-0'' =
      Some (route_upstream sample_input sample_spec (hd (ri_Backends sample_input)))" by code_simp
  with cfg show ?thesis by auto
qed

text \<open>With neither a primary GatewayConfig nor one for the route, a route with a backend makes the translation dereference nil.\<close>

theorem BuildServerConfig_nil_config:
  assumes "ri_Config route = None" "ri_Backends route \<noteq> []"
  shows "BuildServerConfig x None (route # routes) = Inl NilSpec"
  using assms by (cases "ri_Backends route") (simp_all add: BuildServerConfig_def ProxySettings_def add_route_def add_backend_def)

theorem BuildServerConfig_nil_config_witness:
  "BuildServerConfig ext0 None [sample_input\<lparr>ri_Config := None\<rparr>] = Inl NilSpec"
  by (rule BuildServerConfig_nil_config) (simp_all add: sample_input_def)

end
