(* ===== verification/Controller.thy ===== *)
theory Controller
  imports Statuses Translate
begin

text \<open>
  The reconciler (\<open>internal/controller/reconciler.go\<close>). Objects of the snapshot are pointers, so the
  status writes are updates of the snapshot itself, in the order of the loops; \<open>api\<close> is the outcome
  of \<open>Status().Update\<close> and \<open>now\<close> the instant of the reconcile. The data plane is the interface
  \<open>Applier\<close>: a function on a state of any type. A panic of the control plane is \<open>Inl\<close>.
\<close>

section \<open>The data-plane table\<close>

definition managed_claim :: "(string, ClassClaim) gomap \<Rightarrow> Gateway \<Rightarrow> ClassClaim option" where
  "managed_claim claims gw =
     (case map_of claims (gw_GatewayClassName gw) of
        None \<Rightarrow> None
      | Some claim \<Rightarrow> if \<not> cl_Claimed claim \<or> \<not> cl_Accepted claim then None else Some claim)"

text \<open>
  A \<open>range\<close> loop over a Go map visits its keys in an order of the run-time's choice, another one each time. \<open>ro\<close> stands for the
  orders of the two such loops of \<open>buildTable\<close>; an order is a function from the keys of the map to the sequence of the visits.
\<close>

record RangeOrder =
  ro_Gateways :: "NamespacedName list \<Rightarrow> NamespacedName list"
  ro_RsyncRoutes :: "NamespacedName list \<Rightarrow> NamespacedName list"

definition range_over :: "('k list \<Rightarrow> 'k list) \<Rightarrow> ('k, 'v) gomap \<Rightarrow> ('k \<times> 'v) list" where
  "range_over order m = map (\<lambda>k. (k, the (map_of m k))) (order (map fst m))"

definition visits_all :: "RangeOrder \<Rightarrow> bool" where
  "visits_all ro \<longleftrightarrow> (\<forall>ks. mset (ro_Gateways ro ks) = mset ks) \<and> (\<forall>ks. mset (ro_RsyncRoutes ro ks) = mset ks)"

definition pick_primary :: "Ext \<Rightarrow> (string, ClassClaim) gomap \<Rightarrow> NamespacedName \<times> Gateway \<Rightarrow>
    GatewayConfigSpec option \<times> NamespacedName \<Rightarrow> GatewayConfigSpec option \<times> NamespacedName" where
  "pick_primary x claims kg st =
     (case managed_claim claims (snd kg) of
        None \<Rightarrow> st
      | Some claim \<Rightarrow>
          if fst st = None \<or> x_String x (fst kg) < x_String x (snd st)
          then (map_option gcf_Spec (cl_Config claim), fst kg) else st)"

definition primary_config :: "Ext \<Rightarrow> RangeOrder \<Rightarrow> (string, ClassClaim) gomap \<Rightarrow> Snapshot \<Rightarrow> GatewayConfigSpec option" where
  "primary_config x ro claims snap = fst (fold (pick_primary x claims) (range_over (ro_Gateways ro) (sn_Gateways snap)) (None, ('''', '''')))"

fun dedup_bound :: "ParentResult list \<Rightarrow> NamespacedName list \<Rightarrow> NamespacedName list" where
  "dedup_bound [] out = out"
| "dedup_bound (res # rest) out =
     (if \<not> pres_Accepted res \<or> pres_Gateway res \<in> set out then dedup_bound rest out
      else dedup_bound rest (out @ [pres_Gateway res]))"

definition boundGatewaysFor :: "Ext \<Rightarrow> ParentResult list \<Rightarrow> NamespacedName list" where
  "boundGatewaysFor x perParent = sort_key (x_String x) (dedup_bound perParent [])"

text \<open>The configuration of the first bound Gateway that has one.\<close>

fun route_config :: "Snapshot \<Rightarrow> (string, ClassClaim) gomap \<Rightarrow> NamespacedName list \<Rightarrow> GatewayConfigSpec option" where
  "route_config snap claims [] = None"
| "route_config snap claims (gwKey # rest) =
     (case map_of (sn_Gateways snap) gwKey of
        None \<Rightarrow> route_config snap claims rest
      | Some gw \<Rightarrow>
          (case map_of claims (gw_GatewayClassName gw) of
             None \<Rightarrow> route_config snap claims rest
           | Some claim \<Rightarrow>
               (case cl_Config claim of
                  None \<Rightarrow> route_config snap claims rest
                | Some config \<Rightarrow> Some (gcf_Spec config))))"

definition route_input :: "Ext \<Rightarrow> Snapshot \<Rightarrow> (string, ClassClaim) gomap \<Rightarrow> Results \<Rightarrow> NamespacedName \<times> RsyncRoute \<Rightarrow>
    RouteInput option" where
  "route_input x snap claims results kr =
     (let boundGateways = boundGatewaysFor x (or_default (map_of results (fst kr)) []) in
      if boundGateways = [] then None
      else Some
        \<lparr>ri_Route = fst kr, ri_Modules = EffectiveModules (snd kr),
         ri_Backends = map (\<lambda>b. \<lparr>rtb_Name = snd (rb_Service b), rtb_Namespace = fst (rb_Service b), rtb_Port = rb_Port b\<rparr>)
           (fst (ResolveBackends x snap (fst kr) (snd kr))),
         ri_Config = route_config snap claims boundGateways\<rparr>)"

definition table_inputs :: "Ext \<Rightarrow> RangeOrder \<Rightarrow> Snapshot \<Rightarrow> (string, ClassClaim) gomap \<Rightarrow> Results \<Rightarrow> RouteInput list" where
  "table_inputs x ro snap claims results =
     List.map_filter (route_input x snap claims results) (range_over (ro_RsyncRoutes ro) (sn_RsyncRoutes snap))"

definition buildTable :: "Ext \<Rightarrow> RangeOrder \<Rightarrow> Snapshot \<Rightarrow> (string, ClassClaim) gomap \<Rightarrow> Results \<Rightarrow> build_error + Config" where
  "buildTable x ro snap claims results =
     BuildServerConfig x (primary_config x ro claims snap) (table_inputs x ro snap claims results)"

section \<open>Status writes\<close>

datatype object_ref = RefClass string | RefGateway NamespacedName | RefRoute NamespacedName | RefConfig string

datatype api_result = ApiOk | ApiNotFound string | ApiError string

type_synonym api = "object_ref \<Rightarrow> api_result"
type_synonym event = "NamespacedName \<times> string \<times> string"

record Writes =
  w_snap :: Snapshot
  w_updates :: "object_ref list"
  w_events :: "event list"

text \<open>A loop that returns at the first error.\<close>

fun until_error :: "('a \<Rightarrow> 's \<Rightarrow> 's \<times> string option) \<Rightarrow> 'a list \<Rightarrow> 's \<Rightarrow> 's \<times> string option" where
  "until_error f [] s = (s, None)"
| "until_error f (x # xs) s = (case f x s of (s', None) \<Rightarrow> until_error f xs s' | (s', Some e) \<Rightarrow> (s', Some e))"

definition api_error :: "string \<Rightarrow> api_result \<Rightarrow> string option" where
  "api_error what r = (case r of ApiOk \<Rightarrow> None | ApiNotFound e \<Rightarrow> Some (what @ e) | ApiError e \<Rightarrow> Some (what @ e))"

definition write_class :: "api \<Rightarrow> int \<Rightarrow> (string, ClassClaim) gomap \<Rightarrow> string \<times> GatewayClass \<Rightarrow> Writes \<Rightarrow> Writes \<times> string option" where
  "write_class api now claims ngc w =
     (let (name, gc) = ngc in
      case (case map_of claims name of None \<Rightarrow> None | Some claim \<Rightarrow> ClassCondition (Some gc) claim) of
        None \<Rightarrow> (w, None)
      | Some cond \<Rightarrow>
          (let stable = StableCondition now (gcl_Conditions gc) cond in
           if ConditionsEqual (gcl_Conditions gc) [stable] then (w, None)
           else
             (let gc' = gc\<lparr>gcl_Conditions := MergeConditions (gcl_Conditions gc) [stable]\<rparr>;
                  snap' = (w_snap w)\<lparr>sn_GatewayClasses := AList.map_entry name (\<lambda>_. gc') (sn_GatewayClasses (w_snap w))\<rparr> in
              (w\<lparr>w_snap := snap', w_updates := w_updates w @ [RefClass name]\<rparr>,
               api_error (''update GatewayClass '' @ name @ '' status: '') (api (RefClass name))))))"

definition write_gateway :: "Ext \<Rightarrow> api \<Rightarrow> int \<Rightarrow> int list \<Rightarrow> (string, ClassClaim) gomap \<Rightarrow> NamespacedName \<times> Gateway \<Rightarrow>
    Writes \<Rightarrow> Writes \<times> string option" where
  "write_gateway x api now servedPorts claims kgw w =
     (let (gwKey, gw) = kgw in
      if managed_claim claims gw = None then (w, None)
      else
        (let (gw', written) = write_status (\<lambda>gw. BuildGatewayStatus now gw servedPorts) get_gateway_status put_gateway_status
               gateway_status_same gw in
         if \<not> written then (w, None)
         else
           (w\<lparr>w_snap := (w_snap w)\<lparr>sn_Gateways := AList.map_entry gwKey (\<lambda>_. gw') (sn_Gateways (w_snap w))\<rparr>,
              w_updates := w_updates w @ [RefGateway gwKey]\<rparr>,
            api_error (''update Gateway '' @ x_String x gwKey @ '' status: '') (api (RefGateway gwKey)))))"

definition routeAccepted :: "ParentResult list \<Rightarrow> bool" where
  "routeAccepted perParent = list_ex pres_Accepted perParent"

definition emitRouteEvents :: "bool \<Rightarrow> NamespacedName \<Rightarrow> ParentResult list \<Rightarrow> (nat, Condition) gomap \<Rightarrow> event list" where
  "emitRouteEvents recorder routeKey perParent previous =
     (if \<not> recorder then []
      else concat (map (\<lambda>(i, res).
        if pres_Accepted res then []
        else if (case map_of previous i of None \<Rightarrow> False
                 | Some prev \<Rightarrow> cd_Status prev = ''False'' \<and> cd_Reason prev = pres_Reason res \<and> cd_Message prev = pres_Message res)
        then []
        else [(routeKey, pres_Reason res, ''parent '' @ Quote (ParentRefString (pres_ParentRef res)) @ '': '' @ pres_Message res)])
        (enumerate 0 perParent)))"

definition write_route :: "Ext \<Rightarrow> api \<Rightarrow> int \<Rightarrow> bool \<Rightarrow> Results \<Rightarrow> NamespacedName \<times> RsyncRoute \<Rightarrow> Writes \<Rightarrow> Writes \<times> string option" where
  "write_route x api now recorder results kr w =
     (let (routeKey, route) = kr in
      case map_of results routeKey of
        None \<Rightarrow> (w, None)
      | Some perParent \<Rightarrow>
          (let backends = (if routeAccepted perParent then snd (ResolveBackends x (w_snap w) routeKey route)
                           else \<lparr>bs_Resolved = True, bs_Reason = ''ResolvedRefs'', bs_Message = ''''\<rparr>);
               (route', changed) = write_status (\<lambda>r. BuildRouteStatus now r perParent backends) rr_Parents
                 (\<lambda>ps. rr_Parents_update (\<lambda>_. ps)) ParentStatusesEqual route in
           if \<not> changed then (w, None)
           else
             (let old = FindParentConditions (rr_Parents route) perParent;
                  w' = w\<lparr>w_snap := (w_snap w)\<lparr>sn_RsyncRoutes := AList.map_entry routeKey (\<lambda>_. route') (sn_RsyncRoutes (w_snap w))\<rparr>,
                         w_updates := w_updates w @ [RefRoute routeKey]\<rparr> in
              case api (RefRoute routeKey) of
                ApiError e \<Rightarrow> (w', Some (''update RsyncRoute '' @ x_String x routeKey @ '' status: '' @ e))
              | _ \<Rightarrow> (w'\<lparr>w_events := w_events w' @ emitRouteEvents recorder routeKey perParent old\<rparr>, None))))"

definition write_config :: "api \<Rightarrow> int \<Rightarrow> string option \<Rightarrow> string \<times> ClassClaim \<Rightarrow> Writes \<Rightarrow> Writes \<times> string option" where
  "write_config api now applyErr nc w =
     (let claim = snd nc in
      case (if \<not> cl_Claimed claim then None else cl_Config claim) of
        None \<Rightarrow> (w, None)
      | Some cfg \<Rightarrow>
          (let name = om_Name (gcf_Meta cfg) in
           case map_of (sn_GatewayConfigs (w_snap w)) name of
             None \<Rightarrow> (w, None)
           | Some config \<Rightarrow>
               (let cond0 = (case applyErr of
                      Some e \<Rightarrow> new_condition ''Accepted'' ''False'' ''Invalid''
                        (''failed to apply data-plane configuration: '' @ e) (om_Generation (gcf_Meta config))
                    | None \<Rightarrow> new_condition ''Accepted'' ''True'' ''Accepted'' ''configuration applied to the data plane''
                        (om_Generation (gcf_Meta config)));
                    cond = StableCondition now (gcf_Conditions config) cond0 in
                if ConditionsEqual (gcf_Conditions config) [cond] then (w, None)
                else
                  (let config' = config\<lparr>gcf_Conditions := MergeConditions (gcf_Conditions config) [cond]\<rparr>;
                       snap' = (w_snap w)\<lparr>sn_GatewayConfigs := AList.map_entry name (\<lambda>_. config') (sn_GatewayConfigs (w_snap w))\<rparr> in
                   (w\<lparr>w_snap := snap', w_updates := w_updates w @ [RefConfig name]\<rparr>,
                    api_error (''update GatewayConfig '' @ name @ '' status: '') (api (RefConfig name)))))))"

definition then_ok :: "'s \<times> string option \<Rightarrow> ('s \<Rightarrow> 's \<times> string option) \<Rightarrow> 's \<times> string option" where
  "then_ok r f = (case r of (s, None) \<Rightarrow> f s | (s, Some e) \<Rightarrow> (s, Some e))"

definition writeStatuses :: "Ext \<Rightarrow> api \<Rightarrow> int \<Rightarrow> bool \<Rightarrow> string list \<Rightarrow> Snapshot \<Rightarrow> (string, ClassClaim) gomap \<Rightarrow> Results \<Rightarrow>
    string option \<Rightarrow> Writes \<times> string option" where
  "writeStatuses x api now recorder bindAddrs snap claims results applyErr =
     (let w0 = \<lparr>w_snap = snap, w_updates = [], w_events = []\<rparr>;
          servedPorts = ServedPorts bindAddrs in
      then_ok (until_error (write_class api now claims) (sn_GatewayClasses snap) w0) (\<lambda>w1.
      then_ok (until_error (write_gateway x api now servedPorts claims) (sn_Gateways snap) w1) (\<lambda>w2.
      then_ok (until_error (write_route x api now recorder results) (sn_RsyncRoutes snap) w2) (\<lambda>w3.
      until_error (write_config api now applyErr) claims w3))))"

section \<open>Reconcile\<close>

text \<open>What \<open>readSnapshot\<close> lists, or the error of the first list that failed.\<close>

record Cluster =
  cs_classes :: "GatewayClass list"
  cs_configs :: "GatewayConfig list"
  cs_gateways :: "Gateway list"
  cs_routes :: "RsyncRoute list"
  cs_services :: "Service list"
  cs_grants :: "ReferenceGrant list"

definition readSnapshot :: "string + Cluster \<Rightarrow> string + Snapshot" where
  "readSnapshot listed =
     bindE listed (\<lambda>c. Inr (NewSnapshot (map Some (cs_classes c)) (map Some (cs_configs c)) (map Some (cs_gateways c))
       (map Some (cs_routes c)) (map Some (cs_services c)) (map Some (cs_grants c))))"

datatype reconcile_panic = BindPanic panic | TablePanic

record 'd Reconciled =
  rc_dataplane :: 'd
  rc_writes :: Writes
  rc_error :: "string option"

definition Reconcile :: "Ext \<Rightarrow> RangeOrder \<Rightarrow> api \<Rightarrow> int \<Rightarrow> bool \<Rightarrow> string list \<Rightarrow> (Config \<Rightarrow> 'd \<Rightarrow> 'd \<times> string option) \<Rightarrow> string + Cluster \<Rightarrow> 'd \<Rightarrow>
    reconcile_panic + 'd Reconciled" where
  "Reconcile x ro api now recorder bindAddrs Apply listed d =
     (case readSnapshot listed of
        Inl err \<Rightarrow> Inr \<lparr>rc_dataplane = d, rc_writes = \<lparr>w_snap = NewSnapshot [] [] [] [] [] [], w_updates = [], w_events = []\<rparr>,
                        rc_error = Some (''read cluster state: '' @ err)\<rparr>
      | Inr snap \<Rightarrow>
     (let claims = ClaimClasses snap in
      case BindRoutes x snap claims of
        Inl p \<Rightarrow> Inl (BindPanic p)
      | Inr results \<Rightarrow>
     (case buildTable x ro snap claims results of
        Inl NilSpec \<Rightarrow> Inl TablePanic
      | Inl (BadConfig err) \<Rightarrow>
          (let (w, e) = writeStatuses x api now recorder bindAddrs snap claims results (Some err) in
           Inr \<lparr>rc_dataplane = d, rc_writes = w, rc_error = e\<rparr>)
      | Inr table \<Rightarrow>
          (let (d', applyErr) = Apply table d;
               (w, statusErr) = writeStatuses x api now recorder bindAddrs snap claims results applyErr in
           Inr \<lparr>rc_dataplane = d', rc_writes = w,
                rc_error = (case applyErr of Some e \<Rightarrow> Some e | None \<Rightarrow> statusErr)\<rparr>))))"

section \<open>The table is always built\<close>

lemma bindParent_accepted_gateway:
  assumes "pres_Accepted (bindParent x snap claims k r p)"
  shows "\<exists>gw claim. map_of (sn_Gateways snap) (pres_Gateway (bindParent x snap claims k r p)) = Some gw \<and>
    map_of claims (gw_GatewayClassName gw) = Some claim \<and> cl_Claimed claim \<and> cl_Accepted claim"
proof -
  let ?ns = "ref_namespace (pref_Namespace p) (fst k)"
  from assms obtain gw claim where g: "map_of (sn_Gateways snap) (?ns, pref_Name p) = Some gw"
    "map_of claims (gw_GatewayClassName gw) = Some claim" "cl_Claimed claim" "cl_Accepted claim"
    unfolding bindParent_accepted_iff by blast
  have "pres_Gateway (bindParent x snap claims k r p) = (?ns, pref_Name p)"
    using assms by (auto simp: bindParent_def Let_def split: option.splits sum.splits if_splits)
  with g show ?thesis by auto
qed

lemma bound_result_gateway:
  assumes "snap_wf snap" "BindRoutes x snap claims = Inr results" "map_of results k = Some ps" "p \<in> set ps" "pres_Accepted p"
  shows "\<exists>gw claim. map_of (sn_Gateways snap) (pres_Gateway p) = Some gw \<and>
    map_of claims (gw_GatewayClassName gw) = Some claim \<and> cl_Claimed claim \<and> cl_Accepted claim"
proof -
  have "results = settled x snap (bind_all x snap claims)" using assms(1,2) by (simp add: BindRoutes_settled)
  with assms(3,4) obtain r pref v where
    p: "p = settle x (pres_Gateway (bindParent x snap claims k r pref)) v (bindParent x snap claims k r pref)"
    by (auto simp: settled_lookup bind_all_lookup)
  then have "pres_Accepted (bindParent x snap claims k r pref)" using assms(5) by (simp add: settle_accepted)
  then show ?thesis using bindParent_accepted_gateway p by simp
qed

lemma accepted_claim_config:
  assumes "snap_wf snap" "map_of (ClaimClasses snap) n = Some claim" "cl_Accepted claim"
  shows "\<exists>config. cl_Config claim = Some config \<and> Validate (gcf_Spec config) = None"
  using assms(2,3) claim_class_config by (auto simp: ClaimClasses_lookup [OF assms(1)]) blast

lemma primary_config_valid:
  assumes "snap_wf snap" "primary_config x ro (ClaimClasses snap) snap = Some spec"
  shows "Validate spec = None"
proof -
  have "(case fst (fold (pick_primary x (ClaimClasses snap)) kgs st) of None \<Rightarrow> True | Some spec \<Rightarrow> Validate spec = None)"
    if "case fst st of None \<Rightarrow> True | Some spec \<Rightarrow> Validate spec = None" for kgs st
    using that
  proof (induction kgs arbitrary: st)
    case (Cons kg kgs)
    have "case fst (pick_primary x (ClaimClasses snap) kg st) of None \<Rightarrow> True | Some spec \<Rightarrow> Validate spec = None"
      using Cons.prems accepted_claim_config [OF assms(1)]
      by (fastforce simp: pick_primary_def managed_claim_def split: option.splits if_splits)
    then show ?case using Cons.IH by simp
  qed simp
  from this [of "(None, ('''', ''''))" "range_over (ro_Gateways ro) (sn_Gateways snap)"] assms(2) show ?thesis by (simp add: primary_config_def)
qed

lemma dedup_bound_set: "set (dedup_bound ps out) = set out \<union> {g. bound_to g ps}"
  by (induction ps out rule: dedup_bound.induct) (auto simp: bound_to_def)

lemma boundGatewaysFor_set: "set (boundGatewaysFor x ps) = {g. bound_to g ps}"
  by (simp add: boundGatewaysFor_def dedup_bound_set)

lemma dedup_bound_distinct: "distinct out \<Longrightarrow> distinct (dedup_bound ps out)"
  by (induction ps out rule: dedup_bound.induct) auto

lemma route_config_first:
  assumes "gs \<noteq> []" "map_of (sn_Gateways snap) (hd gs) = Some gw" "map_of claims (gw_GatewayClassName gw) = Some claim"
    "cl_Config claim = Some config"
  shows "route_config snap claims gs = Some (gcf_Spec config)"
  using assms by (cases gs) auto

lemma route_input_valid:
  assumes "snap_wf snap" "BindRoutes x snap (ClaimClasses snap) = Inr results"
    and "route_input x snap (ClaimClasses snap) results kr = Some inp"
  shows "\<exists>spec. ri_Config inp = Some spec \<and> Validate spec = None"
proof -
  let ?ps = "or_default (map_of results (fst kr)) []" and ?gs = "boundGatewaysFor x (or_default (map_of results (fst kr)) [])"
  have ne: "?gs \<noteq> []" and inp: "ri_Config inp = route_config snap (ClaimClasses snap) ?gs"
    using assms(3) by (auto simp: route_input_def Let_def split: if_splits)
  then have "bound_to (hd ?gs) ?ps" using boundGatewaysFor_set [of x ?ps] by (metis hd_in_set mem_Collect_eq)
  then obtain ps p where p: "map_of results (fst kr) = Some ps" "p \<in> set ps" "pres_Accepted p" "pres_Gateway p = hd ?gs"
    by (cases "map_of results (fst kr)") (auto simp: bound_to_def)
  from bound_result_gateway [OF assms(1,2) p(1-3)] obtain gw claim where
    gw: "map_of (sn_Gateways snap) (hd ?gs) = Some gw" "map_of (ClaimClasses snap) (gw_GatewayClassName gw) = Some claim" "cl_Accepted claim"
    using p(4) by auto
  from accepted_claim_config [OF assms(1) gw(2,3)] obtain config where "cl_Config claim = Some config" "Validate (gcf_Spec config) = None"
    by blast
  with route_config_first [OF ne gw(1,2)] inp show ?thesis by simp
qed

lemma table_inputs_valid:
  assumes "snap_wf snap" "BindRoutes x snap (ClaimClasses snap) = Inr results"
  shows "\<forall>inp\<in>set (table_inputs x ro snap (ClaimClasses snap) results). valid_input primary inp"
  using route_input_valid [OF assms] unfolding table_inputs_def
  by (fastforce simp: map_filter_def valid_input_def route_spec_def)

lemma buildTable_entries:
  assumes "snap_wf snap" "BindRoutes x snap (ClaimClasses snap) = Inr results"
  shows "\<exists>cfg. buildTable x ro snap (ClaimClasses snap) results = Inr cfg \<and> gm_wf (c_Upstreams cfg) \<and>
    ProxySettings (primary_config x ro (ClaimClasses snap) snap) = Inr (c_Proxy cfg) \<and>
    map_of (c_Upstreams cfg) = map_of (rev (upstream_entries (primary_config x ro (ClaimClasses snap) snap)
      (table_inputs x ro snap (ClaimClasses snap) results)))"
  unfolding buildTable_def
proof (rule BuildServerConfig_entries)
  show "case primary_config x ro (ClaimClasses snap) snap of None \<Rightarrow> True | Some spec \<Rightarrow> Validate spec = None"
    using primary_config_valid [OF assms(1)] by (auto split: option.split)
qed (rule table_inputs_valid [OF assms])

section \<open>The order of the visits\<close>

lemma range_over_perm:
  assumes "gm_wf m" "\<forall>ks. mset (order ks) = mset ks"
  shows "mset (range_over order m) = mset m"
proof -
  have "mset (range_over order m) = image_mset (\<lambda>k. (k, the (map_of m k))) (mset (map fst m))"
    using assms(2) by (simp add: range_over_def)
  also have "\<dots> = mset (map (\<lambda>kv. (fst kv, the (map_of m (fst kv)))) m)" by (simp add: multiset.map_comp comp_def)
  also have "map (\<lambda>kv. (fst kv, the (map_of m (fst kv)))) m = m" using assms(1) by (intro map_idI) auto
  finally show ?thesis .
qed

text \<open>With an unambiguous \<open>String\<close> the primary configuration is that of the smallest managed Gateway.\<close>

definition primary_of :: "Ext \<Rightarrow> (string, ClassClaim) gomap \<Rightarrow> (NamespacedName \<times> Gateway) list \<Rightarrow> GatewayConfigSpec option \<times> NamespacedName \<Rightarrow> bool" where
  "primary_of x claims kgs st \<longleftrightarrow>
     (fst st = None \<and> (\<forall>kg\<in>set kgs. managed_claim claims (snd kg) = None)) \<or>
     (\<exists>kg\<in>set kgs. \<exists>claim config. managed_claim claims (snd kg) = Some claim \<and> cl_Config claim = Some config \<and>
        st = (Some (gcf_Spec config), fst kg) \<and>
        (\<forall>kg'\<in>set kgs. managed_claim claims (snd kg') \<noteq> None \<longrightarrow> x_String x (fst kg) \<le> x_String x (fst kg')))"

lemma primary_of_fold:
  assumes "\<forall>kg\<in>set kgs. \<forall>claim. managed_claim claims (snd kg) = Some claim \<longrightarrow> cl_Config claim \<noteq> None"
  shows "primary_of x claims kgs (fold (pick_primary x claims) kgs (None, z))"
  using assms
proof (induction kgs rule: rev_induct)
  case (snoc kg kgs)
  then have IH: "primary_of x claims kgs (fold (pick_primary x claims) kgs (None, z))" by simp
  show ?case
  proof (cases "managed_claim claims (snd kg)")
    case None
    then have "fold (pick_primary x claims) (kgs @ [kg]) (None, z) = fold (pick_primary x claims) kgs (None, z)" by (simp add: pick_primary_def)
    then show ?thesis using IH None unfolding primary_of_def by auto
  next
    case (Some claim)
    then obtain config where config: "cl_Config claim = Some config" using snoc.prems by auto
    let ?st = "fold (pick_primary x claims) kgs (None, z)"
    show ?thesis
    proof (cases "fst ?st = None \<or> x_String x (fst kg) < x_String x (snd ?st)")
      case True
      then have "\<forall>kg'\<in>set kgs. managed_claim claims (snd kg') \<noteq> None \<longrightarrow> x_String x (fst kg) \<le> x_String x (fst kg')"
        using IH unfolding primary_of_def by (elim disjE bexE exE conjE) (force intro: order_trans)+
      then show ?thesis using True Some config unfolding primary_of_def by (intro disjI2 bexI [of _ kg]) (auto simp: pick_primary_def)
    next
      case False
      then have st: "fold (pick_primary x claims) (kgs @ [kg]) (None, z) = ?st" using Some by (auto simp: pick_primary_def)
      have "fst ?st \<noteq> None" using False by simp
      with IH obtain kg0 claim0 config0 where kg0: "kg0 \<in> set kgs" "managed_claim claims (snd kg0) = Some claim0" "cl_Config claim0 = Some config0"
        "?st = (Some (gcf_Spec config0), fst kg0)"
        "\<forall>kg'\<in>set kgs. managed_claim claims (snd kg') \<noteq> None \<longrightarrow> x_String x (fst kg0) \<le> x_String x (fst kg')"
        unfolding primary_of_def by blast
      moreover have "x_String x (fst kg0) \<le> x_String x (fst kg)" using False kg0(4) by (metis linorder_not_less snd_conv)
      ultimately show ?thesis unfolding st primary_of_def by (intro disjI2 bexI [of _ kg0]) auto
    qed
  qed
qed (simp add: primary_of_def)

lemma primary_of_unique:
  assumes "primary_of x claims kgs st" "primary_of x claims kgs' st'" "set kgs' = set kgs" "gm_wf kgs" "inj_on (x_String x) (fst ` set kgs)"
  shows "fst st' = fst st"
proof (cases "\<forall>kg\<in>set kgs. managed_claim claims (snd kg) = None")
  case True
  then show ?thesis using assms(1-3) by (auto simp: primary_of_def)
next
  case False
  obtain kg claim config where kg: "kg \<in> set kgs" "managed_claim claims (snd kg) = Some claim" "cl_Config claim = Some config"
    "st = (Some (gcf_Spec config), fst kg)" "\<forall>kg'\<in>set kgs. managed_claim claims (snd kg') \<noteq> None \<longrightarrow> x_String x (fst kg) \<le> x_String x (fst kg')"
    using assms(1) False unfolding primary_of_def by blast
  obtain kg' claim' config' where kg': "kg' \<in> set kgs" "managed_claim claims (snd kg') = Some claim'" "cl_Config claim' = Some config'"
    "st' = (Some (gcf_Spec config'), fst kg')" "\<forall>kg''\<in>set kgs. managed_claim claims (snd kg'') \<noteq> None \<longrightarrow> x_String x (fst kg') \<le> x_String x (fst kg'')"
    using assms(2,3) False unfolding primary_of_def by blast
  have "x_String x (fst kg) \<le> x_String x (fst kg')" "x_String x (fst kg') \<le> x_String x (fst kg)" using kg kg' by blast+
  then have "fst kg = fst kg'" using assms(5) kg(1) kg'(1) by (auto dest: inj_onD)
  then have "kg = kg'" using assms(4) kg(1) kg'(1) by (metis eq_key_imp_eq_value prod.collapse)
  then show ?thesis using kg kg' by simp
qed

lemma primary_config_order:
  assumes "snap_wf snap" "visits_all ro" "visits_all ro'" "inj_on (x_String x) (fst ` set (sn_Gateways snap))"
  shows "primary_config x ro' (ClaimClasses snap) snap = primary_config x ro (ClaimClasses snap) snap"
proof -
  let ?kgs = "\<lambda>ro. range_over (ro_Gateways ro) (sn_Gateways snap)"
  have wf: "gm_wf (sn_Gateways snap)" using assms(1) by (simp add: snap_wf_def)
  have perm: "mset (?kgs ro) = mset (sn_Gateways snap)" if "visits_all ro" for ro
    using that by (intro range_over_perm [OF wf]) (simp add: visits_all_def)
  have "primary_of x (ClaimClasses snap) (?kgs ro) (fold (pick_primary x (ClaimClasses snap)) (?kgs ro) (None, ('''', '''')))" for ro
    using accepted_claim_config [OF assms(1)] by (intro primary_of_fold) (fastforce simp: managed_claim_def split: option.splits if_splits)
  moreover have "set (?kgs ro) = set (sn_Gateways snap)" "set (?kgs ro') = set (sn_Gateways snap)" using perm assms(2,3) by (metis mset_eq_setD)+
  moreover have "gm_wf (?kgs ro)" using wf perm [OF assms(2)] by (metis mset_eq_imp_distinct_iff mset_map)
  ultimately show ?thesis unfolding primary_config_def using assms(4)
    by (intro primary_of_unique [where kgs = "?kgs ro" and kgs' = "?kgs ro'"]) simp_all
qed

text \<open>The inputs of the table in the order of the snapshot, and the names under which the table holds the backends.\<close>

definition bound_inputs :: "Ext \<Rightarrow> Snapshot \<Rightarrow> (string, ClassClaim) gomap \<Rightarrow> Results \<Rightarrow> RouteInput list" where
  "bound_inputs x snap claims results = List.map_filter (route_input x snap claims results) (sn_RsyncRoutes snap)"

definition table_names :: "Ext \<Rightarrow> Snapshot \<Rightarrow> Results \<Rightarrow> string list" where
  "table_names x snap results =
     map fst (upstream_entries None (bound_inputs x snap (ClaimClasses snap) results))"

lemma entry_names: "map fst (upstream_entries p inputs) = map fst (upstream_entries p' inputs)"
  by (simp add: upstream_entries_def route_entries_def map_concat comp_def case_prod_unfold)

lemma map_filter_perm: "mset xs = mset ys \<Longrightarrow> mset (List.map_filter f xs) = mset (List.map_filter f ys)"
  by (simp add: map_filter_def)

lemma entries_perm: "mset inputs = mset inputs' \<Longrightarrow> mset (upstream_entries p inputs) = mset (upstream_entries p inputs')"
proof -
  have "mset (upstream_entries p xs) = \<Sum>\<^sub># (image_mset (mset \<circ> route_entries p) (mset xs))" for xs
    by (induction xs) (simp_all add: upstream_entries_def)
  then show "mset inputs = mset inputs' \<Longrightarrow> ?thesis" by simp
qed

lemma table_inputs_perm:
  assumes "snap_wf snap" "visits_all ro"
  shows "mset (table_inputs x ro snap claims results) = mset (bound_inputs x snap claims results)"
  unfolding table_inputs_def bound_inputs_def using assms by (intro map_filter_perm range_over_perm) (simp_all add: visits_all_def snap_wf_def)

lemma bound_inputs_valid:
  assumes "snap_wf snap" "BindRoutes x snap (ClaimClasses snap) = Inr results"
  shows "\<forall>inp\<in>set (bound_inputs x snap (ClaimClasses snap) results). valid_input primary inp"
  using route_input_valid [OF assms] unfolding bound_inputs_def
  by (fastforce simp: map_filter_def valid_input_def route_spec_def)

text \<open>With distinct names the table has the entries of all routes, in whatever order they were visited.\<close>

lemma buildTable_lookup:
  assumes "snap_wf snap" "BindRoutes x snap (ClaimClasses snap) = Inr results" "visits_all ro" "distinct (table_names x snap results)"
    "buildTable x ro snap (ClaimClasses snap) results = Inr table"
  shows "map_of (c_Upstreams table) n = Some v \<longleftrightarrow> (n, v) \<in> set (upstream_entries (primary_config x ro (ClaimClasses snap) snap)
    (bound_inputs x snap (ClaimClasses snap) results))"
proof -
  let ?p = "primary_config x ro (ClaimClasses snap) snap" and ?is = "table_inputs x ro snap (ClaimClasses snap) results"
  let ?es = "upstream_entries ?p (bound_inputs x snap (ClaimClasses snap) results)"
  have m: "map_of (c_Upstreams table) = map_of (rev (upstream_entries ?p ?is))"
    using buildTable_entries [OF assms(1,2), of ro] assms(5) by auto
  have perm: "mset (upstream_entries ?p ?is) = mset ?es" by (intro entries_perm table_inputs_perm assms)
  have "distinct (map fst ?es)" using assms(4) unfolding table_names_def by (metis entry_names)
  then have "distinct (map fst (upstream_entries ?p ?is))" using perm by (metis mset_eq_imp_distinct_iff mset_map)
  then have "distinct (map fst (rev (upstream_entries ?p ?is)))" by (simp add: rev_map [symmetric])
  then have "map_of (rev (upstream_entries ?p ?is)) n = Some v \<longleftrightarrow> (n, v) \<in> set (upstream_entries ?p ?is)" by (simp add: map_of_eq_Some_iff)
  then show ?thesis using m mset_eq_setD [OF perm] by simp
qed

lemma buildTable_order:
  assumes "snap_wf snap" "BindRoutes x snap (ClaimClasses snap) = Inr results" "visits_all ro" "visits_all ro'"
    "distinct (table_names x snap results)" "inj_on (x_String x) (fst ` set (sn_Gateways snap))"
    "buildTable x ro snap (ClaimClasses snap) results = Inr table" "buildTable x ro' snap (ClaimClasses snap) results = Inr table'"
  shows "c_Proxy table' = c_Proxy table \<and> map_of (c_Upstreams table') = map_of (c_Upstreams table)"
proof
  note p = primary_config_order [OF assms(1,3,4,6)]
  have "ProxySettings (primary_config x ro (ClaimClasses snap) snap) = Inr (c_Proxy table)"
    "ProxySettings (primary_config x ro' (ClaimClasses snap) snap) = Inr (c_Proxy table')"
    using buildTable_entries [OF assms(1,2), of ro] buildTable_entries [OF assms(1,2), of ro'] assms(7,8) by auto
  then show "c_Proxy table' = c_Proxy table" unfolding p by simp
  have "map_of (c_Upstreams table') n = Some v \<longleftrightarrow> map_of (c_Upstreams table) n = Some v" for n v
    unfolding buildTable_lookup [OF assms(1,2,3,5,7)] buildTable_lookup [OF assms(1,2,4,5,8)] p ..
  then show "map_of (c_Upstreams table') = map_of (c_Upstreams table)" by (metis ext not_None_eq)
qed

text \<open>C34: The reconciler never panics: whatever the cluster holds and in whatever order its maps are visited, the routes are bound, the table is built and handed to the data plane,
  and only a failing list call stops a reconcile before that.\<close>

theorem Reconcile_never_panics:
  "\<exists>r. Reconcile x ro api now recorder bindAddrs Apply listed d = Inr r \<and>
     (case listed of
        Inl err \<Rightarrow> rc_dataplane r = d \<and> rc_error r \<noteq> None
      | Inr c \<Rightarrow> \<exists>snap results table. readSnapshot listed = Inr snap \<and> snap_wf snap \<and>
          BindRoutes x snap (ClaimClasses snap) = Inr results \<and> buildTable x ro snap (ClaimClasses snap) results = Inr table \<and>
          rc_dataplane r = fst (Apply table d))"
proof (cases listed)
  case (Inl err)
  then show ?thesis by (simp add: Reconcile_def readSnapshot_def)
next
  case (Inr c)
  then obtain snap where snap: "readSnapshot listed = Inr snap" "snap_wf snap"
    using NewSnapshot_wf by (simp add: readSnapshot_def)
  obtain results where results: "BindRoutes x snap (ClaimClasses snap) = Inr results" using BindRoutes_settled [OF snap(2)] by blast
  obtain table where "buildTable x ro snap (ClaimClasses snap) results = Inr table" using buildTable_entries [OF snap(2) results] by blast
  with Inr snap results show ?thesis by (simp add: Reconcile_def Let_def split: prod.split)
qed

end
