(* ===== verification/Quiescence.thy ===== *)
theory Quiescence
  imports Controller
begin

text \<open>
  Why the reconciler does not react to its own status writes (\<open>internal/controller/reconciler.go\<close>,
  \<open>writeStatuses\<close>). \<open>bare\<close> erases every status; claims, binding and table are functions of the erased
  snapshot, and each write leaves an object that compares equal to what the next reconcile wants.
\<close>

section \<open>Erasing the statuses\<close>

definition bare_class :: "GatewayClass \<Rightarrow> GatewayClass" where
  "bare_class gc = gc\<lparr>gcl_Conditions := []\<rparr>"

definition bare_config :: "GatewayConfig \<Rightarrow> GatewayConfig" where
  "bare_config c = c\<lparr>gcf_Conditions := []\<rparr>"

definition bare_gateway :: "Gateway \<Rightarrow> Gateway" where
  "bare_gateway gw = gw\<lparr>gw_Conditions := [], gw_StatusListeners := []\<rparr>"

definition bare_route :: "RsyncRoute \<Rightarrow> RsyncRoute" where
  "bare_route r = r\<lparr>rr_Parents := []\<rparr>"

definition bare_claim :: "ClassClaim \<Rightarrow> ClassClaim" where
  "bare_claim c = c\<lparr>cl_Config := map_option bare_config (cl_Config c)\<rparr>"

definition map_vals :: "('a \<Rightarrow> 'b) \<Rightarrow> ('k, 'a) gomap \<Rightarrow> ('k, 'b) gomap" where
  "map_vals f m = map (\<lambda>(k, v). (k, f v)) m"

definition bare :: "Snapshot \<Rightarrow> Snapshot" where
  "bare snap = snap
     \<lparr>sn_GatewayClasses := map_vals bare_class (sn_GatewayClasses snap),
      sn_GatewayConfigs := map_vals bare_config (sn_GatewayConfigs snap),
      sn_Gateways := map_vals bare_gateway (sn_Gateways snap),
      sn_RsyncRoutes := map_vals bare_route (sn_RsyncRoutes snap)\<rparr>"

named_theorems bare_simps "fields that erasing the statuses keeps"

lemma bare_fields [bare_simps]:
  "gcl_Meta (bare_class gc) = gcl_Meta gc" "gcl_ControllerName (bare_class gc) = gcl_ControllerName gc"
  "gcl_ParametersRef (bare_class gc) = gcl_ParametersRef gc"
  "gcf_Meta (bare_config c) = gcf_Meta c" "gcf_Spec (bare_config c) = gcf_Spec c"
  "gw_Meta (bare_gateway gw) = gw_Meta gw" "gw_GatewayClassName (bare_gateway gw) = gw_GatewayClassName gw"
  "gw_Listeners (bare_gateway gw) = gw_Listeners gw"
  "rr_Meta (bare_route r) = rr_Meta r" "rr_ParentRefs (bare_route r) = rr_ParentRefs r"
  "rr_ModuleNames (bare_route r) = rr_ModuleNames r" "rr_BackendRefs (bare_route r) = rr_BackendRefs r"
  "cl_Claimed (bare_claim cl) = cl_Claimed cl" "cl_Accepted (bare_claim cl) = cl_Accepted cl"
  "cl_Message (bare_claim cl) = cl_Message cl" "cl_Reason (bare_claim cl) = cl_Reason cl"
  "cl_Config (bare_claim cl) = map_option bare_config (cl_Config cl)"
  by (simp_all add: bare_class_def bare_config_def bare_gateway_def bare_route_def bare_claim_def)

lemma map_vals_lookup [bare_simps]: "map_of (map_vals f m) k = map_option f (map_of m k)"
  by (simp add: map_vals_def map_of_map)

lemma map_vals_keys [bare_simps]: "map fst (map_vals f m) = map fst m"
  by (simp add: map_vals_def comp_def case_prod_unfold)

lemma bare_snap [bare_simps]:
  "sn_GatewayClasses (bare snap) = map_vals bare_class (sn_GatewayClasses snap)"
  "sn_GatewayConfigs (bare snap) = map_vals bare_config (sn_GatewayConfigs snap)"
  "sn_Gateways (bare snap) = map_vals bare_gateway (sn_Gateways snap)"
  "sn_RsyncRoutes (bare snap) = map_vals bare_route (sn_RsyncRoutes snap)"
  "sn_Services (bare snap) = sn_Services snap" "sn_ReferenceGrants (bare snap) = sn_ReferenceGrants snap"
  by (simp_all add: bare_def)

lemma or_default_map: "or_default (map_option f v) (f d) = f (or_default v d)"
  by (cases v) simp_all

section \<open>Everything but the statuses is a function of the erased snapshot\<close>

lemma claim_class_bare: "claim_class (bare snap) n (bare_class gc) = bare_claim (claim_class snap n gc)"
  by (auto simp: claim_class_def resolveClassConfig_def bare_claim_def bare_simps Let_def split: option.split prod.split)

lemma ClaimClasses_bare: "ClaimClasses (bare snap) = map_vals bare_claim (ClaimClasses snap)"
proof -
  have upd: "map_vals bare_claim (AList.update n c m) = AList.update n (bare_claim c) (map_vals bare_claim m)" for n c m
    by (induction m) (auto simp: map_vals_def)
  have "fold (\<lambda>(n, gc). AList.update n (claim_class (bare snap) n gc)) (map_vals bare_class m) (map_vals bare_claim acc) =
      map_vals bare_claim (fold (\<lambda>(n, gc). AList.update n (claim_class snap n gc)) m acc)" for m acc
    by (induction m arbitrary: acc) (auto simp: map_vals_def [of bare_class] claim_class_bare upd [symmetric])
  from this [of _ "[]"] show ?thesis by (simp add: ClaimClasses_def bare_simps) (simp add: map_vals_def)
qed

lemma listenerAllows_bare: "listenerAllows x l ns k (bare_route r) = listenerAllows x l ns k r"
  unfolding listenerAllows_def namespacesAllow_def bare_simps ..

lemma bindParent_bare: "bindParent x (bare snap) (map_vals bare_claim claims) k (bare_route r) p = bindParent x snap claims k r p"
proof (cases "map_of (sn_Gateways snap) (ref_namespace (pref_Namespace p) (fst k), pref_Name p)")
  case None
  then show ?thesis by (simp add: bindParent_def Let_def bare_simps)
next
  case (Some gw)
  then show ?thesis
    by (cases "map_of claims (gw_GatewayClassName gw)")
      (simp_all add: bindParent_def Let_def bare_simps rsyncListeners_def listenerAllows_bare)
qed

lemma bind_all_bare: "bind_all x (bare snap) (map_vals bare_claim claims) = bind_all x snap claims"
  by (simp add: bind_all_def bare_simps map_vals_def [of bare_route] bindParent_bare [abs_def] comp_def case_prod_unfold)

lemma EffectiveModules_bare [bare_simps]: "EffectiveModules (bare_route r) = EffectiveModules r"
  by (simp add: EffectiveModules_def bare_simps)

lemma contend_bare: "contend x g (map_vals bare_route rs) owner results = contend x g rs owner results"
proof (induction x g rs owner results rule: contend.induct)
  case (2 x g k r rest owner results)
  then show ?case by (cases "first_claimed (EffectiveModules r) owner") (simp_all add: map_vals_def EffectiveModules_bare)
qed (simp add: map_vals_def)

lemma insort_bare:
  "insort_key (route_age x) (k, bare_route r) (map_vals bare_route rs) = map_vals bare_route (insort_key (route_age x) (k, r) rs)"
  by (induction rs) (auto simp: map_vals_def route_age_def bare_simps)

lemma sort_bare: "sort_key (route_age x) (map_vals bare_route rs) = map_vals bare_route (sort_key (route_age x) rs)"
proof (induction rs)
  case (Cons kr rs)
  then show ?case using insort_bare [of x "fst kr" "snd kr"] by (simp add: map_vals_def case_prod_unfold)
qed (simp add: map_vals_def)

lemma lookup_bare:
  "mapE (lookup_route (bare snap)) ks = map_sum id (map_vals bare_route) (mapE (lookup_route snap) ks)"
proof (induction ks)
  case (Cons k ks)
  have "lookup_route (bare snap) k = map_sum id (\<lambda>(k, r). (k, bare_route r)) (lookup_route snap k)"
    by (cases "map_of (sn_RsyncRoutes snap) k") (simp_all add: lookup_route_def bare_simps)
  with Cons show ?case
    by (cases "lookup_route snap k"; cases "mapE (lookup_route snap) ks") (auto simp: map_vals_def)
qed (simp add: map_vals_def)

lemma resolve_gateway_bare: "resolve_gateway x (bare snap) gb results = resolve_gateway x snap gb results"
  by (cases "mapE (lookup_route snap) (snd gb)") (simp_all add: resolve_gateway_def lookup_bare sort_bare contend_bare)

lemma BindRoutes_bare: "BindRoutes x (bare snap) (map_vals bare_claim claims) = BindRoutes x snap claims"
  by (simp add: BindRoutes_def resolveModuleConflicts_def bind_all_bare resolve_gateway_bare [abs_def])

lemma ResolveBackends_bare: "ResolveBackends x (bare snap) k (bare_route r) = ResolveBackends x snap k r"
proof -
  have "resolve_ref x (bare snap) k = resolve_ref x snap k"
    unfolding fun_eq_iff resolve_ref_def referenceGrantPermits_def bare_simps by (intro allI refl)
  then show ?thesis by (simp add: ResolveBackends_def bare_simps)
qed

lemma managed_claim_bare: "managed_claim (map_vals bare_claim claims) (bare_gateway gw) = map_option bare_claim (managed_claim claims gw)"
  by (simp add: managed_claim_def bare_simps split: option.split)

lemma pick_primary_bare: "pick_primary x (map_vals bare_claim claims) (k, bare_gateway gw) st = pick_primary x claims (k, gw) st"
  by (cases "managed_claim claims gw")
    (simp_all add: pick_primary_def managed_claim_bare bare_simps option.map_comp comp_def)

lemma range_over_vals:
  assumes "\<forall>ks. mset (order ks) = mset ks"
  shows "range_over order (map_vals f m) = map_vals f (range_over order m)"
proof -
  have "k \<in> fst ` set m" if "k \<in> set (order (map fst m))" for k using that assms by (metis mset_eq_setD set_map)
  then have "\<exists>v. map_of m k = Some v" if "k \<in> set (order (map fst m))" for k using that by (metis map_of_eq_None_iff not_None_eq)
  then have "(k, the (map_option f (map_of m k))) = (k, f (the (map_of m k)))" if "k \<in> set (order (map fst m))" for k using that by fastforce
  then show ?thesis unfolding range_over_def map_vals_keys map_vals_lookup by (simp add: map_vals_def [of _ "map _ _"])
qed

lemma primary_config_bare:
  assumes "visits_all ro"
  shows "primary_config x ro (map_vals bare_claim claims) (bare snap) = primary_config x ro claims snap"
proof -
  have "fold (pick_primary x (map_vals bare_claim claims)) (map_vals bare_gateway gws) st = fold (pick_primary x claims) gws st" for gws st
    by (induction gws arbitrary: st) (auto simp: map_vals_def [of bare_gateway] pick_primary_bare)
  then show ?thesis using assms by (simp add: primary_config_def bare_simps range_over_vals visits_all_def)
qed

lemma route_config_bare: "route_config (bare snap) (map_vals bare_claim claims) gs = route_config snap claims gs"
  by (induction snap claims gs rule: route_config.induct) (auto simp: bare_simps split: option.split)

lemma route_input_bare:
  "route_input x (bare snap) (map_vals bare_claim claims) results (k, bare_route r) = route_input x snap claims results (k, r)"
  by (simp add: route_input_def Let_def bare_simps route_config_bare ResolveBackends_bare)

lemma buildTable_bare:
  assumes "visits_all ro"
  shows "buildTable x ro (bare snap) (map_vals bare_claim claims) results = buildTable x ro snap claims results"
proof -
  have "List.map_filter (route_input x (bare snap) (map_vals bare_claim claims) results) (map_vals bare_route rs) =
      List.map_filter (route_input x snap claims results) rs" for rs
    by (induction rs) (auto simp: map_vals_def [of bare_route] map_filter_simps route_input_bare split: option.split)
  moreover have "range_over (ro_RsyncRoutes ro) (map_vals bare_route (sn_RsyncRoutes snap)) = map_vals bare_route (range_over (ro_RsyncRoutes ro) (sn_RsyncRoutes snap))"
    using assms by (intro range_over_vals) (simp add: visits_all_def)
  ultimately show ?thesis by (simp add: buildTable_def primary_config_bare [OF assms] table_inputs_def bare_simps)
qed

text \<open>Two snapshots that differ only in statuses have the same claims (up to statuses), results and table.\<close>

lemma same_bare:
  assumes "bare snap = bare snap'"
  shows "map_vals bare_claim (ClaimClasses snap) = map_vals bare_claim (ClaimClasses snap')"
    and "BindRoutes x snap (ClaimClasses snap) = BindRoutes x snap' (ClaimClasses snap')"
    and "visits_all ro \<Longrightarrow> buildTable x ro snap (ClaimClasses snap) results = buildTable x ro snap' (ClaimClasses snap') results"
proof -
  show c: "map_vals bare_claim (ClaimClasses snap) = map_vals bare_claim (ClaimClasses snap')"
    using assms by (metis ClaimClasses_bare)
  show "BindRoutes x snap (ClaimClasses snap) = BindRoutes x snap' (ClaimClasses snap')"
    by (metis BindRoutes_bare c assms)
  show "buildTable x ro snap (ClaimClasses snap) results = buildTable x ro snap' (ClaimClasses snap') results" if "visits_all ro"
    using that by (metis buildTable_bare c assms)
qed

section \<open>What one reconcile writes\<close>

text \<open>A loop over a map that stores the object of each entry at most once leaves the map of the stored objects.\<close>

lemma map_entry_middle:
  "k \<notin> fst ` set ys \<Longrightarrow> AList.map_entry k f (ys @ (k, v) # zs) = ys @ (k, f v) # zs"
  by (induction ys) auto

lemma map_loop:
  assumes "until_error f m w = (w', None)" "gm_wf m" "get w = m" "R w"
    and step: "\<And>k v w w'. (k, v) \<in> set m \<Longrightarrow> R w \<Longrightarrow> map_of (get w) k = Some v \<Longrightarrow> f (k, v) w = (w', None) \<Longrightarrow>
      R w' \<and> get w' = AList.map_entry k (\<lambda>_. upd k v) (get w)"
  shows "get w' = map (\<lambda>(k, v). (k, upd k v)) m \<and> R w'"
proof -
  have "get w' = map (\<lambda>(k, v). (k, upd k v)) m \<and> R w'"
    if "until_error f zs w = (w', None)" "m = ys @ zs" "get w = map (\<lambda>(k, v). (k, upd k v)) ys @ zs" "R w" for ys zs w
    using that
  proof (induction zs arbitrary: ys w)
    case (Cons kv zs)
    obtain k v where kv: "kv = (k, v)" by (cases kv)
    from Cons.prems(1) obtain w1 where w1: "f (k, v) w = (w1, None)" "until_error f zs w1 = (w', None)"
      by (auto simp: kv split: prod.splits option.splits)
    have new: "k \<notin> fst ` set (map (\<lambda>(k, v). (k, upd k v)) ys)"
      using assms(2) Cons.prems(2) by (force simp: kv)
    then have "map_of (map (\<lambda>(k, v). (k, upd k v)) ys) k = None" by (simp only: map_of_eq_None_iff not_False_eq_True)
    then have "map_of (get w) k = Some v" unfolding Cons.prems(3) by (simp add: map_add_def kv)
    from step [OF _ Cons.prems(4) this w1(1)] have "R w1" "get w1 = map (\<lambda>(k, v). (k, upd k v)) ys @ (k, upd k v) # zs"
      using Cons.prems(2,3) map_entry_middle [OF new] by (simp_all add: kv)
    then show ?case using Cons.IH [OF w1(2), of "ys @ [(k, v)]"] Cons.prems(2) by (simp add: kv)
  qed simp
  from this [of m w "[]"] assms(1,3,4) show ?thesis by simp
qed

lemma map_entry_same: "map_of m k = Some v \<Longrightarrow> AList.map_entry k (\<lambda>_. v) m = m"
  by (induction m) auto

lemma quiet_loop: "\<forall>a\<in>set xs. f a s = (s, None) \<Longrightarrow> until_error f xs s = (s, None)"
  by (induction xs) auto

text \<open>No condition of another writer.\<close>

definition own_conditions :: "Condition list \<Rightarrow> bool" where
  "own_conditions cs \<longleftrightarrow> length cs \<le> 1 \<and> list_all (\<lambda>c. cd_Type c = ''Accepted'') cs"

lemma own_cases: "own_conditions cs \<Longrightarrow> cs = [] \<or> (\<exists>c. cs = [c] \<and> cd_Type c = ''Accepted'')"
  by (cases cs) (auto simp: own_conditions_def)

lemma own_merge: "own_conditions cs \<Longrightarrow> cd_Type c = ''Accepted'' \<Longrightarrow> MergeConditions cs [c] = [c]"
  using own_cases [of cs] by (auto simp: MergeConditions_def replace_condition_def)

lemma stable_equal: "ConditionsEqual cs [StableCondition now ex c] \<longleftrightarrow> ConditionsEqual cs [c]"
  by (cases cs) (auto simp: ConditionsEqual_def conditionContentEqual_def StableCondition_find)

definition class_wants :: "(string, ClassClaim) gomap \<Rightarrow> string \<Rightarrow> GatewayClass \<Rightarrow> Condition option" where
  "class_wants claims name gc = (case map_of claims name of None \<Rightarrow> None | Some claim \<Rightarrow> ClassCondition (Some gc) claim)"

definition quiet_class :: "(string, ClassClaim) gomap \<Rightarrow> string \<Rightarrow> GatewayClass \<Rightarrow> bool" where
  "quiet_class claims name gc \<longleftrightarrow>
     (case class_wants claims name gc of None \<Rightarrow> True | Some cond \<Rightarrow> ConditionsEqual (gcl_Conditions gc) [cond])"

definition upd_class :: "int \<Rightarrow> (string, ClassClaim) gomap \<Rightarrow> string \<Rightarrow> GatewayClass \<Rightarrow> GatewayClass" where
  "upd_class now claims name gc =
     (case class_wants claims name gc of
        None \<Rightarrow> gc
      | Some cond \<Rightarrow>
          if ConditionsEqual (gcl_Conditions gc) [cond] then gc
          else gc\<lparr>gcl_Conditions := MergeConditions (gcl_Conditions gc) [StableCondition now (gcl_Conditions gc) cond]\<rparr>)"

lemma write_class_eq:
  "write_class api now claims (n, gc) w =
     (if quiet_class claims n gc then (w, None)
      else (w\<lparr>w_snap := (w_snap w)\<lparr>sn_GatewayClasses := AList.map_entry n (\<lambda>_. upd_class now claims n gc) (sn_GatewayClasses (w_snap w))\<rparr>,
              w_updates := w_updates w @ [RefClass n]\<rparr>,
            api_error (''update GatewayClass '' @ n @ '' status: '') (api (RefClass n))))"
  by (auto simp: write_class_def quiet_class_def upd_class_def class_wants_def Let_def stable_equal split: option.splits)

lemma upd_class_bare: "bare_class (upd_class now claims n gc) = bare_class gc"
  by (simp add: upd_class_def bare_class_def split: option.split)

lemma class_wants_bare: "class_wants (map_vals bare_claim claims) n (bare_class gc) = class_wants claims n gc"
  by (cases "map_of claims n") (simp_all add: class_wants_def bare_simps ClassCondition_def)

lemma upd_class_quiet:
  assumes "own_conditions (gcl_Conditions gc) \<or> class_wants claims n gc = None"
  shows "quiet_class claims n (upd_class now claims n gc)"
proof (cases "class_wants claims n gc")
  case None
  then show ?thesis by (simp add: upd_class_def quiet_class_def)
next
  case (Some cond)
  then have "cd_Type cond = ''Accepted''" "own_conditions (gcl_Conditions gc)"
    using assms by (auto simp: class_wants_def ClassCondition_def new_condition_def split: option.splits if_splits)
  then have m: "MergeConditions (gcl_Conditions gc) [StableCondition now (gcl_Conditions gc) cond] = [StableCondition now (gcl_Conditions gc) cond]"
    by (simp add: own_merge)
  have "class_wants claims n (upd_class now claims n gc) = Some cond"
    by (metis Some class_wants_bare upd_class_bare)
  then show ?thesis using Some
    by (simp add: quiet_class_def upd_class_def m stable_equal [symmetric, of _ cond now "gcl_Conditions gc"])
qed

definition upd_gateway :: "int \<Rightarrow> int list \<Rightarrow> (string, ClassClaim) gomap \<Rightarrow> Gateway \<Rightarrow> Gateway" where
  "upd_gateway now ports claims gw =
     (if managed_claim claims gw = None then gw
      else fst (write_status (\<lambda>gw. BuildGatewayStatus now gw ports) get_gateway_status put_gateway_status gateway_status_same gw))"

definition quiet_gateway :: "int \<Rightarrow> int list \<Rightarrow> (string, ClassClaim) gomap \<Rightarrow> Gateway \<Rightarrow> bool" where
  "quiet_gateway now ports claims gw \<longleftrightarrow>
     managed_claim claims gw = None \<or>
     \<not> snd (write_status (\<lambda>gw. BuildGatewayStatus now gw ports) get_gateway_status put_gateway_status gateway_status_same gw)"

lemma write_gateway_eq:
  "write_gateway x api now ports claims (k, gw) w =
     (if quiet_gateway now ports claims gw then (w, None)
      else (w\<lparr>w_snap := (w_snap w)\<lparr>sn_Gateways := AList.map_entry k (\<lambda>_. upd_gateway now ports claims gw) (sn_Gateways (w_snap w))\<rparr>,
              w_updates := w_updates w @ [RefGateway k]\<rparr>,
            api_error (''update Gateway '' @ x_String x k @ '' status: '') (api (RefGateway k))))"
  by (simp add: write_gateway_def quiet_gateway_def upd_gateway_def split: prod.split)

lemma unwritten_same: "\<not> snd (write_status build get put same ob) \<Longrightarrow> fst (write_status build get put same ob) = ob"
  by (simp add: write_status_def Let_def split: if_splits)

lemma upd_gateway_bare: "bare_gateway (upd_gateway now ports claims gw) = bare_gateway gw"
  by (simp add: upd_gateway_def write_status_def Let_def put_gateway_status_def bare_gateway_def)

lemma managed_bare: "managed_claim (map_vals bare_claim claims) (bare_gateway gw) = None \<longleftrightarrow> managed_claim claims gw = None"
  by (simp add: managed_claim_bare)

lemma upd_gateway_quiet:
  assumes "unique_listeners gw"
  shows "quiet_gateway now' ports claims (upd_gateway now ports claims gw)"
proof (cases "managed_claim claims gw")
  case None
  then show ?thesis by (simp add: quiet_gateway_def upd_gateway_def)
next
  case (Some c)
  then show ?thesis using gws.write_once [OF assms] by (simp add: quiet_gateway_def upd_gateway_def)
qed

definition route_backends :: "Ext \<Rightarrow> Snapshot \<Rightarrow> NamespacedName \<Rightarrow> RsyncRoute \<Rightarrow> ParentResult list \<Rightarrow> BackendStatus" where
  "route_backends x snap k r perParent =
     (if routeAccepted perParent then snd (ResolveBackends x snap k r)
      else \<lparr>bs_Resolved = True, bs_Reason = ''ResolvedRefs'', bs_Message = ''''\<rparr>)"

definition rewrite_route :: "int \<Rightarrow> ParentResult list \<Rightarrow> BackendStatus \<Rightarrow> RsyncRoute \<Rightarrow> RsyncRoute \<times> bool" where
  "rewrite_route now perParent backends =
     write_status (\<lambda>r. BuildRouteStatus now r perParent backends) rr_Parents (\<lambda>ps. rr_Parents_update (\<lambda>_. ps)) ParentStatusesEqual"

definition upd_route :: "Ext \<Rightarrow> int \<Rightarrow> Snapshot \<Rightarrow> Results \<Rightarrow> NamespacedName \<Rightarrow> RsyncRoute \<Rightarrow> RsyncRoute" where
  "upd_route x now snap results k r =
     (case map_of results k of None \<Rightarrow> r | Some ps \<Rightarrow> fst (rewrite_route now ps (route_backends x snap k r ps) r))"

definition quiet_route :: "Ext \<Rightarrow> int \<Rightarrow> Snapshot \<Rightarrow> Results \<Rightarrow> NamespacedName \<Rightarrow> RsyncRoute \<Rightarrow> bool" where
  "quiet_route x now snap results k r \<longleftrightarrow>
     (case map_of results k of None \<Rightarrow> True | Some ps \<Rightarrow> \<not> snd (rewrite_route now ps (route_backends x snap k r ps) r))"

lemma ResolveBackends_frame:
  "sn_Services snap = sn_Services snap' \<Longrightarrow> sn_ReferenceGrants snap = sn_ReferenceGrants snap' \<Longrightarrow>
   ResolveBackends x snap k r = ResolveBackends x snap' k r"
  unfolding ResolveBackends_def resolve_ref_def referenceGrantPermits_def by (simp only:)

lemma write_route_eq:
  assumes "write_route x api now recorder results (k, r) w = (w', None)"
    and "sn_Services (w_snap w) = sn_Services snap" "sn_ReferenceGrants (w_snap w) = sn_ReferenceGrants snap"
  shows "w_snap w' = (if quiet_route x now snap results k r then w_snap w
    else (w_snap w)\<lparr>sn_RsyncRoutes := AList.map_entry k (\<lambda>_. upd_route x now snap results k r) (sn_RsyncRoutes (w_snap w))\<rparr>)"
  using assms(1)
  by (auto simp: write_route_def quiet_route_def upd_route_def rewrite_route_def route_backends_def Let_def
      ResolveBackends_frame [OF assms(2,3)] split: option.splits prod.splits api_result.splits if_splits)

lemma write_route_quiet:
  assumes "quiet_route x now snap results k r" "w_snap w = snap"
  shows "write_route x api now recorder results (k, r) w = (w, None)"
  using assms by (auto simp: write_route_def quiet_route_def rewrite_route_def route_backends_def Let_def split: option.splits prod.splits)

lemma upd_route_bare: "bare_route (upd_route x now snap results k r) = bare_route r"
  by (simp add: upd_route_def rewrite_route_def write_status_def Let_def bare_route_def split: option.split)

lemma upd_route_quiet:
  assumes "bare snap = bare snap'"
  shows "quiet_route x now' snap' results k (upd_route x now snap results k r)"
proof (cases "map_of results k")
  case (Some ps)
  have "ResolveBackends x snap' k (upd_route x now snap results k r) = ResolveBackends x snap k r"
    by (metis ResolveBackends_bare assms upd_route_bare)
  then have "route_backends x snap' k (upd_route x now snap results k r) ps = route_backends x snap k r ps"
    by (simp add: route_backends_def)
  moreover have "\<not> snd (rewrite_route now' ps b (fst (rewrite_route now ps b r)))" for b
    unfolding rewrite_route_def by (rule rts.write_once) simp
  ultimately show ?thesis using Some by (simp add: quiet_route_def) (simp add: upd_route_def)
qed (simp add: quiet_route_def upd_route_def)

section \<open>The statuses of the configurations\<close>

definition config_wants :: "string option \<Rightarrow> GatewayConfig \<Rightarrow> Condition" where
  "config_wants applyErr config =
     (case applyErr of
        Some e \<Rightarrow> new_condition ''Accepted'' ''False'' ''Invalid'' (''failed to apply data-plane configuration: '' @ e)
          (om_Generation (gcf_Meta config))
      | None \<Rightarrow> new_condition ''Accepted'' ''True'' ''Accepted'' ''configuration applied to the data plane''
          (om_Generation (gcf_Meta config)))"

definition claimed_config :: "ClassClaim \<Rightarrow> string option" where
  "claimed_config claim = (if \<not> cl_Claimed claim then None else map_option (\<lambda>cfg. om_Name (gcf_Meta cfg)) (cl_Config claim))"

definition quiet_config :: "string option \<Rightarrow> Snapshot \<Rightarrow> string option \<Rightarrow> bool" where
  "quiet_config applyErr snap name \<longleftrightarrow>
     (case Option.bind name (map_of (sn_GatewayConfigs snap)) of
        None \<Rightarrow> True
      | Some config \<Rightarrow> ConditionsEqual (gcf_Conditions config) [config_wants applyErr config])"

definition upd_config :: "int \<Rightarrow> string option \<Rightarrow> GatewayConfig \<Rightarrow> GatewayConfig" where
  "upd_config now applyErr config = config\<lparr>gcf_Conditions := MergeConditions (gcf_Conditions config)
     [StableCondition now (gcf_Conditions config) (config_wants applyErr config)]\<rparr>"

lemma write_config_eq:
  "write_config api now applyErr (n, claim) w =
     (case Option.bind (claimed_config claim) (\<lambda>n. map_option (Pair n) (map_of (sn_GatewayConfigs (w_snap w)) n)) of
        None \<Rightarrow> (w, None)
      | Some (name, config) \<Rightarrow>
          if quiet_config applyErr (w_snap w) (claimed_config claim) then (w, None)
          else (w\<lparr>w_snap := (w_snap w)\<lparr>sn_GatewayConfigs :=
                    AList.map_entry name (\<lambda>_. upd_config now applyErr config) (sn_GatewayConfigs (w_snap w))\<rparr>,
                  w_updates := w_updates w @ [RefConfig name]\<rparr>,
                api_error (''update GatewayConfig '' @ name @ '' status: '') (api (RefConfig name))))"
  by (auto simp: write_config_def claimed_config_def quiet_config_def upd_config_def config_wants_def Let_def stable_equal
      split: option.splits)

lemma upd_config_bare: "bare_config (upd_config now e c) = bare_config c"
  by (simp add: upd_config_def bare_config_def)

lemma upd_config_own:
  assumes "own_conditions (gcf_Conditions c)"
  shows "own_conditions (gcf_Conditions (upd_config now e c))"
    and "ConditionsEqual (gcf_Conditions (upd_config now e c)) [config_wants e (upd_config now e c)]"
proof -
  have "cd_Type (config_wants e c) = ''Accepted''" by (simp add: config_wants_def new_condition_def split: option.split)
  then have m: "gcf_Conditions (upd_config now e c) = [StableCondition now (gcf_Conditions c) (config_wants e c)]"
    using own_merge [OF assms] by (simp add: upd_config_def)
  then show "own_conditions (gcf_Conditions (upd_config now e c))"
    using \<open>cd_Type (config_wants e c) = ''Accepted''\<close> by (simp add: own_conditions_def)
  have "config_wants e (upd_config now e c) = config_wants e c"
    by (cases e) (simp_all add: config_wants_def upd_config_def)
  then show "ConditionsEqual (gcf_Conditions (upd_config now e c)) [config_wants e (upd_config now e c)]"
    by (simp add: m stable_equal [symmetric, of _ "config_wants e c" now "gcf_Conditions c"])
qed

definition own_configs :: "Snapshot \<Rightarrow> bool" where
  "own_configs snap \<longleftrightarrow> (\<forall>n c. map_of (sn_GatewayConfigs snap) n = Some c \<longrightarrow> own_conditions (gcf_Conditions c))"

definition same_but_configs :: "Snapshot \<Rightarrow> Snapshot \<Rightarrow> bool" where
  "same_but_configs a b \<longleftrightarrow> sn_GatewayClasses b = sn_GatewayClasses a \<and> sn_Gateways b = sn_Gateways a \<and>
     sn_RsyncRoutes b = sn_RsyncRoutes a \<and> sn_Services b = sn_Services a \<and> sn_ReferenceGrants b = sn_ReferenceGrants a \<and>
     map_vals bare_config (sn_GatewayConfigs b) = map_vals bare_config (sn_GatewayConfigs a)"

lemma map_vals_entry:
  "map_of m k = Some v \<Longrightarrow> f v' = f v \<Longrightarrow> map_vals f (AList.map_entry k (\<lambda>_. v') m) = map_vals f m"
  by (induction m) (auto simp: map_vals_def split: if_splits)

lemma write_config_frame:
  assumes "write_config api now e (n, claim) w = (w', None)"
  shows "same_but_configs (w_snap w) (w_snap w')"
  using assms map_vals_entry [of "sn_GatewayConfigs (w_snap w)" _ _ bare_config, OF _ upd_config_bare]
  by (auto simp: write_config_eq same_but_configs_def bind_eq_Some_conv split: option.splits if_splits)

lemma write_config_step:
  assumes "write_config api now e (n, claim) w = (w', None)" "own_configs (w_snap w)"
  shows "own_configs (w_snap w') \<and> quiet_config e (w_snap w') (claimed_config claim) \<and>
    (\<forall>name. quiet_config e (w_snap w) name \<longrightarrow> quiet_config e (w_snap w') name)"
proof (cases "quiet_config e (w_snap w) (claimed_config claim)")
  case True
  then have "w' = w" using assms(1) by (auto simp: write_config_eq split: option.splits prod.splits)
  then show ?thesis using assms(2) True by simp
next
  case False
  then obtain name config where c: "claimed_config claim = Some name" "map_of (sn_GatewayConfigs (w_snap w)) name = Some config"
    by (auto simp: quiet_config_def split: option.splits bind_splits)
  then have w': "w_snap w' = (w_snap w)\<lparr>sn_GatewayConfigs :=
      AList.map_entry name (\<lambda>_. upd_config now e config) (sn_GatewayConfigs (w_snap w))\<rparr>"
    using assms(1) False by (auto simp: write_config_eq)
  have own: "own_conditions (gcf_Conditions config)" using assms(2) c(2) by (simp add: own_configs_def)
  have look: "map_of (sn_GatewayConfigs (w_snap w')) m =
      (if m = name then Some (upd_config now e config) else map_of (sn_GatewayConfigs (w_snap w)) m)" for m
    using c(2) by (simp add: w' map_of_map_entry)
  have "own_configs (w_snap w')" using assms(2) upd_config_own(1) [OF own] unfolding own_configs_def look by simp
  moreover have "quiet_config e (w_snap w') (claimed_config claim)" using upd_config_own(2) [OF own] by (simp add: quiet_config_def c(1) look)
  moreover have "quiet_config e (w_snap w') m" if "quiet_config e (w_snap w) m" for m
    using that upd_config_own(2) [OF own] by (cases m) (auto simp: quiet_config_def look)
  ultimately show ?thesis by blast
qed

lemma config_loop:
  assumes "until_error (write_config api now e) cs w = (w', None)"
  shows "same_but_configs (w_snap w) (w_snap w') \<and> (own_configs (w_snap w) \<longrightarrow>
    (\<forall>(n, claim)\<in>set cs. quiet_config e (w_snap w') (claimed_config claim)) \<and>
    (\<forall>name. quiet_config e (w_snap w) name \<longrightarrow> quiet_config e (w_snap w') name))"
  using assms
proof (induction cs arbitrary: w)
  case Nil
  then show ?case by (simp add: same_but_configs_def)
next
  case (Cons nc cs)
  obtain n claim where nc: "nc = (n, claim)" by (cases nc)
  from Cons.prems obtain w1 where w1: "write_config api now e (n, claim) w = (w1, None)" "until_error (write_config api now e) cs w1 = (w', None)"
    by (auto simp: nc split: prod.splits option.splits)
  note rest = Cons.IH [OF w1(2)]
  have "same_but_configs (w_snap w) (w_snap w')" using write_config_frame [OF w1(1)] rest by (simp add: same_but_configs_def)
  then show ?case using write_config_step [OF w1(1)] rest by (auto simp: nc)
qed

section \<open>The second reconcile\<close>

lemma then_ok_None: "then_ok r f = (w, None) \<longleftrightarrow> (\<exists>s. r = (s, None) \<and> f s = (w, None))"
  by (cases r; cases "snd r") (auto simp: then_ok_def)

lemma class_loop:
  assumes "until_error (write_class api now claims) (sn_GatewayClasses snap) w = (w', None)" "w_snap w = snap" "gm_wf (sn_GatewayClasses snap)"
  shows "w_snap w' = snap\<lparr>sn_GatewayClasses := map (\<lambda>(n, gc). (n, upd_class now claims n gc)) (sn_GatewayClasses snap)\<rparr>"
proof -
  let ?R = "\<lambda>w. (w_snap w)\<lparr>sn_GatewayClasses := []\<rparr> = snap\<lparr>sn_GatewayClasses := []\<rparr>"
  have "sn_GatewayClasses (w_snap w') = map (\<lambda>(n, gc). (n, upd_class now claims n gc)) (sn_GatewayClasses snap) \<and> ?R w'"
  proof (rule map_loop [OF assms(1,3), where R = ?R])
    fix n gc and v v' :: Writes
    assume v: "?R v" "map_of (sn_GatewayClasses (w_snap v)) n = Some gc" "write_class api now claims (n, gc) v = (v', None)"
    have "upd_class now claims n gc = gc" if "quiet_class claims n gc"
      using that by (simp add: quiet_class_def upd_class_def split: option.splits)
    then show "?R v' \<and> sn_GatewayClasses (w_snap v') = AList.map_entry n (\<lambda>_. upd_class now claims n gc) (sn_GatewayClasses (w_snap v))"
      using v by (auto simp: write_class_eq map_entry_same split: if_splits)
  qed (use assms(2) in simp_all)
  then show ?thesis by (cases "w_snap w'"; cases snap) simp
qed

lemma gateway_loop:
  assumes "until_error (write_gateway x api now ports claims) (sn_Gateways snap) w = (w', None)" "w_snap w = snap" "gm_wf (sn_Gateways snap)"
  shows "w_snap w' = snap\<lparr>sn_Gateways := map (\<lambda>(k, gw). (k, upd_gateway now ports claims gw)) (sn_Gateways snap)\<rparr>"
proof -
  let ?R = "\<lambda>w. (w_snap w)\<lparr>sn_Gateways := []\<rparr> = snap\<lparr>sn_Gateways := []\<rparr>"
  have "sn_Gateways (w_snap w') = map (\<lambda>(k, gw). (k, upd_gateway now ports claims gw)) (sn_Gateways snap) \<and> ?R w'"
  proof (rule map_loop [OF assms(1,3), where R = ?R])
    fix k gw and v v' :: Writes
    assume v: "?R v" "map_of (sn_Gateways (w_snap v)) k = Some gw" "write_gateway x api now ports claims (k, gw) v = (v', None)"
    have "upd_gateway now ports claims gw = gw" if "quiet_gateway now ports claims gw"
      using that by (auto simp: quiet_gateway_def upd_gateway_def unwritten_same)
    then show "?R v' \<and> sn_Gateways (w_snap v') = AList.map_entry k (\<lambda>_. upd_gateway now ports claims gw) (sn_Gateways (w_snap v))"
      using v by (auto simp: write_gateway_eq map_entry_same split: if_splits)
  qed (use assms(2) in simp_all)
  then show ?thesis by (cases "w_snap w'"; cases snap) simp
qed

lemma route_loop:
  assumes "until_error (write_route x api now recorder results) (sn_RsyncRoutes snap) w = (w', None)" "w_snap w = snap" "gm_wf (sn_RsyncRoutes snap)"
  shows "w_snap w' = snap\<lparr>sn_RsyncRoutes := map (\<lambda>(k, r). (k, upd_route x now snap results k r)) (sn_RsyncRoutes snap)\<rparr>"
proof -
  let ?R = "\<lambda>w. (w_snap w)\<lparr>sn_RsyncRoutes := []\<rparr> = snap\<lparr>sn_RsyncRoutes := []\<rparr>"
  have "sn_RsyncRoutes (w_snap w') = map (\<lambda>(k, r). (k, upd_route x now snap results k r)) (sn_RsyncRoutes snap) \<and> ?R w'"
  proof (rule map_loop [OF assms(1,3), where R = ?R])
    fix k r and v v' :: Writes
    assume v: "?R v" "map_of (sn_RsyncRoutes (w_snap v)) k = Some r" "write_route x api now recorder results (k, r) v = (v', None)"
    have same: "sn_Services (w_snap v) = sn_Services snap" "sn_ReferenceGrants (w_snap v) = sn_ReferenceGrants snap"
      using v(1) by (cases "w_snap v"; cases snap; simp)+
    have "upd_route x now snap results k r = r" if "quiet_route x now snap results k r"
      using that by (auto simp: quiet_route_def upd_route_def rewrite_route_def unwritten_same split: option.splits)
    then show "?R v' \<and> sn_RsyncRoutes (w_snap v') = AList.map_entry k (\<lambda>_. upd_route x now snap results k r) (sn_RsyncRoutes (w_snap v))"
      using v(1,2) write_route_eq [OF v(3) same] by (auto simp: map_entry_same split: if_splits)
  qed (use assms(2) in simp_all)
  then show ?thesis by (cases "w_snap w'"; cases snap) simp
qed

lemma bareI:
  "map_vals bare_class (sn_GatewayClasses a) = map_vals bare_class (sn_GatewayClasses b) \<Longrightarrow>
   map_vals bare_config (sn_GatewayConfigs a) = map_vals bare_config (sn_GatewayConfigs b) \<Longrightarrow>
   map_vals bare_gateway (sn_Gateways a) = map_vals bare_gateway (sn_Gateways b) \<Longrightarrow>
   map_vals bare_route (sn_RsyncRoutes a) = map_vals bare_route (sn_RsyncRoutes b) \<Longrightarrow>
   sn_Services a = sn_Services b \<Longrightarrow> sn_ReferenceGrants a = sn_ReferenceGrants b \<Longrightarrow> bare a = bare b"
  by (cases a; cases b) (simp add: bare_def)

lemma map_vals_upd: "(\<And>k v. f (u k v) = f v) \<Longrightarrow> map_vals f (map (\<lambda>(k, v). (k, u k v)) m) = map_vals f m"
  by (auto simp: map_vals_def)

lemmas bare_upds = map_vals_upd [of bare_class, OF upd_class_bare] map_vals_upd [of bare_gateway, OF upd_gateway_bare]
  map_vals_upd [of bare_route, OF upd_route_bare]

lemma statuses_written:
  assumes run: "writeStatuses x api now recorder addrs snap claims results e = (w, None)" and wf: "snap_wf snap"
  obtains s2 where "bare s2 = bare snap" "bare (w_snap w) = bare snap"
    "sn_GatewayClasses (w_snap w) = map (\<lambda>(n, gc). (n, upd_class now claims n gc)) (sn_GatewayClasses snap)"
    "sn_Gateways (w_snap w) = map (\<lambda>(k, gw). (k, upd_gateway now (ServedPorts addrs) claims gw)) (sn_Gateways snap)"
    "sn_RsyncRoutes (w_snap w) = map (\<lambda>(k, r). (k, upd_route x now s2 results k r)) (sn_RsyncRoutes snap)"
    "own_configs snap \<longrightarrow> (\<forall>(n, claim)\<in>set claims. quiet_config e (w_snap w) (claimed_config claim))"
proof -
  let ?w0 = "\<lparr>w_snap = snap, w_updates = [], w_events = []\<rparr>"
  from run obtain w1 w2 w3 where
    1: "until_error (write_class api now claims) (sn_GatewayClasses snap) ?w0 = (w1, None)" and
    2: "until_error (write_gateway x api now (ServedPorts addrs) claims) (sn_Gateways snap) w1 = (w2, None)" and
    3: "until_error (write_route x api now recorder results) (sn_RsyncRoutes snap) w2 = (w3, None)" and
    4: "until_error (write_config api now e) claims w3 = (w, None)"
    by (auto simp: writeStatuses_def Let_def then_ok_None)
  have keys: "gm_wf (sn_GatewayClasses snap)" "gm_wf (sn_Gateways snap)" "gm_wf (sn_RsyncRoutes snap)" using wf by (simp_all add: snap_wf_def)
  have s1: "w_snap w1 = snap\<lparr>sn_GatewayClasses := map (\<lambda>(n, gc). (n, upd_class now claims n gc)) (sn_GatewayClasses snap)\<rparr>"
    using class_loop [OF 1 _ keys(1)] by simp
  have s2: "w_snap w2 = (w_snap w1)\<lparr>sn_Gateways := map (\<lambda>(k, gw). (k, upd_gateway now (ServedPorts addrs) claims gw)) (sn_Gateways snap)\<rparr>"
    using gateway_loop [of x api now "ServedPorts addrs" claims "w_snap w1" w1 w2] 2 keys(2) by (simp add: s1)
  have s3: "w_snap w3 = (w_snap w2)\<lparr>sn_RsyncRoutes := map (\<lambda>(k, r). (k, upd_route x now (w_snap w2) results k r)) (sn_RsyncRoutes snap)\<rparr>"
    using route_loop [of x api now recorder results "w_snap w2" w2 w3] 3 keys(3) by (simp add: s1 s2)
  have "own_configs (w_snap w3) = own_configs snap" by (simp add: s1 s2 s3 own_configs_def)
  with config_loop [OF 4] have s4: "same_but_configs (w_snap w3) (w_snap w)"
    and quiet: "own_configs snap \<longrightarrow> (\<forall>(n, claim)\<in>set claims. quiet_config e (w_snap w) (claimed_config claim))" by blast+
  show thesis
  proof (rule that [of "w_snap w2"])
    show "bare (w_snap w2) = bare snap" by (rule bareI) (simp_all add: s1 s2 bare_upds)
    show "bare (w_snap w) = bare snap" using s4 unfolding same_but_configs_def by (intro bareI) (simp_all add: s1 s2 s3 bare_upds)
  qed (use s4 quiet in \<open>simp_all add: same_but_configs_def s1 s2 s3\<close>)
qed

lemma statuses_quiet:
  assumes "\<forall>(n, gc)\<in>set (sn_GatewayClasses snap). quiet_class claims n gc"
    and "\<forall>(k, gw)\<in>set (sn_Gateways snap). quiet_gateway now (ServedPorts addrs) claims gw"
    and "\<forall>(k, r)\<in>set (sn_RsyncRoutes snap). quiet_route x now snap results k r"
    and "\<forall>(n, claim)\<in>set claims. quiet_config e snap (claimed_config claim)"
  shows "writeStatuses x api now recorder addrs snap claims results e = (\<lparr>w_snap = snap, w_updates = [], w_events = []\<rparr>, None)"
proof -
  let ?w = "\<lparr>w_snap = snap, w_updates = [], w_events = []\<rparr>"
  have "until_error (write_class api now claims) (sn_GatewayClasses snap) ?w = (?w, None)"
    using assms(1) by (intro quiet_loop) (auto simp: write_class_eq)
  moreover have "until_error (write_gateway x api now (ServedPorts addrs) claims) (sn_Gateways snap) ?w = (?w, None)"
    using assms(2) by (intro quiet_loop) (auto simp: write_gateway_eq)
  moreover have "until_error (write_route x api now recorder results) (sn_RsyncRoutes snap) ?w = (?w, None)"
    using assms(3) by (intro quiet_loop) (auto simp: write_route_quiet)
  moreover have "until_error (write_config api now e) claims ?w = (?w, None)"
    using assms(4) by (intro quiet_loop) (auto simp: write_config_eq split: option.split)
  ultimately show ?thesis by (simp add: writeStatuses_def Let_def then_ok_def)
qed

lemma statuses_settle:
  assumes run: "writeStatuses x api now recorder addrs snap (ClaimClasses snap) results e = (w, None)" and wf: "snap_wf snap"
    and own: "own_configs snap" "\<forall>(n, gc)\<in>set (sn_GatewayClasses snap). own_conditions (gcl_Conditions gc)"
    and unique: "\<forall>(k, gw)\<in>set (sn_Gateways snap). unique_listeners gw"
  shows "bare (w_snap w) = bare snap \<and>
    writeStatuses x api' now' recorder' addrs (w_snap w) (ClaimClasses (w_snap w)) results e =
      (\<lparr>w_snap = w_snap w, w_updates = [], w_events = []\<rparr>, None)"
proof -
  let ?claims = "ClaimClasses snap" and ?claims' = "ClaimClasses (w_snap w)"
  obtain s2 where s: "bare s2 = bare snap" "bare (w_snap w) = bare snap"
    "sn_GatewayClasses (w_snap w) = map (\<lambda>(n, gc). (n, upd_class now ?claims n gc)) (sn_GatewayClasses snap)"
    "sn_Gateways (w_snap w) = map (\<lambda>(k, gw). (k, upd_gateway now (ServedPorts addrs) ?claims gw)) (sn_Gateways snap)"
    "sn_RsyncRoutes (w_snap w) = map (\<lambda>(k, r). (k, upd_route x now s2 results k r)) (sn_RsyncRoutes snap)"
    "\<forall>(n, claim)\<in>set ?claims. quiet_config e (w_snap w) (claimed_config claim)"
    using statuses_written [OF run wf] own(1) by blast
  note claims = same_bare(1) [OF s(2)]
  have "quiet_class ?claims' n gc = quiet_class ?claims n gc" for n gc
    using class_wants_bare claims unfolding quiet_class_def by metis
  moreover have "quiet_gateway now' ports ?claims' gw = quiet_gateway now' ports ?claims gw" for ports gw
    using managed_bare claims unfolding quiet_gateway_def by metis
  moreover have "\<exists>n' claim'. (n', claim') \<in> set ?claims \<and> claimed_config claim = claimed_config claim'" if "(n, claim) \<in> set ?claims'" for n claim
  proof -
    have "(n, bare_claim claim) \<in> set (map_vals bare_claim ?claims)" using that claims [symmetric] by (force simp: map_vals_def)
    then obtain claim' where "(n, claim') \<in> set ?claims" "bare_claim claim = bare_claim claim'" by (auto simp: map_vals_def)
    moreover have "claimed_config c = claimed_config (bare_claim c)" for c
      by (simp add: claimed_config_def bare_simps option.map_comp comp_def)
    ultimately show ?thesis by metis
  qed
  ultimately show ?thesis using s(2) own(2) unique s(6)
    by (intro conjI statuses_quiet) (fastforce simp: s(3-5) intro!: upd_class_quiet upd_gateway_quiet upd_route_quiet s(1))+
qed

text \<open>The cluster after the writes of a reconcile: the objects of its snapshot, with the statuses it stored.\<close>

definition stored :: "Snapshot \<Rightarrow> Cluster \<Rightarrow> Cluster" where
  "stored snap c = c\<lparr>cs_classes := map snd (sn_GatewayClasses snap), cs_configs := map snd (sn_GatewayConfigs snap),
     cs_gateways := map snd (sn_Gateways snap), cs_routes := map snd (sn_RsyncRoutes snap)\<rparr>"

lemma index_by_stored:
  assumes "gm_wf m" "\<forall>(k, v)\<in>set m. key v = k"
  shows "index_by key (map Some (map snd m)) [] = m"
proof -
  have "index_by key (map Some (map snd m)) acc = acc @ m" if "gm_wf (acc @ m)" "\<forall>(k, v)\<in>set m. key v = k" for acc m
    using that by (induction m arbitrary: acc) (auto simp: update_absent)
  from this [of "[]"] assms show ?thesis by simp
qed

lemma update_entry: "kv \<in> set (AList.update a b m) \<Longrightarrow> kv = (a, b) \<or> kv \<in> set m"
  by (induction m) (auto split: if_splits)

lemma index_by_values: "(k, v) \<in> set (index_by key xs m) \<Longrightarrow> Some v \<in> set xs \<or> (k, v) \<in> set m"
  by (induction key xs m rule: index_by.induct) (auto dest: update_entry)

lemma snap_wf_bare: "snap_wf (bare snap) \<longleftrightarrow> snap_wf snap"
  by (auto simp: snap_wf_def bare_simps) (force simp: map_vals_def bare_simps)+

lemma readSnapshot_stored:
  assumes "readSnapshot (Inr c) = Inr snap" "bare snap' = bare snap"
  shows "readSnapshot (Inr (stored snap' c)) = Inr snap'"
proof -
  have "snap_wf snap" using assms(1) NewSnapshot_wf by (auto simp: readSnapshot_def)
  then have wf: "snap_wf snap'" using snap_wf_bare assms(2) by metis
  have "sn_Services snap' = sn_Services snap" "sn_ReferenceGrants snap' = sn_ReferenceGrants snap"
    using assms(2) by (metis bare_snap(5), metis bare_snap(6))
  then show ?thesis using wf assms(1)
    by (auto simp: readSnapshot_def NewSnapshot_def stored_def snap_wf_def index_by_stored [unfolded map_map])
qed

lemma Reconcile_error_free:
  assumes "Reconcile x ro api now recorder addrs Apply (Inr c) d = Inr r" "rc_error r = None"
  obtains snap results table where "readSnapshot (Inr c) = Inr snap" "snap_wf snap" "BindRoutes x snap (ClaimClasses snap) = Inr results"
    "buildTable x ro snap (ClaimClasses snap) results = Inr table" "Apply table d = (rc_dataplane r, None)"
    "writeStatuses x api now recorder addrs snap (ClaimClasses snap) results None = (rc_writes r, None)"
proof -
  obtain snap where snap: "readSnapshot (Inr c) = Inr snap" "snap_wf snap"
    using NewSnapshot_wf by (simp add: readSnapshot_def)
  obtain results where results: "BindRoutes x snap (ClaimClasses snap) = Inr results" using BindRoutes_settled [OF snap(2)] by blast
  obtain table where table: "buildTable x ro snap (ClaimClasses snap) results = Inr table" using buildTable_entries [OF snap(2) results] by blast
  obtain e d' where a: "Apply table d = (d', e)" by fastforce
  obtain w e' where w: "writeStatuses x api now recorder addrs snap (ClaimClasses snap) results e = (w, e')" by fastforce
  have "r = \<lparr>rc_dataplane = d', rc_writes = w, rc_error = (case e of Some e \<Rightarrow> Some e | None \<Rightarrow> e')\<rparr>"
    using assms(1) snap results table a w by (simp add: Reconcile_def)
  with assms(2) w have "e = None" "e' = None" "rc_writes r = w" "rc_dataplane r = d'" by (auto split: option.splits)
  with that [OF snap results table] a w show thesis by simp
qed

lemma second_reconcile:
  assumes "Reconcile x ro (\<lambda>_. ApiOk) now recorder addrs Apply (Inr c) d = Inr r" "rc_error r = None"
    and "Reconcile x ro' api now' recorder' addrs Apply' (Inr (stored (w_snap (rc_writes r)) c)) d' = Inr r'" "rc_error r' = None"
    and "\<forall>gc\<in>set (cs_classes c). own_conditions (gcl_Conditions gc)" "\<forall>g\<in>set (cs_configs c). own_conditions (gcf_Conditions g)"
    and "\<forall>gw\<in>set (cs_gateways c). unique_listeners gw" "visits_all ro" "visits_all ro'"
  shows "w_updates (rc_writes r') = [] \<and> w_events (rc_writes r') = [] \<and>
    (\<exists>snap results table table'. readSnapshot (Inr c) = Inr snap \<and> BindRoutes x snap (ClaimClasses snap) = Inr results \<and>
      Apply table d = (rc_dataplane r, None) \<and> Apply' table' d' = (rc_dataplane r', None) \<and>
      (distinct (table_names x snap results) \<and> inj_on (x_String x) (fst ` set (sn_Gateways snap)) \<longrightarrow>
        c_Proxy table' = c_Proxy table \<and> map_of (c_Upstreams table') = map_of (c_Upstreams table)))"
proof -
  obtain snap results table where 1: "readSnapshot (Inr c) = Inr snap" "snap_wf snap" "BindRoutes x snap (ClaimClasses snap) = Inr results"
    "buildTable x ro snap (ClaimClasses snap) results = Inr table" "Apply table d = (rc_dataplane r, None)"
    "writeStatuses x (\<lambda>_. ApiOk) now recorder addrs snap (ClaimClasses snap) results None = (rc_writes r, None)"
    using Reconcile_error_free [OF assms(1,2)] .
  have snap: "snap = NewSnapshot (map Some (cs_classes c)) (map Some (cs_configs c)) (map Some (cs_gateways c))
       (map Some (cs_routes c)) (map Some (cs_services c)) (map Some (cs_grants c))" using 1(1) by (simp add: readSnapshot_def)
  have "own_configs snap" using assms(6) by (auto simp: own_configs_def snap NewSnapshot_def dest!: map_of_SomeD index_by_values)
  moreover have "\<forall>(n, gc)\<in>set (sn_GatewayClasses snap). own_conditions (gcl_Conditions gc)" "\<forall>(k, gw)\<in>set (sn_Gateways snap). unique_listeners gw"
    using assms(5,7) by (auto simp: snap NewSnapshot_def dest!: index_by_values)
  ultimately have s: "bare (w_snap (rc_writes r)) = bare snap"
    "writeStatuses x api now' recorder' addrs (w_snap (rc_writes r)) (ClaimClasses (w_snap (rc_writes r))) results None =
      (\<lparr>w_snap = w_snap (rc_writes r), w_updates = [], w_events = []\<rparr>, None)"
    using statuses_settle [OF 1(6,2)] by blast+
  obtain snap' results' table' where 2: "readSnapshot (Inr (stored (w_snap (rc_writes r)) c)) = Inr snap'"
    "BindRoutes x snap' (ClaimClasses snap') = Inr results'" "buildTable x ro' snap' (ClaimClasses snap') results' = Inr table'"
    "Apply' table' d' = (rc_dataplane r', None)"
    "writeStatuses x api now' recorder' addrs snap' (ClaimClasses snap') results' None = (rc_writes r', None)"
    using Reconcile_error_free [OF assms(3,4)] .
  have "snap' = w_snap (rc_writes r)" using 2(1) readSnapshot_stored [OF 1(1) s(1)] by simp
  moreover from this have results': "results' = results" using same_bare(2) [OF s(1)] 1(3) 2(2) by auto
  ultimately have w: "rc_writes r' = \<lparr>w_snap = w_snap (rc_writes r), w_updates = [], w_events = []\<rparr>"
    and t': "buildTable x ro' snap (ClaimClasses snap) results = Inr table'"
    using s(2) 2(3,5) same_bare(3) [OF s(1) assms(9)] by simp_all
  show ?thesis
  proof (intro conjI exI impI)
    show "w_updates (rc_writes r') = []" "w_events (rc_writes r') = []" using w by simp_all
    show "readSnapshot (Inr c) = Inr snap" "BindRoutes x snap (ClaimClasses snap) = Inr results" "Apply table d = (rc_dataplane r, None)"
      "Apply' table' d' = (rc_dataplane r', None)" by fact+
    assume names: "distinct (table_names x snap results) \<and> inj_on (x_String x) (fst ` set (sn_Gateways snap))"
    show "c_Proxy table' = c_Proxy table" "map_of (c_Upstreams table') = map_of (c_Upstreams table)"
      using buildTable_order [OF 1(2,3) assms(8,9) _ _ 1(4) t'] names by simp_all
  qed
qed

text \<open>C13: The reconciler comes to rest: after a reconcile that succeeded, a further reconcile of the cluster with the statuses it
  stored, at whatever time, writes no status and emits no event if the data plane takes its table. Each of the two visits the maps of
  Gateways and routes in an order of its own; when the backends of the bound routes get different upstream names, and \<open>String\<close> tells the
  Gateways apart, both hand the data plane a table with the same settings and the same upstreams. (No other writer keeps conditions on the
  classes and configurations, and listener names are unique.)\<close>

theorem reconcile_comes_to_rest:
  assumes "Reconcile x ro (\<lambda>_. ApiOk) now recorder addrs Apply (Inr c) d = Inr r" "rc_error r = None"
    and "Reconcile x ro' api now' recorder' addrs Apply' (Inr (stored (w_snap (rc_writes r)) c)) d' = Inr r'" "rc_error r' = None"
    and "\<forall>gc\<in>set (cs_classes c). own_conditions (gcl_Conditions gc)" "\<forall>g\<in>set (cs_configs c). own_conditions (gcf_Conditions g)"
    and "\<forall>gw\<in>set (cs_gateways c). unique_listeners gw" "visits_all ro" "visits_all ro'"
  shows "w_updates (rc_writes r') = [] \<and> w_events (rc_writes r') = [] \<and>
    (\<exists>snap results table table'. readSnapshot (Inr c) = Inr snap \<and> BindRoutes x snap (ClaimClasses snap) = Inr results \<and>
      Apply table d = (rc_dataplane r, None) \<and> Apply' table' d' = (rc_dataplane r', None) \<and>
      (distinct (table_names x snap results) \<and> inj_on (x_String x) (fst ` set (sn_Gateways snap)) \<longrightarrow>
        c_Proxy table' = c_Proxy table \<and> map_of (c_Upstreams table') = map_of (c_Upstreams table)))"
  using second_reconcile [OF assms] .

text \<open>
  A condition of another writer on a GatewayClass breaks this: the class is written by every reconcile, because the status as a whole
  is compared with the one condition of this controller.
\<close>

lemma foreign_condition_rewritten:
  assumes "class_wants claims n gc \<noteq> None" "length (gcl_Conditions gc) \<noteq> 1"
  shows "RefClass n \<in> set (w_updates (fst (write_class api now claims (n, gc) w)))"
  using assms by (auto simp: write_class_eq quiet_class_def ConditionsEqual_def)

text \<open>When every update is accepted no write fails.\<close>

lemma until_error_ok: "(\<And>a s. a \<in> set xs \<Longrightarrow> snd (f a s) = None) \<Longrightarrow> snd (until_error f xs s) = None"
proof (induction xs arbitrary: s)
  case (Cons a xs)
  have "snd (f a s) = None" using Cons.prems by simp
  then show ?case using Cons.IH [of "fst (f a s)"] Cons.prems by (cases "f a s") simp
qed simp

lemma writeStatuses_ok: "snd (writeStatuses x (\<lambda>_. ApiOk) now recorder addrs snap claims results e) = None"
proof -
  have "snd (then_ok r f) = None" if "snd r = None" "\<And>s. snd (f s) = None" for r and f :: "Writes \<Rightarrow> Writes \<times> string option"
    using that by (cases r) (simp add: then_ok_def)
  moreover have "snd (write_class (\<lambda>_. ApiOk) now claims a w) = None" for a w
    by (cases a) (simp add: write_class_eq api_error_def)
  moreover have "snd (write_gateway x (\<lambda>_. ApiOk) now p claims a w) = None" for a p w
    by (cases a) (simp add: write_gateway_eq api_error_def)
  moreover have "snd (write_route x (\<lambda>_. ApiOk) now recorder results a w) = None" for a w
    by (cases a) (simp add: write_route_def Let_def split: option.split prod.split)
  moreover have "snd (write_config (\<lambda>_. ApiOk) now e a w) = None" for a w
    by (cases a) (auto simp: write_config_eq api_error_def split: option.split prod.split)
  ultimately show ?thesis unfolding writeStatuses_def Let_def by (simp add: until_error_ok)
qed

lemma Reconcile_ok:
  "\<exists>r. Reconcile x ro (\<lambda>_. ApiOk) now recorder addrs (\<lambda>table d. (f table d, None)) (Inr c) d = Inr r \<and> rc_error r = None"
proof -
  obtain snap where snap: "readSnapshot (Inr c) = Inr snap" "snap_wf snap"
    using NewSnapshot_wf by (simp add: readSnapshot_def)
  obtain results where results: "BindRoutes x snap (ClaimClasses snap) = Inr results" using BindRoutes_settled [OF snap(2)] by blast
  obtain table where "buildTable x ro snap (ClaimClasses snap) results = Inr table" using buildTable_entries [OF snap(2) results] by blast
  then show ?thesis using snap results writeStatuses_ok [of x now recorder addrs snap "ClaimClasses snap" results None]
    by (simp add: Reconcile_def split: prod.split) auto
qed

text \<open>A cluster with one class, configuration, Gateway, route and Service, none of which has a status yet.\<close>

definition small_cluster :: Cluster where
  "small_cluster = \<lparr>cs_classes = [sample_class],
     cs_configs = [\<lparr>gcf_Meta = sample_meta '''' ''default'' 0, gcf_Spec = sample_spec, gcf_Conditions = []\<rparr>],
     cs_gateways = [sample_gateway], cs_routes = [sample_route ''debian'' 10 []],
     cs_services = [\<lparr>svc_Name = ''store'', svc_Namespace = ''mirror''\<rparr>], cs_grants = []\<rparr>"

lemma small_own:
  "\<forall>gc\<in>set (cs_classes small_cluster). own_conditions (gcl_Conditions gc)"
  "\<forall>g\<in>set (cs_configs small_cluster). own_conditions (gcf_Conditions g)"
  "\<forall>gw\<in>set (cs_gateways small_cluster). unique_listeners gw"
  by code_simp+

definition listed_order :: RangeOrder where
  "listed_order = \<lparr>ro_Gateways = (\<lambda>ks. ks), ro_RsyncRoutes = (\<lambda>ks. ks)\<rparr>"

definition reverse_order :: RangeOrder where
  "reverse_order = \<lparr>ro_Gateways = rev, ro_RsyncRoutes = rev\<rparr>"

lemma sample_orders: "visits_all listed_order" "visits_all reverse_order"
  by (simp_all add: visits_all_def listed_order_def reverse_order_def)

definition sample_reconcile :: "RangeOrder \<Rightarrow> int \<Rightarrow> Cluster \<Rightarrow> reconcile_panic + Config option Reconciled" where
  "sample_reconcile ro now c = Reconcile ext0 ro (\<lambda>_. ApiOk) now True ['':873''] (\<lambda>table _. (Some table, None)) (Inr c) None"

lemma sample_reconciles:
  "case sample_reconcile listed_order 5 small_cluster of Inl p \<Rightarrow> False | Inr r \<Rightarrow> length (w_updates (rc_writes r)) = 4"
  by code_simp

theorem reconcile_comes_to_rest_witness:
  "\<exists>r r'. sample_reconcile listed_order 5 small_cluster = Inr r \<and> length (w_updates (rc_writes r)) = 4 \<and>
     sample_reconcile reverse_order 9 (stored (w_snap (rc_writes r)) small_cluster) = Inr r' \<and> w_updates (rc_writes r') = [] \<and> w_events (rc_writes r') = []"
proof -
  have ok: "\<exists>r. sample_reconcile ro now c = Inr r \<and> rc_error r = None" for ro now c unfolding sample_reconcile_def by (rule Reconcile_ok)
  from ok obtain r where r: "sample_reconcile listed_order 5 small_cluster = Inr r" "rc_error r = None" by blast
  from ok obtain r' where r': "sample_reconcile reverse_order 9 (stored (w_snap (rc_writes r)) small_cluster) = Inr r'" "rc_error r' = None" by blast
  have "length (w_updates (rc_writes r)) = 4" using sample_reconciles r(1) by simp
  moreover note small_own sample_orders
  ultimately show ?thesis
    using reconcile_comes_to_rest [OF r(1) [unfolded sample_reconcile_def] r(2) r'(1) [unfolded sample_reconcile_def] r'(2)] r(1) r'(1) by blast
qed

end
