(* ===== verification/ControlLoop.thy ===== *)
theory ControlLoop
  imports Quiescence
begin

text \<open>
  The loop around the reconciler (\<open>SetupWithManager\<close>, \<open>rebuildHandler\<close> in \<open>internal/controller/reconciler.go\<close>): changes of the
  cluster and the reconciler's own status updates put the one rebuild request into the work queue; a worker takes it and
  reconciles. The invariant says that an idle loop has applied the table of the present cluster.
\<close>

section \<open>Requests and work\<close>

text \<open>
  \<open>SetupWithManager\<close> registers a watch per kind; \<open>rebuildHandler\<close> maps each event to the one fixed request. The work queue
  of the controller library holds a request once (\<open>enqueue\<close>) and hands it out again after a failure. A status update of the
  reconciler is an event like any other.
\<close>

datatype watched = WatchGatewayClass | WatchGateway | WatchGatewayConfig | WatchRsyncRoute | WatchService | WatchReferenceGrant

definition RebuildRequest :: NamespacedName where
  "RebuildRequest = ('''', ''gateway-rebuild'')"

definition rebuildHandler :: "watched \<Rightarrow> NamespacedName list" where
  "rebuildHandler kind = [RebuildRequest]"

definition SetupWithManager :: "(watched \<times> (watched \<Rightarrow> NamespacedName list)) list" where
  "SetupWithManager =
     [(WatchGatewayClass, rebuildHandler), (WatchGateway, rebuildHandler), (WatchGatewayConfig, rebuildHandler),
      (WatchRsyncRoute, rebuildHandler), (WatchService, rebuildHandler), (WatchReferenceGrant, rebuildHandler)]"

definition enqueue :: "NamespacedName \<Rightarrow> NamespacedName list \<Rightarrow> NamespacedName list" where
  "enqueue r q = (if r \<in> set q then q else q @ [r])"

definition deliver :: "watched \<Rightarrow> NamespacedName list \<Rightarrow> NamespacedName list" where
  "deliver kind q = fold enqueue (concat (map (\<lambda>(k, handler). if k = kind then handler k else []) SetupWithManager)) q"

fun kind_of :: "object_ref \<Rightarrow> watched" where
  "kind_of (RefClass n) = WatchGatewayClass"
| "kind_of (RefGateway k) = WatchGateway"
| "kind_of (RefRoute k) = WatchRsyncRoute"
| "kind_of (RefConfig n) = WatchGatewayConfig"

record 'd Control =
  ct_cluster :: Cluster
  ct_queue :: "NamespacedName list"
  ct_dataplane :: 'd

text \<open>The worker takes a request and reconciles; the API server accepts its updates.\<close>

definition work :: "Ext \<Rightarrow> RangeOrder \<Rightarrow> bool \<Rightarrow> string list \<Rightarrow> (Config \<Rightarrow> 'd \<Rightarrow> 'd \<times> string option) \<Rightarrow> int \<Rightarrow> 'd Control \<Rightarrow> reconcile_panic + 'd Control" where
  "work x ro recorder addrs Apply now s =
     (case ct_queue s of
        [] \<Rightarrow> Inr s
      | r # q \<Rightarrow>
          (case Reconcile x ro (\<lambda>_. ApiOk) now recorder addrs Apply (Inr (ct_cluster s)) (ct_dataplane s) of
             Inl p \<Rightarrow> Inl p
           | Inr res \<Rightarrow>
               (let q1 = fold (\<lambda>ob. deliver (kind_of ob)) (w_updates (rc_writes res)) q in
                Inr \<lparr>ct_cluster = stored (w_snap (rc_writes res)) (ct_cluster s),
                     ct_queue = (if rc_error res = None then q1 else enqueue r q1), ct_dataplane = rc_dataplane res\<rparr>)))"

inductive control_step :: "Ext \<Rightarrow> bool \<Rightarrow> string list \<Rightarrow> (Config \<Rightarrow> 'd \<Rightarrow> 'd \<times> string option) \<Rightarrow> 'd Control \<Rightarrow> 'd Control \<Rightarrow> bool"
  for x recorder addrs Apply where
  change: "control_step x recorder addrs Apply s (s\<lparr>ct_cluster := c, ct_queue := deliver kind (ct_queue s)\<rparr>)"
| work: "visits_all ro \<Longrightarrow> work x ro recorder addrs Apply now s = Inr s' \<Longrightarrow> control_step x recorder addrs Apply s s'"

text \<open>At the start the caches deliver the objects they find.\<close>

definition control_init :: "'d Control \<Rightarrow> bool" where
  "control_init s \<longleftrightarrow> ct_queue s = [RebuildRequest]"

text \<open>The data plane was last given the table of the present cluster, and took it.\<close>

definition current :: "Ext \<Rightarrow> (Config \<Rightarrow> 'd \<Rightarrow> 'd \<times> string option) \<Rightarrow> 'd Control \<Rightarrow> bool" where
  "current x Apply s \<longleftrightarrow> (\<exists>ro snap results table d. visits_all ro \<and> readSnapshot (Inr (ct_cluster s)) = Inr snap \<and>
     BindRoutes x snap (ClaimClasses snap) = Inr results \<and> buildTable x ro snap (ClaimClasses snap) results = Inr table \<and>
     Apply table d = (ct_dataplane s, None))"

lemma deliver_rebuild: "deliver kind q = enqueue RebuildRequest q"
  by (cases kind) (simp_all add: deliver_def SetupWithManager_def rebuildHandler_def)

lemma deliver_all: "fold (\<lambda>ob. deliver (kind_of ob)) ups [] = (if ups = [] then [] else [RebuildRequest])"
proof -
  have "fold (\<lambda>ob. deliver (kind_of ob)) ups [RebuildRequest] = [RebuildRequest]" for ups
    by (induction ups) (simp_all add: deliver_rebuild enqueue_def)
  then show ?thesis by (cases ups) (simp_all add: deliver_rebuild enqueue_def)
qed

lemma reconciled_current:
  assumes "visits_all ro" "Reconcile x ro api now recorder addrs Apply (Inr c) d = Inr r" "rc_error r = None"
    and "ct_cluster s = stored (w_snap (rc_writes r)) c" "ct_dataplane s = rc_dataplane r"
  shows "current x Apply s"
proof -
  obtain snap results table where r: "readSnapshot (Inr c) = Inr snap" "snap_wf snap" "BindRoutes x snap (ClaimClasses snap) = Inr results"
    "buildTable x ro snap (ClaimClasses snap) results = Inr table" "Apply table d = (rc_dataplane r, None)"
    "writeStatuses x api now recorder addrs snap (ClaimClasses snap) results None = (rc_writes r, None)"
    using Reconcile_error_free [OF assms(2,3)] .
  obtain s2 where "bare (w_snap (rc_writes r)) = bare snap" using statuses_written [OF r(6,2)] by blast
  then have "readSnapshot (Inr (ct_cluster s)) = Inr (w_snap (rc_writes r))"
    "BindRoutes x (w_snap (rc_writes r)) (ClaimClasses (w_snap (rc_writes r))) = Inr results"
    "buildTable x ro (w_snap (rc_writes r)) (ClaimClasses (w_snap (rc_writes r))) results = Inr table"
    using readSnapshot_stored [OF r(1)] same_bare(2) same_bare(3) [OF _ assms(1)] r(3,4) assms(4) by metis+
  then show ?thesis using r(5) assms(1,5) unfolding current_def by metis
qed

definition control_inv :: "Ext \<Rightarrow> (Config \<Rightarrow> 'd \<Rightarrow> 'd \<times> string option) \<Rightarrow> 'd Control \<Rightarrow> bool" where
  "control_inv x Apply s \<longleftrightarrow> ct_queue s = [RebuildRequest] \<or> ct_queue s = [] \<and> current x Apply s"

lemma work_inv:
  assumes "visits_all ro" "control_inv x Apply s" "work x ro recorder addrs Apply now s = Inr s'"
  shows "control_inv x Apply s'"
proof (cases "ct_queue s")
  case Nil
  then show ?thesis using assms by (simp add: work_def)
next
  case (Cons r q)
  then have q: "r = RebuildRequest" "q = []" using assms(2) by (auto simp: control_inv_def)
  from assms(3) Cons q obtain res where res: "Reconcile x ro (\<lambda>_. ApiOk) now recorder addrs Apply (Inr (ct_cluster s)) (ct_dataplane s) = Inr res"
    and s': "ct_cluster s' = stored (w_snap (rc_writes res)) (ct_cluster s)" "ct_dataplane s' = rc_dataplane res"
      "ct_queue s' = (if rc_error res = None \<and> w_updates (rc_writes res) = [] then [] else [RebuildRequest])"
    by (auto simp: work_def Let_def deliver_all enqueue_def split: sum.splits)
  then show ?thesis using reconciled_current [OF assms(1) res _ s'(1,2)] by (auto simp: control_inv_def)
qed

interpretation control: transition_system control_init "control_step x recorder addrs Apply" "control_inv x Apply" for x recorder addrs Apply
proof unfold_locales
  show "control_inv x Apply s" if "control_init s" for s using that by (simp add: control_init_def control_inv_def)
  show "control_inv x Apply t" if inv: "control_inv x Apply s" and "control_step x recorder addrs Apply s t" for s t
    using that(2)
  proof cases
    case (change c kind)
    then show ?thesis using inv by (auto simp: control_inv_def deliver_rebuild enqueue_def)
  next
    case (work ro now)
    show ?thesis by (rule work_inv [OF work(1) inv work(2)])
  qed
qed

lemma Reconcile_succeeds:
  assumes "\<forall>table d. snd (Apply table d) = None"
  shows "\<exists>r. Reconcile x ro (\<lambda>_. ApiOk) now recorder addrs Apply (Inr c) d = Inr r \<and> rc_error r = None"
proof -
  have "Apply = (\<lambda>table d. (fst (Apply table d), None))" using assms by (simp add: fun_eq_iff prod_eq_iff)
  then show ?thesis using Reconcile_ok [of x ro now recorder addrs "\<lambda>table d. fst (Apply table d)" c d] by simp
qed

lemma work_rebuilds:
  assumes "ct_queue s = [RebuildRequest]" "Reconcile x ro (\<lambda>_. ApiOk) now recorder addrs Apply (Inr (ct_cluster s)) (ct_dataplane s) = Inr r"
    "rc_error r = None"
  shows "work x ro recorder addrs Apply now s = Inr \<lparr>ct_cluster = stored (w_snap (rc_writes r)) (ct_cluster s),
    ct_queue = (if w_updates (rc_writes r) = [] then [] else [RebuildRequest]), ct_dataplane = rc_dataplane r\<rparr>"
  using assms by (simp add: work_def deliver_all)

text \<open>C12: The control loop settles: whatever changes have reached it, whenever it is idle the data plane has a table of the present
  cluster, built in some order of its maps, and once the changes stop two rounds of work, in whatever orders, leave it idle, although each
  status it writes wakes it up again. (A reconcile is one step, so that a change during it counts as one after it; the API server accepts
  its updates and the data plane takes every table; no other writer keeps conditions on classes and configurations, and listener names are
  unique.)\<close>

theorem controller_settles:
  assumes "reachable_from control_init (control_step x recorder addrs Apply) s" "\<forall>table d. snd (Apply table d) = None"
    and "\<forall>gc\<in>set (cs_classes (ct_cluster s)). own_conditions (gcl_Conditions gc)"
    and "\<forall>g\<in>set (cs_configs (ct_cluster s)). own_conditions (gcf_Conditions g)"
    and "\<forall>gw\<in>set (cs_gateways (ct_cluster s)). unique_listeners gw" "visits_all ro" "visits_all ro'"
  shows "(ct_queue s = [] \<longrightarrow> current x Apply s) \<and>
    (\<exists>s1 s2. work x ro recorder addrs Apply now s = Inr s1 \<and> work x ro' recorder addrs Apply now' s1 = Inr s2 \<and> ct_queue s2 = [] \<and> current x Apply s2)"
proof -
  have inv: "control_inv x Apply s" using assms(1) by (rule control.reachable_inv)
  show ?thesis
  proof (cases "ct_queue s")
    case Nil
    then show ?thesis using inv by (simp add: control_inv_def work_def)
  next
    case (Cons a q)
    then have s: "ct_queue s = [RebuildRequest]" using inv by (auto simp: control_inv_def)
    obtain r where r: "Reconcile x ro (\<lambda>_. ApiOk) now recorder addrs Apply (Inr (ct_cluster s)) (ct_dataplane s) = Inr r" "rc_error r = None"
      using Reconcile_succeeds [OF assms(2)] by blast
    obtain s1 where s1: "work x ro recorder addrs Apply now s = Inr s1" "ct_cluster s1 = stored (w_snap (rc_writes r)) (ct_cluster s)"
      "ct_queue s1 = (if w_updates (rc_writes r) = [] then [] else [RebuildRequest])" using work_rebuilds [OF s r] by simp
    have inv1: "control_inv x Apply s1" by (rule work_inv [OF assms(6) inv s1(1)])
    have "\<exists>s2. work x ro' recorder addrs Apply now' s1 = Inr s2 \<and> ct_queue s2 = []"
    proof (cases "w_updates (rc_writes r) = []")
      case True
      then show ?thesis using s1(3) by (simp add: work_def)
    next
      case False
      then have q: "ct_queue s1 = [RebuildRequest]" using s1(3) by simp
      obtain r' where r': "Reconcile x ro' (\<lambda>_. ApiOk) now' recorder addrs Apply (Inr (ct_cluster s1)) (ct_dataplane s1) = Inr r'" "rc_error r' = None"
        using Reconcile_succeeds [OF assms(2)] by blast
      have "w_updates (rc_writes r') = []" using second_reconcile [OF r r' [unfolded s1(2)] assms(3-7)] by blast
      then show ?thesis using work_rebuilds [OF q r'] by simp
    qed
    then obtain s2 where s2: "work x ro' recorder addrs Apply now' s1 = Inr s2" "ct_queue s2 = []" by blast
    then have "current x Apply s2" using work_inv [OF assms(7) inv1 s2(1)] by (simp add: control_inv_def)
    with s1(1) s2 s show ?thesis by auto
  qed
qed

definition sample_control :: "Config option Control" where
  "sample_control = \<lparr>ct_cluster = small_cluster, ct_queue = [RebuildRequest], ct_dataplane = None\<rparr>"

theorem controller_settles_witness:
  "\<exists>s1 s2. work ext0 listed_order True ['':873''] (\<lambda>table _. (Some table, None)) 5 sample_control = Inr s1 \<and> ct_queue s1 = [RebuildRequest] \<and>
     work ext0 reverse_order True ['':873''] (\<lambda>table _. (Some table, None)) 9 s1 = Inr s2 \<and> ct_queue s2 = []"
proof -
  let ?A = "\<lambda>table _. (Some table, None) :: Config option \<times> string option"
  have start: "reachable_from control_init (control_step ext0 True ['':873''] ?A) sample_control"
    by (rule reachable_from.start) (simp add: control_init_def sample_control_def)
  have "\<forall>gc\<in>set (cs_classes small_cluster). own_conditions (gcl_Conditions gc)"
    "\<forall>g\<in>set (cs_configs small_cluster). own_conditions (gcf_Conditions g)"
    "\<forall>gw\<in>set (cs_gateways small_cluster). unique_listeners gw" by (rule small_own)+
  with controller_settles [OF start, of listed_order reverse_order 5 9] sample_orders obtain s1 s2 where
    w: "work ext0 listed_order True ['':873''] ?A 5 sample_control = Inr s1" "work ext0 reverse_order True ['':873''] ?A 9 s1 = Inr s2" "ct_queue s2 = []"
    by (auto simp: sample_control_def)
  obtain r where r: "sample_reconcile listed_order 5 small_cluster = Inr r" "length (w_updates (rc_writes r)) = 4" "rc_error r = None"
    using sample_reconciles Reconcile_ok [of ext0 listed_order 5 True "['':873'']" "\<lambda>table _. Some table" small_cluster None]
    by (auto simp: sample_reconcile_def)
  have "ct_queue s1 = [RebuildRequest]"
    using work_rebuilds [of sample_control ext0 listed_order 5 True "['':873'']" ?A r] r w(1) by (auto simp: sample_control_def sample_reconcile_def)
  with w show ?thesis by blast
qed

end
