(* ===== verification/DeepCopy.thy ===== *)
theory DeepCopy
  imports ApiTypes "HOL-Library.Word"
begin

text \<open>
  The deep copies of the API types (\<open>api/v1alpha1/zz_generated.deepcopy.go\<close>). The caches of the controller library hand out
  objects copied by these functions, and the reconciler writes statuses into what it gets. Here the objects have their
  pointers and slices: memory is a list of cells, an address is an index, allocation appends. A copy has the value of the
  original and shares no cell with it, so that writing to one does not change the other. The structs of the other API packages
  (\<open>ObjectMeta\<close>, \<open>ListMeta\<close>, \<open>Condition\<close>, \<open>ParentReference\<close>, \<open>BackendRef\<close>, \<open>RouteParentStatus\<close>) are the
  parameter type \<open>'e\<close>, and their \<open>DeepCopyInto\<close> is a parameter.
\<close>

section \<open>Memory\<close>

type_synonym pointer = "nat option"

text \<open>A slice is nil, or an array with an offset and a length.\<close>

type_synonym slice = "(nat \<times> nat \<times> nat) option"

type_synonym TypeMeta = "string \<times> string"

record ThroughputFloorSpecM =
  tfm_MinBytes :: pointer
  tfm_Window :: pointer
  tfm_Grace :: pointer

record GatewayConfigSpecM =
  gsm_Motd :: pointer
  gsm_RelayIdleTimeout :: pointer
  gsm_RelayMaxDuration :: pointer
  gsm_TCPKeepAlive :: pointer
  gsm_DialTimeout :: pointer
  gsm_PerIPMaxActiveConnections :: pointer
  gsm_MaxActiveConnections :: pointer
  gsm_MaxQueuedConnections :: pointer
  gsm_ThroughputFloor :: pointer

record GatewayConfigStatusM =
  gstm_Conditions :: slice

record 'e GatewayConfigM =
  gcm_TypeMeta :: TypeMeta
  gcm_ObjectMeta :: 'e
  gcm_Spec :: GatewayConfigSpecM
  gcm_Status :: GatewayConfigStatusM

record 'e GatewayConfigListM =
  glm_TypeMeta :: TypeMeta
  glm_ListMeta :: 'e
  glm_Items :: slice

record RsyncRouteSpecM =
  rsm_ParentRefs :: slice
  rsm_ModuleNames :: slice
  rsm_BackendRefs :: slice

record RsyncRouteStatusM =
  rstm_Parents :: slice

record 'e RsyncRouteM =
  rrm_TypeMeta :: TypeMeta
  rrm_ObjectMeta :: 'e
  rrm_Spec :: RsyncRouteSpecM
  rrm_Status :: RsyncRouteStatusM

record 'e RsyncRouteListM =
  rlm_TypeMeta :: TypeMeta
  rlm_ListMeta :: 'e
  rlm_Items :: slice

datatype 'e cell =
  StringCell string
| Int32Cell "32 word"
| Int64Cell "64 word"
| FloorCell ThroughputFloorSpecM
| ConfigSpecCell GatewayConfigSpecM
| ConfigStatusCell GatewayConfigStatusM
| ConfigCell "'e GatewayConfigM"
| ConfigListCell "'e GatewayConfigListM"
| RouteSpecCell RsyncRouteSpecM
| RouteStatusCell RsyncRouteStatusM
| RouteCell "'e RsyncRouteM"
| RouteListCell "'e RsyncRouteListM"
| StringArray "string list"
| ConfigArray "'e GatewayConfigM list"
| RouteArray "'e RsyncRouteM list"
| ForeignArray "'e list"

type_synonym 'e heap = "'e cell list"

text \<open>What a typed pointer reads: \<open>None\<close> stands for a cell of another type, which Go's types exclude.\<close>

fun get_string where "get_string (StringCell s) = Some s" | "get_string _ = None"
fun get_int32 where "get_int32 (Int32Cell n) = Some n" | "get_int32 _ = None"
fun get_int64 where "get_int64 (Int64Cell n) = Some n" | "get_int64 _ = None"
fun get_floor where "get_floor (FloorCell s) = Some s" | "get_floor _ = None"
fun get_config_spec where "get_config_spec (ConfigSpecCell s) = Some s" | "get_config_spec _ = None"
fun get_config_status where "get_config_status (ConfigStatusCell s) = Some s" | "get_config_status _ = None"
fun get_config where "get_config (ConfigCell c) = Some c" | "get_config _ = None"
fun get_config_list where "get_config_list (ConfigListCell l) = Some l" | "get_config_list _ = None"
fun get_route_spec where "get_route_spec (RouteSpecCell s) = Some s" | "get_route_spec _ = None"
fun get_route_status where "get_route_status (RouteStatusCell s) = Some s" | "get_route_status _ = None"
fun get_route where "get_route (RouteCell r) = Some r" | "get_route _ = None"
fun get_route_list where "get_route_list (RouteListCell l) = Some l" | "get_route_list _ = None"
fun get_strings where "get_strings (StringArray xs) = Some xs" | "get_strings _ = None"
fun get_configs where "get_configs (ConfigArray xs) = Some xs" | "get_configs _ = None"
fun get_routes where "get_routes (RouteArray xs) = Some xs" | "get_routes _ = None"
fun get_foreign where "get_foreign (ForeignArray xs) = Some xs" | "get_foreign _ = None"

text \<open>
  The two statements the generator emits for a field. For a pointer: if it is not nil, allocate a cell and copy what it points
  to (\<open>*out = new(T)\<close>, then \<open>**out = **in\<close> or \<open>(*in).DeepCopyInto(*out)\<close>). For a slice: if it is not nil, make an array of its
  length and copy its elements in order. Which of two fresh cells has the smaller address cannot be seen by the program; a cell
  is allocated here when its contents are complete.
\<close>

definition keep :: "'a \<Rightarrow> 'e heap \<Rightarrow> 'a \<times> 'e heap" where
  "keep v h = (v, h)"

definition copy_pointer ::
  "('e cell \<Rightarrow> 'a option) \<Rightarrow> ('a \<Rightarrow> 'e cell) \<Rightarrow> ('a \<Rightarrow> 'e heap \<Rightarrow> 'a \<times> 'e heap) \<Rightarrow> pointer \<Rightarrow> 'e heap \<Rightarrow> pointer \<times> 'e heap" where
  "copy_pointer get mk into p h =
     (case p of
        None \<Rightarrow> (None, h)
      | Some a \<Rightarrow>
          (case get (h ! a) of
             None \<Rightarrow> (None, h)
           | Some v \<Rightarrow> (let (w, h1) = into v h in (Some (length h1), h1 @ [mk w]))))"

primrec copy_elements :: "('a \<Rightarrow> 'e heap \<Rightarrow> 'a \<times> 'e heap) \<Rightarrow> 'a list \<Rightarrow> 'e heap \<Rightarrow> 'a list \<times> 'e heap" where
  "copy_elements into [] h = ([], h)"
| "copy_elements into (v # vs) h =
     (let (w, h1) = into v h; (ws, h2) = copy_elements into vs h1 in (w # ws, h2))"

definition copy_slice ::
  "('e cell \<Rightarrow> 'a list option) \<Rightarrow> ('a list \<Rightarrow> 'e cell) \<Rightarrow> ('a \<Rightarrow> 'e heap \<Rightarrow> 'a \<times> 'e heap) \<Rightarrow> slice \<Rightarrow> 'e heap \<Rightarrow> slice \<times> 'e heap" where
  "copy_slice get mk into s h =
     (case s of
        None \<Rightarrow> (None, h)
      | Some (a, off, n) \<Rightarrow>
          (case get (h ! a) of
             None \<Rightarrow> (None, h)
           | Some vs \<Rightarrow>
               (let (ws, h1) = copy_elements into (take n (drop off vs)) h in
                (Some (length h1, 0, length ws), h1 @ [mk ws]))))"

section \<open>The generated functions\<close>

definition DeepCopyInto_ThroughputFloorSpec :: "ThroughputFloorSpecM \<Rightarrow> 'e heap \<Rightarrow> ThroughputFloorSpecM \<times> 'e heap" where
  "DeepCopyInto_ThroughputFloorSpec inp h =
     (let (MinBytes, h) = copy_pointer get_int64 Int64Cell keep (tfm_MinBytes inp) h;
          (Window, h) = copy_pointer get_string StringCell keep (tfm_Window inp) h;
          (Grace, h) = copy_pointer get_string StringCell keep (tfm_Grace inp) h
      in (inp\<lparr>tfm_MinBytes := MinBytes, tfm_Window := Window, tfm_Grace := Grace\<rparr>, h))"

definition DeepCopy_ThroughputFloorSpec :: "pointer \<Rightarrow> 'e heap \<Rightarrow> pointer \<times> 'e heap" where
  "DeepCopy_ThroughputFloorSpec = copy_pointer get_floor FloorCell DeepCopyInto_ThroughputFloorSpec"

definition DeepCopyInto_GatewayConfigSpec :: "GatewayConfigSpecM \<Rightarrow> 'e heap \<Rightarrow> GatewayConfigSpecM \<times> 'e heap" where
  "DeepCopyInto_GatewayConfigSpec inp h =
     (let (Motd, h) = copy_pointer get_string StringCell keep (gsm_Motd inp) h;
          (RelayIdleTimeout, h) = copy_pointer get_string StringCell keep (gsm_RelayIdleTimeout inp) h;
          (RelayMaxDuration, h) = copy_pointer get_string StringCell keep (gsm_RelayMaxDuration inp) h;
          (TCPKeepAlive, h) = copy_pointer get_string StringCell keep (gsm_TCPKeepAlive inp) h;
          (DialTimeout, h) = copy_pointer get_string StringCell keep (gsm_DialTimeout inp) h;
          (PerIPMaxActiveConnections, h) = copy_pointer get_int32 Int32Cell keep (gsm_PerIPMaxActiveConnections inp) h;
          (MaxActiveConnections, h) = copy_pointer get_int32 Int32Cell keep (gsm_MaxActiveConnections inp) h;
          (MaxQueuedConnections, h) = copy_pointer get_int32 Int32Cell keep (gsm_MaxQueuedConnections inp) h;
          (ThroughputFloor, h) = copy_pointer get_floor FloorCell DeepCopyInto_ThroughputFloorSpec (gsm_ThroughputFloor inp) h
      in (inp\<lparr>gsm_Motd := Motd, gsm_RelayIdleTimeout := RelayIdleTimeout, gsm_RelayMaxDuration := RelayMaxDuration,
              gsm_TCPKeepAlive := TCPKeepAlive, gsm_DialTimeout := DialTimeout,
              gsm_PerIPMaxActiveConnections := PerIPMaxActiveConnections, gsm_MaxActiveConnections := MaxActiveConnections,
              gsm_MaxQueuedConnections := MaxQueuedConnections, gsm_ThroughputFloor := ThroughputFloor\<rparr>, h))"

definition DeepCopy_GatewayConfigSpec :: "pointer \<Rightarrow> 'e heap \<Rightarrow> pointer \<times> 'e heap" where
  "DeepCopy_GatewayConfigSpec = copy_pointer get_config_spec ConfigSpecCell DeepCopyInto_GatewayConfigSpec"

text \<open>From here on \<open>foreign\<close> is the \<open>DeepCopyInto\<close> of the structs of the other packages.\<close>

type_synonym 'e copying = "'e \<Rightarrow> 'e heap \<Rightarrow> 'e \<times> 'e heap"

definition DeepCopyInto_GatewayConfigStatus :: "'e copying \<Rightarrow> GatewayConfigStatusM \<Rightarrow> 'e heap \<Rightarrow> GatewayConfigStatusM \<times> 'e heap" where
  "DeepCopyInto_GatewayConfigStatus foreign inp h =
     (let (Conditions, h) = copy_slice get_foreign ForeignArray foreign (gstm_Conditions inp) h
      in (inp\<lparr>gstm_Conditions := Conditions\<rparr>, h))"

definition DeepCopy_GatewayConfigStatus :: "'e copying \<Rightarrow> pointer \<Rightarrow> 'e heap \<Rightarrow> pointer \<times> 'e heap" where
  "DeepCopy_GatewayConfigStatus foreign = copy_pointer get_config_status ConfigStatusCell (DeepCopyInto_GatewayConfigStatus foreign)"

definition DeepCopyInto_GatewayConfig :: "'e copying \<Rightarrow> 'e GatewayConfigM \<Rightarrow> 'e heap \<Rightarrow> 'e GatewayConfigM \<times> 'e heap" where
  "DeepCopyInto_GatewayConfig foreign inp h =
     (let (Meta, h) = foreign (gcm_ObjectMeta inp) h;
          (Spec, h) = DeepCopyInto_GatewayConfigSpec (gcm_Spec inp) h;
          (Status, h) = DeepCopyInto_GatewayConfigStatus foreign (gcm_Status inp) h
      in (inp\<lparr>gcm_TypeMeta := gcm_TypeMeta inp, gcm_ObjectMeta := Meta, gcm_Spec := Spec, gcm_Status := Status\<rparr>, h))"

definition DeepCopy_GatewayConfig :: "'e copying \<Rightarrow> pointer \<Rightarrow> 'e heap \<Rightarrow> pointer \<times> 'e heap" where
  "DeepCopy_GatewayConfig foreign = copy_pointer get_config ConfigCell (DeepCopyInto_GatewayConfig foreign)"

definition DeepCopyInto_GatewayConfigList :: "'e copying \<Rightarrow> 'e GatewayConfigListM \<Rightarrow> 'e heap \<Rightarrow> 'e GatewayConfigListM \<times> 'e heap" where
  "DeepCopyInto_GatewayConfigList foreign inp h =
     (let (Meta, h) = foreign (glm_ListMeta inp) h;
          (Items, h) = copy_slice get_configs ConfigArray (DeepCopyInto_GatewayConfig foreign) (glm_Items inp) h
      in (inp\<lparr>glm_TypeMeta := glm_TypeMeta inp, glm_ListMeta := Meta, glm_Items := Items\<rparr>, h))"

definition DeepCopy_GatewayConfigList :: "'e copying \<Rightarrow> pointer \<Rightarrow> 'e heap \<Rightarrow> pointer \<times> 'e heap" where
  "DeepCopy_GatewayConfigList foreign = copy_pointer get_config_list ConfigListCell (DeepCopyInto_GatewayConfigList foreign)"

definition DeepCopyInto_RsyncRouteSpec :: "'e copying \<Rightarrow> RsyncRouteSpecM \<Rightarrow> 'e heap \<Rightarrow> RsyncRouteSpecM \<times> 'e heap" where
  "DeepCopyInto_RsyncRouteSpec foreign inp h =
     (let (ParentRefs, h) = copy_slice get_foreign ForeignArray foreign (rsm_ParentRefs inp) h;
          (ModuleNames, h) = copy_slice get_strings StringArray keep (rsm_ModuleNames inp) h;
          (BackendRefs, h) = copy_slice get_foreign ForeignArray foreign (rsm_BackendRefs inp) h
      in (inp\<lparr>rsm_ParentRefs := ParentRefs, rsm_ModuleNames := ModuleNames, rsm_BackendRefs := BackendRefs\<rparr>, h))"

definition DeepCopy_RsyncRouteSpec :: "'e copying \<Rightarrow> pointer \<Rightarrow> 'e heap \<Rightarrow> pointer \<times> 'e heap" where
  "DeepCopy_RsyncRouteSpec foreign = copy_pointer get_route_spec RouteSpecCell (DeepCopyInto_RsyncRouteSpec foreign)"

definition DeepCopyInto_RsyncRouteStatus :: "'e copying \<Rightarrow> RsyncRouteStatusM \<Rightarrow> 'e heap \<Rightarrow> RsyncRouteStatusM \<times> 'e heap" where
  "DeepCopyInto_RsyncRouteStatus foreign inp h =
     (let (Parents, h) = copy_slice get_foreign ForeignArray foreign (rstm_Parents inp) h
      in (inp\<lparr>rstm_Parents := Parents\<rparr>, h))"

definition DeepCopy_RsyncRouteStatus :: "'e copying \<Rightarrow> pointer \<Rightarrow> 'e heap \<Rightarrow> pointer \<times> 'e heap" where
  "DeepCopy_RsyncRouteStatus foreign = copy_pointer get_route_status RouteStatusCell (DeepCopyInto_RsyncRouteStatus foreign)"

definition DeepCopyInto_RsyncRoute :: "'e copying \<Rightarrow> 'e RsyncRouteM \<Rightarrow> 'e heap \<Rightarrow> 'e RsyncRouteM \<times> 'e heap" where
  "DeepCopyInto_RsyncRoute foreign inp h =
     (let (Meta, h) = foreign (rrm_ObjectMeta inp) h;
          (Spec, h) = DeepCopyInto_RsyncRouteSpec foreign (rrm_Spec inp) h;
          (Status, h) = DeepCopyInto_RsyncRouteStatus foreign (rrm_Status inp) h
      in (inp\<lparr>rrm_TypeMeta := rrm_TypeMeta inp, rrm_ObjectMeta := Meta, rrm_Spec := Spec, rrm_Status := Status\<rparr>, h))"

definition DeepCopy_RsyncRoute :: "'e copying \<Rightarrow> pointer \<Rightarrow> 'e heap \<Rightarrow> pointer \<times> 'e heap" where
  "DeepCopy_RsyncRoute foreign = copy_pointer get_route RouteCell (DeepCopyInto_RsyncRoute foreign)"

definition DeepCopyInto_RsyncRouteList :: "'e copying \<Rightarrow> 'e RsyncRouteListM \<Rightarrow> 'e heap \<Rightarrow> 'e RsyncRouteListM \<times> 'e heap" where
  "DeepCopyInto_RsyncRouteList foreign inp h =
     (let (Meta, h) = foreign (rlm_ListMeta inp) h;
          (Items, h) = copy_slice get_routes RouteArray (DeepCopyInto_RsyncRoute foreign) (rlm_Items inp) h
      in (inp\<lparr>rlm_TypeMeta := rlm_TypeMeta inp, rlm_ListMeta := Meta, rlm_Items := Items\<rparr>, h))"

definition DeepCopy_RsyncRouteList :: "'e copying \<Rightarrow> pointer \<Rightarrow> 'e heap \<Rightarrow> pointer \<times> 'e heap" where
  "DeepCopy_RsyncRouteList foreign = copy_pointer get_route_list RouteListCell (DeepCopyInto_RsyncRouteList foreign)"

text \<open>A \<open>runtime.Object\<close> is an interface: nil, or a typed pointer (which may itself be nil).\<close>

datatype runtime_Object = NilObject | ConfigObject pointer | ConfigListObject pointer | RouteObject pointer | RouteListObject pointer

definition as_object :: "(pointer \<Rightarrow> runtime_Object) \<Rightarrow> pointer \<times> 'e heap \<Rightarrow> runtime_Object \<times> 'e heap" where
  "as_object mk r = (let (c, h) = r in if c \<noteq> None then (mk c, h) else (NilObject, h))"

definition DeepCopyObject_GatewayConfig :: "'e copying \<Rightarrow> pointer \<Rightarrow> 'e heap \<Rightarrow> runtime_Object \<times> 'e heap" where
  "DeepCopyObject_GatewayConfig foreign p h = as_object ConfigObject (DeepCopy_GatewayConfig foreign p h)"

definition DeepCopyObject_GatewayConfigList :: "'e copying \<Rightarrow> pointer \<Rightarrow> 'e heap \<Rightarrow> runtime_Object \<times> 'e heap" where
  "DeepCopyObject_GatewayConfigList foreign p h = as_object ConfigListObject (DeepCopy_GatewayConfigList foreign p h)"

definition DeepCopyObject_RsyncRoute :: "'e copying \<Rightarrow> pointer \<Rightarrow> 'e heap \<Rightarrow> runtime_Object \<times> 'e heap" where
  "DeepCopyObject_RsyncRoute foreign p h = as_object RouteObject (DeepCopy_RsyncRoute foreign p h)"

definition DeepCopyObject_RsyncRouteList :: "'e copying \<Rightarrow> pointer \<Rightarrow> 'e heap \<Rightarrow> runtime_Object \<times> 'e heap" where
  "DeepCopyObject_RsyncRouteList foreign p h = as_object RouteListObject (DeepCopy_RsyncRouteList foreign p h)"

section \<open>What a deep copy promises\<close>

text \<open>
  A copier is the copy function of a type with three readings of a value of the type in a heap: that it is well typed, its value
  with all pointers followed, and the cells it reaches.
\<close>

record ('a, 'v, 'e) copier =
  cp_copy :: "'a \<Rightarrow> 'e heap \<Rightarrow> 'a \<times> 'e heap"
  cp_ok :: "'e heap \<Rightarrow> 'a \<Rightarrow> bool"
  cp_val :: "'e heap \<Rightarrow> 'a \<Rightarrow> 'v"
  cp_reach :: "'e heap \<Rightarrow> 'a \<Rightarrow> nat set"

definition agree :: "nat set \<Rightarrow> 'e heap \<Rightarrow> 'e heap \<Rightarrow> bool" where
  "agree A h h' \<longleftrightarrow> (\<forall>a\<in>A. a < length h' \<and> h' ! a = h ! a)"

lemma agree_append: "A \<subseteq> {..<length h} \<Longrightarrow> agree A h (h @ new)"
  by (auto simp: agree_def nth_append)

lemma agree_mono: "agree B h h' \<Longrightarrow> A \<subseteq> B \<Longrightarrow> agree A h h'"
  by (auto simp: agree_def)

lemma agree_Un: "agree (A \<union> B) h h' \<longleftrightarrow> agree A h h' \<and> agree B h h'"
  by (auto simp: agree_def)

text \<open>Writing a set of cells.\<close>

definition writes :: "nat set \<Rightarrow> 'e heap \<Rightarrow> 'e heap \<Rightarrow> bool" where
  "writes A h h' \<longleftrightarrow> length h \<le> length h' \<and> (\<forall>a<length h. a \<notin> A \<longrightarrow> h' ! a = h ! a)"

lemma writes_agree: "writes A h h' \<Longrightarrow> B \<subseteq> {..<length h} \<Longrightarrow> A \<inter> B = {} \<Longrightarrow> agree B h h'"
  unfolding writes_def agree_def by (meson disjoint_iff less_le_trans lessThan_iff subsetD)

definition isolated_copy :: "('a, 'v, 'e) copier \<Rightarrow> 'e heap \<Rightarrow> 'a \<Rightarrow> 'a \<times> 'e heap \<Rightarrow> bool" where
  "isolated_copy C h a r \<longleftrightarrow> (\<exists>b h'. r = (b, h') \<and> cp_val C h' b = cp_val C h a \<and> cp_val C h' a = cp_val C h a \<and>
     (\<forall>h''. writes (cp_reach C h' b) h' h'' \<longrightarrow> cp_val C h'' a = cp_val C h a) \<and>
     (\<forall>h''. writes (cp_reach C h' a) h' h'' \<longrightarrow> cp_val C h'' b = cp_val C h a))"

locale deep_copier =
  fixes C :: "('a, 'v, 'e) copier"
  assumes copy_law: "cp_ok C h a \<Longrightarrow> cp_copy C a h = (b, h') \<Longrightarrow>
      (\<exists>new. h' = h @ new) \<and> cp_ok C h' b \<and> cp_val C h' b = cp_val C h a \<and> cp_reach C h' b \<subseteq> {length h..<length h'}"
    and local_law: "cp_ok C h a \<Longrightarrow> agree (cp_reach C h a) h h' \<Longrightarrow>
      cp_ok C h' a \<and> cp_val C h' a = cp_val C h a \<and> cp_reach C h' a = cp_reach C h a"
    and bound_law: "cp_ok C h a \<Longrightarrow> cp_reach C h a \<subseteq> {..<length h}"
begin

lemma kept: "cp_ok C h a \<Longrightarrow> cp_ok C (h @ new) a \<and> cp_val C (h @ new) a = cp_val C h a \<and> cp_reach C (h @ new) a = cp_reach C h a"
  using local_law [OF _ agree_append [OF bound_law]] by simp

lemma disjoint:
  assumes "cp_ok C h a" "cp_copy C a h = (b, h')"
  shows "cp_reach C h' b \<inter> cp_reach C h' a = {}" "cp_ok C h' a" "cp_val C h' a = cp_val C h a"
proof -
  obtain new where "h' = h @ new" "cp_reach C h' b \<subseteq> {length h..<length h'}" using copy_law [OF assms] by blast
  then show "cp_reach C h' b \<inter> cp_reach C h' a = {}" "cp_ok C h' a" "cp_val C h' a = cp_val C h a"
    using kept [OF assms(1), of new] bound_law [OF assms(1)] by fastforce+
qed

lemma isolated: assumes "cp_ok C h a" shows "isolated_copy C h a (cp_copy C a h)"
proof -
  obtain b h' where r: "cp_copy C a h = (b, h')" by fastforce
  note law = copy_law [OF assms r] and d = disjoint [OF assms r]
  have "cp_val C h'' a = cp_val C h a" if "writes (cp_reach C h' b) h' h''" for h''
    using local_law [OF d(2) writes_agree [OF that bound_law [OF d(2)] d(1)]] d(3) by simp
  moreover have "cp_val C h'' b = cp_val C h a" if "writes (cp_reach C h' a) h' h''" for h''
    using local_law [OF _ writes_agree [OF that bound_law], of b] law d(1) by (simp add: Int_commute)
  ultimately show ?thesis using r law d(3) unfolding isolated_copy_def by blast
qed

end

section \<open>Copiers of the building blocks\<close>

text \<open>A value without pointers; a pair; a type that another represents.\<close>

definition plain :: "('a \<Rightarrow> 'v) \<Rightarrow> ('a, 'v, 'e) copier" where
  "plain f = \<lparr>cp_copy = keep, cp_ok = \<lambda>h v. True, cp_val = \<lambda>h v. f v, cp_reach = \<lambda>h v. {}\<rparr>"

definition both :: "('a, 'v, 'e) copier \<Rightarrow> ('b, 'w, 'e) copier \<Rightarrow> ('a \<times> 'b, 'v \<times> 'w, 'e) copier" where
  "both A B = \<lparr>cp_copy = \<lambda>(a, b) h. (let (a', h) = cp_copy A a h; (b', h) = cp_copy B b h in ((a', b'), h)),
     cp_ok = \<lambda>h (a, b). cp_ok A h a \<and> cp_ok B h b, cp_val = \<lambda>h (a, b). (cp_val A h a, cp_val B h b),
     cp_reach = \<lambda>h (a, b). cp_reach A h a \<union> cp_reach B h b\<rparr>"

definition represented :: "('b \<Rightarrow> 'a) \<Rightarrow> ('a \<Rightarrow> 'b) \<Rightarrow> ('v \<Rightarrow> 'w) \<Rightarrow> ('a, 'v, 'e) copier \<Rightarrow> ('b, 'w, 'e) copier" where
  "represented dest mk f A = \<lparr>cp_copy = \<lambda>b h. (let (a, h) = cp_copy A (dest b) h in (mk a, h)),
     cp_ok = \<lambda>h b. cp_ok A h (dest b), cp_val = \<lambda>h b. f (cp_val A h (dest b)), cp_reach = \<lambda>h b. cp_reach A h (dest b)\<rparr>"

lemmas copier_parts = plain_def both_def represented_def

lemma plain_deep: "deep_copier (plain f)"
  by unfold_locales (auto simp: plain_def keep_def)

lemma both_deep: assumes "deep_copier A" "deep_copier B" shows "deep_copier (both A B)"
proof unfold_locales
  fix h h' and c r
  assume ok: "cp_ok (both A B) h c" and copy: "cp_copy (both A B) c h = (r, h')"
  obtain a b where c: "c = (a, b)" by fastforce
  obtain a' h1 where a: "cp_copy A a h = (a', h1)" by fastforce
  obtain b' where b: "cp_copy B b h1 = (b', h')" and r: "r = (a', b')" using copy c a by (auto simp: both_def split: prod.splits)
  have oka: "cp_ok A h a" and okb: "cp_ok B h b" using ok c by (auto simp: both_def)
  note A = deep_copier.copy_law [OF assms(1) oka a]
  then obtain n1 where h1: "h1 = h @ n1" by blast
  note okb1 = deep_copier.kept [OF assms(2) okb, of n1, folded h1]
  note B = deep_copier.copy_law [OF assms(2) conjunct1 [OF okb1] b]
  then obtain n2 where h': "h' = h1 @ n2" by blast
  note A' = deep_copier.kept [OF assms(1), of h1 a' n2, folded h']
  show "(\<exists>new. h' = h @ new) \<and> cp_ok (both A B) h' r \<and> cp_val (both A B) h' r = cp_val (both A B) h c \<and>
      cp_reach (both A B) h' r \<subseteq> {length h..<length h'}"
    using A A' B okb1 c r h1 h' by (auto simp: both_def)
next
  fix h h' and c
  assume "cp_ok (both A B) h c" "agree (cp_reach (both A B) h c) h h'"
  then show "cp_ok (both A B) h' c \<and> cp_val (both A B) h' c = cp_val (both A B) h c \<and> cp_reach (both A B) h' c = cp_reach (both A B) h c"
    using deep_copier.local_law [OF assms(1), of h "fst c" h'] deep_copier.local_law [OF assms(2), of h "snd c" h']
    by (cases c) (simp add: both_def agree_Un)
next
  fix h and c
  assume "cp_ok (both A B) h c"
  then show "cp_reach (both A B) h c \<subseteq> {..<length h}"
    using deep_copier.bound_law [OF assms(1), of h "fst c"] deep_copier.bound_law [OF assms(2), of h "snd c"] by (cases c) (auto simp: both_def)
qed

lemma represented_deep:
  assumes "deep_copier A" "\<And>a. dest (mk a) = a"
  shows "deep_copier (represented dest mk f A)"
proof unfold_locales
  fix h h' and b r
  assume "cp_ok (represented dest mk f A) h b" "cp_copy (represented dest mk f A) b h = (r, h')"
  then show "(\<exists>new. h' = h @ new) \<and> cp_ok (represented dest mk f A) h' r \<and>
      cp_val (represented dest mk f A) h' r = cp_val (represented dest mk f A) h b \<and>
      cp_reach (represented dest mk f A) h' r \<subseteq> {length h..<length h'}"
    using deep_copier.copy_law [OF assms(1), of h "dest b"] by (auto simp: represented_def assms(2) split: prod.splits)
next
  fix h h' b
  assume "cp_ok (represented dest mk f A) h b" "agree (cp_reach (represented dest mk f A) h b) h h'"
  then show "cp_ok (represented dest mk f A) h' b \<and> cp_val (represented dest mk f A) h' b = cp_val (represented dest mk f A) h b \<and>
      cp_reach (represented dest mk f A) h' b = cp_reach (represented dest mk f A) h b"
    using deep_copier.local_law [OF assms(1), of h "dest b" h'] by (simp add: represented_def)
next
  fix h b
  assume "cp_ok (represented dest mk f A) h b"
  then show "cp_reach (represented dest mk f A) h b \<subseteq> {..<length h}"
    using deep_copier.bound_law [OF assms(1), of h "dest b"] by (simp add: represented_def)
qed

text \<open>
  A reference: an address with a view of the cell there. \<open>view r c\<close> is what the reference \<open>r\<close> sees of the cell, \<open>ref\<close> the reference
  to a fresh cell. Pointers and slices are instances.
\<close>

definition reference :: "('r \<Rightarrow> nat) \<Rightarrow> ('r \<Rightarrow> 'e cell \<Rightarrow> 'a option) \<Rightarrow> (nat \<Rightarrow> 'a \<Rightarrow> 'r) \<Rightarrow> ('a \<Rightarrow> 'e cell) \<Rightarrow> ('a, 'v, 'e) copier \<Rightarrow>
    ('r option, 'v option, 'e) copier" where
  "reference addr view ref mk A =
     \<lparr>cp_copy = \<lambda>p h. (case p of None \<Rightarrow> (None, h) | Some r \<Rightarrow> (case view r (h ! addr r) of None \<Rightarrow> (None, h)
        | Some v \<Rightarrow> (let (w, h1) = cp_copy A v h in (Some (ref (length h1) w), h1 @ [mk w])))),
      cp_ok = \<lambda>h p. (case p of None \<Rightarrow> True | Some r \<Rightarrow> addr r < length h \<and>
        (case view r (h ! addr r) of None \<Rightarrow> False | Some v \<Rightarrow> cp_ok A h v)),
      cp_val = \<lambda>h p. map_option (\<lambda>r. cp_val A h (the (view r (h ! addr r)))) p,
      cp_reach = \<lambda>h p. (case p of None \<Rightarrow> {} | Some r \<Rightarrow> insert (addr r)
        (case view r (h ! addr r) of None \<Rightarrow> {} | Some v \<Rightarrow> cp_reach A h v))\<rparr>"

lemma reference_deep:
  assumes "deep_copier A" "\<And>n w. addr (ref n w) = n" "\<And>n w. view (ref n w) (mk w) = Some w"
  shows "deep_copier (reference addr view ref mk A)" (is "deep_copier ?R")
proof unfold_locales
  fix h h' and p q
  assume ok: "cp_ok ?R h p" and copy: "cp_copy ?R p h = (q, h')"
  show "(\<exists>new. h' = h @ new) \<and> cp_ok ?R h' q \<and> cp_val ?R h' q = cp_val ?R h p \<and> cp_reach ?R h' q \<subseteq> {length h..<length h'}"
  proof (cases p)
    case None
    then show ?thesis using copy by (simp add: reference_def)
  next
    case (Some r)
    obtain v where v: "view r (h ! addr r) = Some v" "cp_ok A h v" using ok Some by (auto simp: reference_def split: option.splits)
    obtain w h1 where w: "cp_copy A v h = (w, h1)" by fastforce
    note law = deep_copier.copy_law [OF assms(1) v(2) w]
    then obtain new where h1: "h1 = h @ new" by blast
    have q: "q = Some (ref (length h1) w)" "h' = h1 @ [mk w]" using copy Some v w by (auto simp: reference_def)
    have "cp_ok A h' w \<and> cp_val A h' w = cp_val A h1 w \<and> cp_reach A h' w = cp_reach A h1 w"
      using deep_copier.kept [OF assms(1)] law q(2) by blast
    then show ?thesis using law q h1 Some v by (auto simp: reference_def assms(2,3))
  qed
next
  fix h h' and p
  assume "cp_ok ?R h p" "agree (cp_reach ?R h p) h h'"
  then show "cp_ok ?R h' p \<and> cp_val ?R h' p = cp_val ?R h p \<and> cp_reach ?R h' p = cp_reach ?R h p"
    using deep_copier.local_law [OF assms(1), of h _ h'] by (auto simp: reference_def agree_def split: option.splits)
next
  fix h and p
  assume "cp_ok ?R h p"
  then show "cp_reach ?R h p \<subseteq> {..<length h}"
    using deep_copier.bound_law [OF assms(1), THEN subsetD] by (auto simp: reference_def split: option.splits)
qed

definition elements :: "('a, 'v, 'e) copier \<Rightarrow> ('a list, 'v list, 'e) copier" where
  "elements A = \<lparr>cp_copy = copy_elements (cp_copy A), cp_ok = \<lambda>h vs. (\<forall>v\<in>set vs. cp_ok A h v),
     cp_val = \<lambda>h vs. map (cp_val A h) vs, cp_reach = \<lambda>h vs. (\<Union>v\<in>set vs. cp_reach A h v)\<rparr>"

lemma elements_deep: assumes A: "deep_copier A" shows "deep_copier (elements A)"
proof unfold_locales
  fix h h' and vs ws
  assume "cp_ok (elements A) h vs" "cp_copy (elements A) vs h = (ws, h')"
  then show "(\<exists>new. h' = h @ new) \<and> cp_ok (elements A) h' ws \<and> cp_val (elements A) h' ws = cp_val (elements A) h vs \<and>
      cp_reach (elements A) h' ws \<subseteq> {length h..<length h'}"
  proof (induction vs arbitrary: h ws)
    case Nil
    then show ?case by (simp add: elements_def)
  next
    case (Cons v vs)
    obtain w h1 where w: "cp_copy A v h = (w, h1)" by fastforce
    obtain ws' where ws: "cp_copy (elements A) vs h1 = (ws', h')" "ws = w # ws'"
      using Cons.prems(2) w by (auto simp: elements_def split: prod.splits)
    have okv: "cp_ok A h v" and okvs: "\<forall>v\<in>set vs. cp_ok A h v" using Cons.prems(1) by (auto simp: elements_def)
    note V = deep_copier.copy_law [OF A okv w]
    then obtain n1 where h1: "h1 = h @ n1" by blast
    have vs1: "cp_ok (elements A) h1 vs" "cp_val (elements A) h1 vs = cp_val (elements A) h vs"
      using deep_copier.kept [OF A] okvs h1 by (auto simp: elements_def)
    note W = Cons.IH [OF vs1(1) ws(1)]
    then obtain n2 where h': "h' = h1 @ n2" by blast
    have "cp_ok A h' w \<and> cp_val A h' w = cp_val A h1 w \<and> cp_reach A h' w = cp_reach A h1 w"
      using deep_copier.kept [OF A] V h' by blast
    then show ?case using V W vs1(2) ws(2) h1 h' by (auto simp: elements_def)
  qed
next
  fix h h' and vs
  assume ok: "cp_ok (elements A) h vs" and a: "agree (cp_reach (elements A) h vs) h h'"
  have "cp_ok A h' v \<and> cp_val A h' v = cp_val A h v \<and> cp_reach A h' v = cp_reach A h v" if "v \<in> set vs" for v
    using deep_copier.local_law [OF A, of h v h'] ok agree_mono [OF a] that by (auto simp: elements_def)
  then show "cp_ok (elements A) h' vs \<and> cp_val (elements A) h' vs = cp_val (elements A) h vs \<and>
      cp_reach (elements A) h' vs = cp_reach (elements A) h vs" by (simp add: elements_def)
next
  fix h and vs
  assume "cp_ok (elements A) h vs"
  then show "cp_reach (elements A) h vs \<subseteq> {..<length h}" using deep_copier.bound_law [OF A] by (fastforce simp: elements_def)
qed

definition window :: "('e cell \<Rightarrow> 'a list option) \<Rightarrow> nat \<times> nat \<times> nat \<Rightarrow> 'e cell \<Rightarrow> 'a list option" where
  "window get r c = map_option (\<lambda>vs. take (snd (snd r)) (drop (fst (snd r)) vs)) (get c)"

definition pointer_to :: "('e cell \<Rightarrow> 'a option) \<Rightarrow> ('a \<Rightarrow> 'e cell) \<Rightarrow> ('a, 'v, 'e) copier \<Rightarrow> (pointer, 'v option, 'e) copier" where
  "pointer_to get mk A = reference (\<lambda>a. a) (\<lambda>_. get) (\<lambda>a _. a) mk A"

definition slice_of :: "('e cell \<Rightarrow> 'a list option) \<Rightarrow> ('a list \<Rightarrow> 'e cell) \<Rightarrow> ('a, 'v, 'e) copier \<Rightarrow> (slice, 'v list option, 'e) copier" where
  "slice_of get mk A = reference fst (window get) (\<lambda>a ws. (a, 0, length ws)) mk (elements A)"

lemma pointer_to_copy: "cp_copy (pointer_to get mk A) = copy_pointer get mk (cp_copy A)"
  by (intro ext) (simp add: pointer_to_def reference_def copy_pointer_def)

lemma slice_of_copy: "cp_copy (slice_of get mk A) = copy_slice get mk (cp_copy A)"
  by (intro ext) (auto simp: slice_of_def reference_def copy_slice_def window_def elements_def split: option.split)

lemma pointer_to_deep: "deep_copier A \<Longrightarrow> (\<And>v. get (mk v) = Some v) \<Longrightarrow> deep_copier (pointer_to get mk A)"
  unfolding pointer_to_def by (rule reference_deep) auto

lemma slice_of_deep: "deep_copier A \<Longrightarrow> (\<And>vs. get (mk vs) = Some vs) \<Longrightarrow> deep_copier (slice_of get mk A)"
  unfolding slice_of_def by (rule reference_deep) (auto simp: window_def elements_deep)

section \<open>Copiers of the API types\<close>

text \<open>
  Each type is a tuple of its fields; its value is the record of \<open>ApiTypes\<close> where the type has no foreign parts, otherwise the tuple
  of the values of its fields (a nil slice and an empty one are different values).
\<close>

abbreviation "string_field \<equiv> pointer_to get_string StringCell (plain (\<lambda>s. s))"
abbreviation "int32_field \<equiv> pointer_to get_int32 Int32Cell (plain sint)"
abbreviation "int64_field \<equiv> pointer_to get_int64 Int64Cell (plain sint)"
abbreviation "foreign_slice F \<equiv> slice_of get_foreign ForeignArray F"

definition floor_copier :: "(ThroughputFloorSpecM, ThroughputFloorSpec, 'e) copier" where
  "floor_copier = represented (\<lambda>s. (tfm_MinBytes s, tfm_Window s, tfm_Grace s))
     (\<lambda>(m, w, g). \<lparr>tfm_MinBytes = m, tfm_Window = w, tfm_Grace = g\<rparr>)
     (\<lambda>(m, w, g). \<lparr>tf_MinBytes = m, tf_Window = w, tf_Grace = g\<rparr>)
     (both int64_field (both string_field string_field))"

definition config_spec_copier :: "(GatewayConfigSpecM, GatewayConfigSpec, 'e) copier" where
  "config_spec_copier = represented
     (\<lambda>s. (gsm_Motd s, gsm_RelayIdleTimeout s, gsm_RelayMaxDuration s, gsm_TCPKeepAlive s, gsm_DialTimeout s,
        gsm_PerIPMaxActiveConnections s, gsm_MaxActiveConnections s, gsm_MaxQueuedConnections s, gsm_ThroughputFloor s))
     (\<lambda>(mo, ri, rm, ka, di, pi, ma, mq, tf). \<lparr>gsm_Motd = mo, gsm_RelayIdleTimeout = ri, gsm_RelayMaxDuration = rm, gsm_TCPKeepAlive = ka,
        gsm_DialTimeout = di, gsm_PerIPMaxActiveConnections = pi, gsm_MaxActiveConnections = ma, gsm_MaxQueuedConnections = mq,
        gsm_ThroughputFloor = tf\<rparr>)
     (\<lambda>(mo, ri, rm, ka, di, pi, ma, mq, tf). \<lparr>gcs_Motd = mo, gcs_RelayIdleTimeout = ri, gcs_RelayMaxDuration = rm, gcs_TCPKeepAlive = ka,
        gcs_DialTimeout = di, gcs_PerIPMaxActiveConnections = pi, gcs_MaxActiveConnections = ma, gcs_MaxQueuedConnections = mq,
        gcs_ThroughputFloor = tf\<rparr>)
     (both string_field (both string_field (both string_field (both string_field (both string_field
       (both int32_field (both int32_field (both int32_field (pointer_to get_floor FloorCell floor_copier)))))))))"

definition config_status_copier :: "('e, 'v, 'e) copier \<Rightarrow> (GatewayConfigStatusM, 'v list option, 'e) copier" where
  "config_status_copier F = represented gstm_Conditions (\<lambda>c. \<lparr>gstm_Conditions = c\<rparr>) (\<lambda>c. c) (foreign_slice F)"

definition config_copier :: "('e, 'v, 'e) copier \<Rightarrow> ('e GatewayConfigM, TypeMeta \<times> 'v \<times> GatewayConfigSpec \<times> 'v list option, 'e) copier" where
  "config_copier F = represented (\<lambda>c. (gcm_TypeMeta c, gcm_ObjectMeta c, gcm_Spec c, gcm_Status c))
     (\<lambda>(t, m, s, st). \<lparr>gcm_TypeMeta = t, gcm_ObjectMeta = m, gcm_Spec = s, gcm_Status = st\<rparr>) (\<lambda>v. v)
     (both (plain (\<lambda>t. t)) (both F (both config_spec_copier (config_status_copier F))))"

definition config_list_copier :: "('e, 'v, 'e) copier \<Rightarrow>
    ('e GatewayConfigListM, TypeMeta \<times> 'v \<times> (TypeMeta \<times> 'v \<times> GatewayConfigSpec \<times> 'v list option) list option, 'e) copier" where
  "config_list_copier F = represented (\<lambda>l. (glm_TypeMeta l, glm_ListMeta l, glm_Items l))
     (\<lambda>(t, m, i). \<lparr>glm_TypeMeta = t, glm_ListMeta = m, glm_Items = i\<rparr>) (\<lambda>v. v)
     (both (plain (\<lambda>t. t)) (both F (slice_of get_configs ConfigArray (config_copier F))))"

definition route_spec_copier :: "('e, 'v, 'e) copier \<Rightarrow> (RsyncRouteSpecM, 'v list option \<times> string list option \<times> 'v list option, 'e) copier" where
  "route_spec_copier F = represented (\<lambda>s. (rsm_ParentRefs s, rsm_ModuleNames s, rsm_BackendRefs s))
     (\<lambda>(p, m, b). \<lparr>rsm_ParentRefs = p, rsm_ModuleNames = m, rsm_BackendRefs = b\<rparr>) (\<lambda>v. v)
     (both (foreign_slice F) (both (slice_of get_strings StringArray (plain (\<lambda>s. s))) (foreign_slice F)))"

definition route_status_copier :: "('e, 'v, 'e) copier \<Rightarrow> (RsyncRouteStatusM, 'v list option, 'e) copier" where
  "route_status_copier F = represented rstm_Parents (\<lambda>p. \<lparr>rstm_Parents = p\<rparr>) (\<lambda>v. v) (foreign_slice F)"

definition route_copier :: "('e, 'v, 'e) copier \<Rightarrow>
    ('e RsyncRouteM, TypeMeta \<times> 'v \<times> ('v list option \<times> string list option \<times> 'v list option) \<times> 'v list option, 'e) copier" where
  "route_copier F = represented (\<lambda>r. (rrm_TypeMeta r, rrm_ObjectMeta r, rrm_Spec r, rrm_Status r))
     (\<lambda>(t, m, s, st). \<lparr>rrm_TypeMeta = t, rrm_ObjectMeta = m, rrm_Spec = s, rrm_Status = st\<rparr>) (\<lambda>v. v)
     (both (plain (\<lambda>t. t)) (both F (both (route_spec_copier F) (route_status_copier F))))"

definition route_list_copier :: "('e, 'v, 'e) copier \<Rightarrow> ('e RsyncRouteListM,
    TypeMeta \<times> 'v \<times> (TypeMeta \<times> 'v \<times> ('v list option \<times> string list option \<times> 'v list option) \<times> 'v list option) list option, 'e) copier" where
  "route_list_copier F = represented (\<lambda>l. (rlm_TypeMeta l, rlm_ListMeta l, rlm_Items l))
     (\<lambda>(t, m, i). \<lparr>rlm_TypeMeta = t, rlm_ListMeta = m, rlm_Items = i\<rparr>) (\<lambda>v. v)
     (both (plain (\<lambda>t. t)) (both F (slice_of get_routes RouteArray (route_copier F))))"

text \<open>The copy functions of the copiers are the generated ones.\<close>

named_theorems copier_copy "the copy function of a copier"

lemma part_copy [copier_copy]:
  "cp_copy (plain f) = keep"
  "cp_copy (both A B) (a, b) h = (let (a', h) = cp_copy A a h; (b', h) = cp_copy B b h in ((a', b'), h))"
  "cp_copy (represented dest mk f A) c h = (let (a, h) = cp_copy A (dest c) h in (mk a, h))"
  by (simp_all add: copier_parts)

declare pointer_to_copy [copier_copy] slice_of_copy [copier_copy]

lemma floor_copy [copier_copy]: "cp_copy floor_copier = DeepCopyInto_ThroughputFloorSpec"
  by (intro ext) (simp add: floor_copier_def DeepCopyInto_ThroughputFloorSpec_def copier_copy Let_def split: prod.split)

lemma config_spec_copy [copier_copy]: "cp_copy config_spec_copier = DeepCopyInto_GatewayConfigSpec"
  by (intro ext) (simp add: config_spec_copier_def DeepCopyInto_GatewayConfigSpec_def copier_copy Let_def split: prod.split)

lemma config_status_copy [copier_copy]: "cp_copy (config_status_copier F) = DeepCopyInto_GatewayConfigStatus (cp_copy F)"
  by (intro ext) (simp add: config_status_copier_def DeepCopyInto_GatewayConfigStatus_def copier_copy Let_def split: prod.split)

lemma config_copy [copier_copy]: "cp_copy (config_copier F) = DeepCopyInto_GatewayConfig (cp_copy F)"
  by (intro ext) (simp add: config_copier_def DeepCopyInto_GatewayConfig_def copier_copy keep_def Let_def split: prod.split)

lemma config_list_copy [copier_copy]: "cp_copy (config_list_copier F) = DeepCopyInto_GatewayConfigList (cp_copy F)"
  by (intro ext) (simp add: config_list_copier_def DeepCopyInto_GatewayConfigList_def copier_copy keep_def Let_def split: prod.split)

lemma route_spec_copy [copier_copy]: "cp_copy (route_spec_copier F) = DeepCopyInto_RsyncRouteSpec (cp_copy F)"
  by (intro ext) (simp add: route_spec_copier_def DeepCopyInto_RsyncRouteSpec_def copier_copy Let_def split: prod.split)

lemma route_status_copy [copier_copy]: "cp_copy (route_status_copier F) = DeepCopyInto_RsyncRouteStatus (cp_copy F)"
  by (intro ext) (simp add: route_status_copier_def DeepCopyInto_RsyncRouteStatus_def copier_copy Let_def split: prod.split)

lemma route_copy [copier_copy]: "cp_copy (route_copier F) = DeepCopyInto_RsyncRoute (cp_copy F)"
  by (intro ext) (simp add: route_copier_def DeepCopyInto_RsyncRoute_def copier_copy keep_def Let_def split: prod.split)

lemma route_list_copy [copier_copy]: "cp_copy (route_list_copier F) = DeepCopyInto_RsyncRouteList (cp_copy F)"
  by (intro ext) (simp add: route_list_copier_def DeepCopyInto_RsyncRouteList_def copier_copy keep_def Let_def split: prod.split)

text \<open>Every type is copied deeply, given that the foreign structs are.\<close>

lemmas deep_parts = plain_deep both_deep pointer_to_deep slice_of_deep

interpretation floor: deep_copier floor_copier
  unfolding floor_copier_def by (intro represented_deep deep_parts) auto

interpretation config_spec: deep_copier config_spec_copier
  unfolding config_spec_copier_def by (intro represented_deep deep_parts floor.deep_copier_axioms) auto

lemma config_deep: "deep_copier F \<Longrightarrow> deep_copier (config_copier F)"
  unfolding config_copier_def config_status_copier_def
  by (intro represented_deep deep_parts config_spec.deep_copier_axioms) auto

lemma config_list_deep: "deep_copier F \<Longrightarrow> deep_copier (config_list_copier F)"
  unfolding config_list_copier_def by (intro represented_deep deep_parts config_deep) auto

lemma route_deep: "deep_copier F \<Longrightarrow> deep_copier (route_copier F)"
  unfolding route_copier_def route_spec_copier_def route_status_copier_def
  by (intro represented_deep deep_parts) auto

lemma route_list_deep: "deep_copier F \<Longrightarrow> deep_copier (route_list_copier F)"
  unfolding route_list_copier_def by (intro represented_deep deep_parts route_deep) auto

text \<open>The pointers that \<open>DeepCopy\<close> takes and returns.\<close>

definition "config_at F = pointer_to get_config ConfigCell (config_copier F)"
definition "config_list_at F = pointer_to get_config_list ConfigListCell (config_list_copier F)"
definition "route_at F = pointer_to get_route RouteCell (route_copier F)"
definition "route_list_at F = pointer_to get_route_list RouteListCell (route_list_copier F)"

lemmas at_defs = config_at_def config_list_at_def route_at_def route_list_at_def

lemma at_copy:
  "cp_copy (config_at F) = DeepCopy_GatewayConfig (cp_copy F)"
  "cp_copy (config_list_at F) = DeepCopy_GatewayConfigList (cp_copy F)"
  "cp_copy (route_at F) = DeepCopy_RsyncRoute (cp_copy F)"
  "cp_copy (route_list_at F) = DeepCopy_RsyncRouteList (cp_copy F)"
  by (simp_all add: at_defs copier_copy DeepCopy_GatewayConfig_def DeepCopy_GatewayConfigList_def
    DeepCopy_RsyncRoute_def DeepCopy_RsyncRouteList_def)

lemma at_deep:
  assumes "deep_copier F"
  shows "deep_copier (config_at F)" "deep_copier (config_list_at F)" "deep_copier (route_at F)" "deep_copier (route_list_at F)"
  unfolding at_defs using assms by (auto intro!: pointer_to_deep config_deep config_list_deep route_deep route_list_deep)

text \<open>C33: A deep copy of a GatewayConfig, an RsyncRoute or a list of them has the value of the original, with every pointer and slice
  followed and nil kept apart from empty, and the two share no memory: whatever is then written into the cells of one of them,
  and whatever is allocated, the other keeps its value. (The structs of the other API packages are copied the same way.)\<close>

theorem deep_copies_are_isolated:
  assumes "deep_copier F"
  shows "(cp_ok (config_at F) h p \<longrightarrow> isolated_copy (config_at F) h p (DeepCopy_GatewayConfig (cp_copy F) p h)) \<and>
    (cp_ok (config_list_at F) h p \<longrightarrow> isolated_copy (config_list_at F) h p (DeepCopy_GatewayConfigList (cp_copy F) p h)) \<and>
    (cp_ok (route_at F) h p \<longrightarrow> isolated_copy (route_at F) h p (DeepCopy_RsyncRoute (cp_copy F) p h)) \<and>
    (cp_ok (route_list_at F) h p \<longrightarrow> isolated_copy (route_list_at F) h p (DeepCopy_RsyncRouteList (cp_copy F) p h))"
  using at_deep [OF assms, THEN deep_copier.isolated] by (simp add: at_copy)

text \<open>A list with a route whose structs of the other packages have a name and a pointer to a namespace, which the two
  parent references of the route share.\<close>

definition named_foreign :: "(string \<times> pointer, string \<times> string option, string \<times> pointer) copier" where
  "named_foreign = both (plain (\<lambda>s. s)) string_field"

definition shared_heap :: "(string \<times> pointer) heap" where
  "shared_heap =
     [StringCell ''mirror'', ForeignArray [(''gw'', Some 0), (''gw2'', Some 0)], StringArray [''debian'', ''ubuntu''],
      RouteArray [\<lparr>rrm_TypeMeta = (''RsyncRoute'', ''v1alpha1''), rrm_ObjectMeta = (''r'', None),
        rrm_Spec = \<lparr>rsm_ParentRefs = Some (1, 0, 2), rsm_ModuleNames = Some (2, 1, 1), rsm_BackendRefs = None\<rparr>,
        rrm_Status = \<lparr>rstm_Parents = Some (1, 0, 0)\<rparr>\<rparr>],
      RouteListCell \<lparr>rlm_TypeMeta = (''RsyncRouteList'', ''v1alpha1''), rlm_ListMeta = ('''', None), rlm_Items = Some (3, 0, 1)\<rparr>]"

lemmas sample_eval = shared_heap_def named_foreign_def at_defs route_list_copier_def route_copier_def route_spec_copier_def
  route_status_copier_def copier_parts pointer_to_def slice_of_def reference_def window_def elements_def

theorem deep_copies_are_isolated_witness:
  "isolated_copy (route_list_at named_foreign) shared_heap (Some 4) (DeepCopy_RsyncRouteList (cp_copy named_foreign) (Some 4) shared_heap) \<and>
   cp_val (route_list_at named_foreign) shared_heap (Some 4) = Some ((''RsyncRouteList'', ''v1alpha1''), ('''', None),
     Some [((''RsyncRoute'', ''v1alpha1''), (''r'', None),
       (Some [(''gw'', Some ''mirror''), (''gw2'', Some ''mirror'')], Some [''ubuntu''], None), Some [])])"
proof
  have "deep_copier named_foreign" unfolding named_foreign_def by (intro deep_parts) auto
  moreover have "cp_ok (route_list_at named_foreign) shared_heap (Some 4)" by (simp add: sample_eval)
  ultimately show "isolated_copy (route_list_at named_foreign) shared_heap (Some 4) (DeepCopy_RsyncRouteList (cp_copy named_foreign) (Some 4) shared_heap)"
    using deep_copies_are_isolated [of named_foreign shared_heap "Some 4"] by blast
  show "cp_val (route_list_at named_foreign) shared_heap (Some 4) = Some ((''RsyncRouteList'', ''v1alpha1''), ('''', None),
     Some [((''RsyncRoute'', ''v1alpha1''), (''r'', None),
       (Some [(''gw'', Some ''mirror''), (''gw2'', Some ''mirror'')], Some [''ubuntu''], None), Some [])])"
    by (simp add: sample_eval)
qed

text \<open>
  What the reconciler does with an object it was given: it assigns the status in place (\<open>route.Status.Parents = desiredParents\<close>). The object in
  the cache keeps its value.
\<close>

lemma status_write_keeps_cache:
  assumes "deep_copier F" "cp_ok (route_at F) h p" "DeepCopy_RsyncRoute (cp_copy F) p h = (Some b, h')" "get_route (h' ! b) = Some r"
  shows "cp_val (route_at F) ((h' @ new)[b := RouteCell (r\<lparr>rrm_Status := st\<rparr>)]) p = cp_val (route_at F) h p"
proof -
  have "isolated_copy (route_at F) h p (Some b, h')"
    using deep_copier.isolated [OF at_deep(3) [OF assms(1)] assms(2)] assms(3) by (simp add: at_copy)
  moreover have "b \<in> cp_reach (route_at F) h' (Some b)" by (simp add: route_at_def pointer_to_def reference_def)
  then have "writes (cp_reach (route_at F) h' (Some b)) h' ((h' @ new)[b := RouteCell (r\<lparr>rrm_Status := st\<rparr>)])"
    unfolding writes_def by (metis length_append length_list_update le_add1 nth_append nth_list_update_neq)
  ultimately show ?thesis unfolding isolated_copy_def by blast
qed

text \<open>The parts of these objects are copied the same way.\<close>

lemma DeepCopy_isolated:
  assumes "deep_copier A" "\<And>v. get (mk v) = Some v" "copy = copy_pointer get mk (cp_copy A)" "cp_ok (pointer_to get mk A) h p"
  shows "isolated_copy (pointer_to get mk A) h p (copy p h)"
  using deep_copier.isolated [OF pointer_to_deep [OF assms(1,2)] assms(4)] assms(3) by (simp add: pointer_to_copy)

lemma part_deep:
  assumes "deep_copier F"
  shows "deep_copier (config_status_copier F)" "deep_copier (route_spec_copier F)" "deep_copier (route_status_copier F)"
  unfolding config_status_copier_def route_spec_copier_def route_status_copier_def using assms
  by (auto intro!: represented_deep deep_parts)

lemma spec_copies_are_isolated:
  "cp_ok (pointer_to get_floor FloorCell floor_copier) h p \<Longrightarrow>
    isolated_copy (pointer_to get_floor FloorCell floor_copier) h p (DeepCopy_ThroughputFloorSpec p h)"
  "cp_ok (pointer_to get_config_spec ConfigSpecCell config_spec_copier) h p \<Longrightarrow>
    isolated_copy (pointer_to get_config_spec ConfigSpecCell config_spec_copier) h p (DeepCopy_GatewayConfigSpec p h)"
  "deep_copier F \<Longrightarrow> cp_ok (pointer_to get_route_spec RouteSpecCell (route_spec_copier F)) h p \<Longrightarrow>
    isolated_copy (pointer_to get_route_spec RouteSpecCell (route_spec_copier F)) h p (DeepCopy_RsyncRouteSpec (cp_copy F) p h)"
  by (rule DeepCopy_isolated; simp add: floor.deep_copier_axioms config_spec.deep_copier_axioms part_deep copier_copy
    DeepCopy_ThroughputFloorSpec_def DeepCopy_GatewayConfigSpec_def DeepCopy_RsyncRouteSpec_def)+

lemma status_copies_are_isolated:
  assumes "deep_copier F"
  shows "cp_ok (pointer_to get_config_status ConfigStatusCell (config_status_copier F)) h p \<Longrightarrow>
      isolated_copy (pointer_to get_config_status ConfigStatusCell (config_status_copier F)) h p (DeepCopy_GatewayConfigStatus (cp_copy F) p h)"
    "cp_ok (pointer_to get_route_status RouteStatusCell (route_status_copier F)) h p \<Longrightarrow>
      isolated_copy (pointer_to get_route_status RouteStatusCell (route_status_copier F)) h p (DeepCopy_RsyncRouteStatus (cp_copy F) p h)"
  using assms by (auto intro!: DeepCopy_isolated simp: part_deep copier_copy DeepCopy_GatewayConfigStatus_def DeepCopy_RsyncRouteStatus_def)

text \<open>\<open>DeepCopyObject\<close> returns the nil interface for a nil object, never an interface that holds a nil pointer.\<close>

lemma DeepCopyObject_nil:
  "DeepCopyObject_GatewayConfig f None h = (NilObject, h)" "DeepCopyObject_GatewayConfigList f None h = (NilObject, h)"
  "DeepCopyObject_RsyncRoute f None h = (NilObject, h)" "DeepCopyObject_RsyncRouteList f None h = (NilObject, h)"
  "fst (DeepCopyObject_GatewayConfig f p h) \<noteq> ConfigObject None" "fst (DeepCopyObject_GatewayConfigList f p h) \<noteq> ConfigListObject None"
  "fst (DeepCopyObject_RsyncRoute f p h) \<noteq> RouteObject None" "fst (DeepCopyObject_RsyncRouteList f p h) \<noteq> RouteListObject None"
  by (simp_all add: DeepCopyObject_GatewayConfig_def DeepCopyObject_GatewayConfigList_def DeepCopyObject_RsyncRoute_def
    DeepCopyObject_RsyncRouteList_def as_object_def DeepCopy_GatewayConfig_def DeepCopy_GatewayConfigList_def DeepCopy_RsyncRoute_def
    DeepCopy_RsyncRouteList_def copy_pointer_def split: prod.split)

end
