(* ===== verification/Denial.thy ===== *)
theory Denial
  imports ServerConfig
begin

text \<open>
  The contributed helper \<open>contrib/rsync-403/main.go\<close>: a server that answers every rsync client with a refusal. What it sends is a
  greeting the gateway understands and a message that does not end like a module list, so that a gateway pointed at it relays the
  refusal, and module discovery against it fails instead of taking words of the message for modules.
\<close>

definition defaultTimeout403 :: int where
  "defaultTimeout403 = 10 * 1000000000"

definition RsyncdServerVersion403 :: string where
  "RsyncdServerVersion403 = ''@RSYNCD: 32.0 sha512 sha256 sha1 md5 md4'' @ [lineFeed]"

text \<open>\<open>Fprintf\<close> with the template, whose only verb is the address.\<close>

definition motdTemplate :: "string \<Rightarrow> string" where
  "motdTemplate addr =
     ''USTC Mirrors has denied your access due to inappropriate Rsync usage.'' @ [lineFeed] @
     ''See our help page for more information: <https://mirrors.ustc.edu.cn/help/rsync-guide.html>'' @ [lineFeed] @
     ''@ERROR: Access denied for '' @ addr @ [lineFeed]"

text \<open>
  A connection as \<open>handle\<close> uses it: its write, given the deadline, takes the bytes or fails. The result is what was handed to the
  write, that the connection is closed (deferred), and the error. (The goroutine that discards input has no effect here.)
\<close>

record Answer403 =
  an_sent :: string
  an_deadline :: int
  an_closed :: bool
  an_err :: "string option"

definition handle403 :: "int \<Rightarrow> string \<Rightarrow> (int \<Rightarrow> string \<Rightarrow> string option) \<Rightarrow> Answer403" where
  "handle403 now remote write =
     (let buf = RsyncdServerVersion403 @ motdTemplate remote; deadline = now + defaultTimeout403 in
      \<lparr>an_sent = buf, an_deadline = deadline, an_closed = True, an_err = write deadline buf\<rparr>)"

text \<open>
  \<open>main\<close>: a failed listen or accept panics; otherwise each accepted connection is handled on its own. The events are the
  results of \<open>Accept\<close> so far; \<open>Inr\<close> is the loop waiting for the next one.
\<close>

type_synonym accept403 = "string + int \<times> string \<times> (int \<Rightarrow> string \<Rightarrow> string option)"

fun accept_loop403 :: "accept403 list \<Rightarrow> Answer403 list \<Rightarrow> Answer403 list \<times> string option" where
  "accept_loop403 [] done = (done, None)"
| "accept_loop403 (Inl err # events) done = (done, Some err)"
| "accept_loop403 (Inr (now, remote, write) # events) done = accept_loop403 events (done @ [handle403 now remote write])"

definition main403 :: "string option \<Rightarrow> accept403 list \<Rightarrow> Answer403 list \<times> string option" where
  "main403 listen events = (case listen of Some err \<Rightarrow> ([], Some err) | None \<Rightarrow> accept_loop403 events [])"

lemma accept_loop403_answers:
  "fst (accept_loop403 events done) = done @ map (\<lambda>(now, remote, write). handle403 now remote write) (map projr (takeWhile (\<lambda>e. \<not> isl e) events))"
  by (induction events "done" rule: accept_loop403.induct) auto

text \<open>Every client accepted before a failure is answered with the refusal that names its address, and its connection is closed.\<close>

lemma main403_refuses_everyone:
  assumes "listen = None" "\<forall>e\<in>set events. \<not> isl e" "i < length events"
  shows "length (fst (main403 listen events)) = length events \<and> snd (main403 listen events) = None \<and>
    an_sent (fst (main403 listen events) ! i) = RsyncdServerVersion403 @ motdTemplate (fst (snd (projr (events ! i)))) \<and>
    an_closed (fst (main403 listen events) ! i)"
proof -
  have t: "takeWhile (\<lambda>e. \<not> isl e) events = events" using assms(2) by (simp add: takeWhile_eq_all_conv)
  have "snd (accept_loop403 events done) = None" for "done"
    using assms(2) by (induction events "done" rule: accept_loop403.induct) auto
  then show ?thesis using assms(1,3)
    by (simp add: main403_def accept_loop403_answers t handle403_def Let_def split: prod.split)
qed

lemma read_modules_skips:
  assumes "lineFeed \<notin> set l" "\<not> HasPrefix l RsyncdVersionPrefix" "\<And>ms. read_modules rest ms = None"
  shows "read_modules (l @ lineFeed # rest) ms = None"
  using assms by (subst read_modules.simps) (simp add: ReadString_line TrimSuffix_line split: option.split)

lemma refusal_lists_nothing:
  assumes "lineFeed \<notin> set addr"
  shows "read_modules (motdTemplate addr) ms = None"
proof -
  have e: "read_modules [] ms = None" for ms by (subst read_modules.simps) (simp add: ReadString_def)
  have 1: "read_modules ((''@ERROR: Access denied for '' @ addr) @ [lineFeed]) ms = None" for ms
    by (rule read_modules_skips) (use assms e in \<open>auto simp: lineFeed_def HasPrefix_def RsyncdVersionPrefix_def\<close>)
  have 2: "read_modules (''See our help page for more information: <https://mirrors.ustc.edu.cn/help/rsync-guide.html>'' @ lineFeed #
      ((''@ERROR: Access denied for '' @ addr) @ [lineFeed])) ms = None" for ms
    by (rule read_modules_skips) (use 1 in \<open>auto simp: lineFeed_def HasPrefix_def RsyncdVersionPrefix_def\<close>)
  have "read_modules (''USTC Mirrors has denied your access due to inappropriate Rsync usage.'' @ lineFeed #
      (''See our help page for more information: <https://mirrors.ustc.edu.cn/help/rsync-guide.html>'' @ lineFeed #
      ((''@ERROR: Access denied for '' @ addr) @ [lineFeed]))) ms = None"
    by (rule read_modules_skips) (use 2 in \<open>auto simp: lineFeed_def HasPrefix_def RsyncdVersionPrefix_def\<close>)
  then show ?thesis by (simp add: motdTemplate_def)
qed

text \<open>Module discovery against the helper fails at the end of the stream and finds no modules.\<close>

lemma discovery_of_refusal_fails:
  assumes "e_Dial env (addDefaultTCPPort (t_Addr (uc_Target u)) ''873'') = Inr peer" "\<forall>i. pe_write peer i = None"
    and "pe_data peer = an_sent (handle403 now addr write)" "lineFeed \<notin> set addr"
  shows "discoverModulesFromUpstream env u = Inl (''read module list: '' @ pe_err peer)"
proof -
  have "lineFeed \<notin> set ''@RSYNCD: 32.0 sha512 sha256 sha1 md5 md4''" by (simp add: lineFeed_def)
  from ReadString_line [OF this, of "motdTemplate addr"]
  have "ReadString (pe_data peer) = Some (RsyncdServerVersion403, motdTemplate addr)"
    using assms(3) by (simp add: handle403_def RsyncdServerVersion403_def Let_def)
  moreover have "HasPrefix RsyncdServerVersion403 RsyncdVersionPrefix"
    by (simp add: HasPrefix_def RsyncdVersionPrefix_def RsyncdServerVersion403_def)
  ultimately show ?thesis using assms(1,2) refusal_lists_nothing [OF assms(4)] by (simp add: discoverModulesFromUpstream_def Let_def)
qed

end
