(* ===== verification/Routing.thy ===== *)
theory Routing
  imports ServerConfig "HOL-Library.Word"
begin

unbundle bit_operations_syntax

text \<open>
  Client addresses and the wire helpers of the relay (\<open>pkg/server/utils.go\<close>, \<open>chooseTargetByClientIP\<close>
  in \<open>server.go\<close>), with what they use of package \<open>net\<close>: \<open>IP.To4\<close>, \<open>IP.To16\<close>, \<open>IP.String\<close>, \<open>net.ParseIP\<close>.
  A \<open>net.IP\<close> is its list of bytes, the empty list being nil. A connection delivers its input in
  segments, each with the error that the read which takes its last byte returns; \<open>readLine\<close> sees
  one segment, or the part of it that fits the buffer, per \<open>Read\<close>.
\<close>

section \<open>IP addresses\<close>

type_synonym IP = "nat list"

definition v4_prefix :: IP where
  "v4_prefix = [0, 0, 0, 0, 0, 0, 0, 0, 0, 0, 255, 255]"

definition To4 :: "IP \<Rightarrow> IP option" where
  "To4 ip =
     (if length ip = 4 then Some ip
      else if length ip = 16 \<and> take 12 ip = v4_prefix then Some (drop 12 ip)
      else None)"

definition To16 :: "IP \<Rightarrow> IP option" where
  "To16 ip = (if length ip = 4 then Some (v4_prefix @ ip) else if length ip = 16 then Some ip else None)"

definition dotted :: "IP \<Rightarrow> string" where
  "dotted ip = Join (map dec_digits ip) ''.''"

text \<open>Hexadecimal without leading zeros, as \<open>netip\<close> prints the eight groups of an IPv6 address.\<close>

fun hex_digits :: "nat \<Rightarrow> string" where
  "hex_digits n = (if n < 16 then [hex_char n] else hex_digits (n div 16) @ [hex_char (n mod 16)])"

declare hex_digits.simps [simp del]

fun groups_of :: "IP \<Rightarrow> nat list" where
  "groups_of (a # b # ip) = (a * 256 + b) # groups_of ip"
| "groups_of _ = []"

text \<open>The first of the longest runs of at least two zero groups, as the loop in \<open>netip.Addr.appendTo6\<close> finds it.\<close>

definition zero_run :: "nat list \<Rightarrow> nat \<Rightarrow> nat" where
  "zero_run gs i = length (takeWhile (\<lambda>g. g = 0) (drop i gs))"

definition best_run :: "nat list \<Rightarrow> (nat \<times> nat) option" where
  "best_run gs = fold (\<lambda>i best. let l = zero_run gs i in
     if 2 \<le> l \<and> (case best of None \<Rightarrow> True | Some (s, e) \<Rightarrow> e - s < l) then Some (i, i + l) else best) [0..<length gs] None"

definition colon_hex :: "nat list \<Rightarrow> string" where
  "colon_hex gs =
     (case best_run gs of
        None \<Rightarrow> Join (map hex_digits gs) '':''
      | Some (s, e) \<Rightarrow> Join (map hex_digits (take s gs)) '':'' @ ''::'' @ Join (map hex_digits (drop e gs)) '':'')"

definition hexString :: "IP \<Rightarrow> string" where
  "hexString ip = concat (map (\<lambda>b. [hex_char (b div 16), hex_char (b mod 16)]) ip)"

definition IP_String :: "IP \<Rightarrow> string" where
  "IP_String ip =
     (if ip = [] then ''<nil>''
      else if length ip \<noteq> 4 \<and> length ip \<noteq> 16 then CHR ''?'' # hexString ip
      else (case To4 ip of Some p4 \<Rightarrow> dotted p4 | None \<Rightarrow> colon_hex (groups_of ip)))"

section \<open>Parsing an IP address\<close>

text \<open>
  \<open>parseIPv4Fields\<close>: the octets read so far, the current octet with its number of digits. A dot
  must be preceded by a digit and followed by something.
\<close>

fun parse4 :: "nat list \<Rightarrow> nat \<Rightarrow> nat \<Rightarrow> string \<Rightarrow> IP option" where
  "parse4 octets val digLen [] = (if length octets < 3 then None else Some (octets @ [val]))"
| "parse4 octets val digLen (c # s) =
     (if is_digit c then
        (if digLen = 1 \<and> val = 0 then None
         else let val' = val * 10 + digit_val c in
           if val' > 255 then None else parse4 octets val' (Suc digLen) s)
      else if c = CHR ''.'' then
        (if digLen = 0 \<or> s = [] then None
         else if length octets = 3 then None
         else parse4 (octets @ [val]) 0 0 s)
      else None)"

definition parseIPv4 :: "string \<Rightarrow> IP option" where
  "parseIPv4 s = parse4 [] 0 0 s"

definition hex_val :: "char \<Rightarrow> nat option" where
  "hex_val c =
     (let b = byte_of c in
      if 48 \<le> b \<and> b \<le> 57 then Some (b - 48)
      else if 97 \<le> b \<and> b \<le> 102 then Some (b - 87)
      else if 65 \<le> b \<and> b \<le> 70 then Some (b - 55)
      else None)"

text \<open>The inner loop of \<open>parseIPv6\<close>: at most four hexadecimal digits; \<open>off\<close> counts them.\<close>

fun hex_group :: "nat \<Rightarrow> nat \<Rightarrow> string \<Rightarrow> (nat \<times> nat \<times> string) option" where
  "hex_group off acc [] = Some (off, acc, [])"
| "hex_group off acc (c # s) =
     (case hex_val c of
        None \<Rightarrow> Some (off, acc, c # s)
      | Some d \<Rightarrow> if off > 3 then None else hex_group (Suc off) (acc * 16 + d) s)"

text \<open>
  The outer loop: the bytes parsed so far and the position of the ellipsis. The result is what is
  left of the string with the bytes and the ellipsis at the point where the loop ends.
\<close>

function parse6 :: "IP \<Rightarrow> nat option \<Rightarrow> string \<Rightarrow> (IP \<times> nat option \<times> string) option" where
  "parse6 ip ell s =
     (if length ip \<ge> 16 then Some (ip, ell, s)
      else case hex_group 0 0 s of
        None \<Rightarrow> None
      | Some (off, acc, rest) \<Rightarrow>
          if off = 0 then None
          else if rest \<noteq> [] \<and> hd rest = CHR ''.'' then
            (if ell = None \<and> length ip \<noteq> 12 then None
             else if length ip + 4 > 16 then None
             else (case parse4 [] 0 0 s of None \<Rightarrow> None | Some v4 \<Rightarrow> Some (ip @ v4, ell, [])))
          else
            (let ip' = ip @ [acc div 256, acc mod 256] in
             if rest = [] then Some (ip', ell, [])
             else if hd rest \<noteq> CHR '':'' then None
             else if tl rest = [] then None
             else
               (let s1 = tl rest in
                if hd s1 = CHR '':'' then
                  (if ell \<noteq> None then None
                   else if tl s1 = [] then Some (ip', Some (length ip'), [])
                   else parse6 ip' (Some (length ip')) (tl s1))
                else parse6 ip' ell s1)))"
  by pat_completeness auto
termination
  by (relation "measure (\<lambda>(ip, ell, s). 16 - length ip)") auto

declare parse6.simps [simp del]

definition expand_ellipsis :: "IP \<Rightarrow> nat option \<Rightarrow> IP option" where
  "expand_ellipsis ip ell =
     (if length ip < 16 then
        (case ell of None \<Rightarrow> None | Some e \<Rightarrow> Some (take e ip @ replicate (16 - length ip) 0 @ drop e ip))
      else if ell \<noteq> None then None else Some ip)"

text \<open>An address with a zone is not an \<open>IP\<close>, so the part after a percent sign makes the parse fail.\<close>

definition parseIPv6 :: "string \<Rightarrow> IP option" where
  "parseIPv6 s =
     (if CHR ''%'' \<in> set s then None
      else if take 2 s = ''::'' then
        (if drop 2 s = [] then Some (replicate 16 0)
         else (case parse6 [] (Some 0) (drop 2 s) of
                 Some (ip, ell, []) \<Rightarrow> expand_ellipsis ip ell
               | _ \<Rightarrow> None))
      else (case parse6 [] None s of
              Some (ip, ell, []) \<Rightarrow> expand_ellipsis ip ell
            | _ \<Rightarrow> None))"

definition ParseIP :: "string \<Rightarrow> IP option" where
  "ParseIP s =
     (case dropWhile (\<lambda>c. c \<noteq> CHR ''.'' \<and> c \<noteq> CHR '':'' \<and> c \<noteq> CHR ''%'') s of
        [] \<Rightarrow> None
      | c # _ \<Rightarrow>
          if c = CHR ''.'' then map_option (\<lambda>v4. v4_prefix @ v4) (parseIPv4 s)
          else if c = CHR '':'' then parseIPv6 s
          else None)"

section \<open>Network addresses\<close>

datatype Addr = TCPAddr IP int | UnixAddr string | OtherAddr string string

definition netAddrToString :: "Addr \<Rightarrow> string" where
  "netAddrToString addr =
     (case addr of TCPAddr ip port \<Rightarrow> IP_String ip | UnixAddr name \<Rightarrow> name | OtherAddr typ s \<Rightarrow> s)"

definition header_endpoint :: "Addr \<Rightarrow> string + (IP \<times> int)" where
  "header_endpoint addr =
     (case addr of
        TCPAddr ip port \<Rightarrow> Inr (ip, port)
      | UnixAddr name \<Rightarrow> Inr (v4_prefix @ [127, 0, 0, 1], 1)
      | OtherAddr typ s \<Rightarrow> Inl typ)"

definition crlf :: string where
  "crlf = [CHR 0x0D, CHR 0x0A]"

definition generateProxyProtocolHeader :: "Addr \<Rightarrow> Addr \<Rightarrow> string + string" where
  "generateProxyProtocolHeader sourceAddr destAddr =
     (case header_endpoint sourceAddr of
        Inl typ \<Rightarrow> Inl (''invalid source address type '' @ typ)
      | Inr (sourceIP, sourcePort) \<Rightarrow>
          (case header_endpoint destAddr of
             Inl typ \<Rightarrow> Inl (''invalid destination address type '' @ typ)
           | Inr (destIP, destPort) \<Rightarrow>
               (let ipVersion = (if To4 sourceIP = None then ''TCP6'' else ''TCP4'') in
                Inr (''PROXY '' @ ipVersion @ '' '' @ IP_String sourceIP @ '' '' @ IP_String destIP @ '' '' @
                     Itoa sourcePort @ '' '' @ Itoa destPort @ crlf))))"

section \<open>Choosing a target\<close>

text \<open>\<open>hash/fnv\<close>'s 32-bit FNV-1a.\<close>

definition fnv32a :: "IP \<Rightarrow> 32 word" where
  "fnv32a bs = fold (\<lambda>b h. (h XOR word_of_nat b) * 16777619) bs 2166136261"

text \<open>\<open>None\<close> is the run-time panic of a division by zero, when the count is a multiple of \<open>2^32\<close>.\<close>

definition chooseTargetByClientIP :: "IP option \<Rightarrow> nat \<Rightarrow> nat option" where
  "chooseTargetByClientIP ip targetCount =
     (if targetCount \<le> 1 then Some 0
      else (case (case ip of None \<Rightarrow> None | Some b \<Rightarrow> (case To4 b of Some p4 \<Rightarrow> Some p4 | None \<Rightarrow> To16 b)) of
              None \<Rightarrow> Some 0
            | Some normalized \<Rightarrow>
                (let n = (word_of_nat targetCount :: 32 word) in
                 if n = 0 then None else Some (unat (fnv32a normalized mod n)))))"

section \<open>Reading a line\<close>

type_synonym segment = "string \<times> string option"

text \<open>
  \<open>readLine\<close> with the bytes read so far: \<open>None\<close> while the input has no further segment, otherwise the
  bytes, the error and what is left of the input.
\<close>

fun readLine :: "nat \<Rightarrow> string \<Rightarrow> segment list \<Rightarrow> (string \<times> string option \<times> segment list) option" where
  "readLine mx buf [] = None"
| "readLine mx buf ((d, err) # segs) =
     (let k = mx - length buf;
          buf' = buf @ take k d;
          left = (if length d > k then (drop k d, err) # segs else segs);
          err' = (if length d > k then None else err) in
      if buf' \<noteq> [] \<and> last buf' = lineFeed then Some (buf', None, left)
      else if length buf' = mx then Some (buf', None, left)
      else (case err' of Some e \<Rightarrow> Some (buf', Some e, left) | None \<Rightarrow> readLine mx buf' segs))"

definition ReadBufferSize :: nat where
  "ReadBufferSize = 256"

section \<open>Printing and parsing an IP address\<close>

definition valid_ip :: "IP \<Rightarrow> bool" where
  "valid_ip ip \<longleftrightarrow> (length ip = 4 \<or> length ip = 16) \<and> (\<forall>b\<in>set ip. b < 256)"

definition address_char :: "char \<Rightarrow> bool" where
  "address_char c \<longleftrightarrow> c = CHR ''.'' \<or> c = CHR '':'' \<or> c = CHR ''%''"

lemma parse4_octet:
  "n \<le> 255 \<Longrightarrow> parse4 oc 0 0 (dec_digits n @ s) = parse4 oc n (length (dec_digits n)) s"
proof (induction n arbitrary: s rule: dec_digits.induct)
  case (1 n)
  show ?case
  proof (cases "n < 10")
    case True
    then show ?thesis using 1(2) by (simp add: dec_digits.simps [of n] digit_char_props)
  next
    case False
    then have pos: "n div 10 \<noteq> 0" by (simp add: div_eq_0_iff)
    have "parse4 oc 0 0 (dec_digits (n div 10) @ digit_char n # s) =
        parse4 oc (n div 10) (length (dec_digits (n div 10))) (digit_char n # s)"
      using 1 False by simp
    also have "\<dots> = parse4 oc n (Suc (length (dec_digits (n div 10)))) s"
      using False 1(2) pos by (simp add: digit_char_props Let_def)
    finally show ?thesis using False by (simp add: dec_digits.simps [of n])
  qed
qed

lemma parse4_dot:
  assumes "n \<le> 255" "s \<noteq> []" "length oc < 3"
  shows "parse4 oc 0 0 (dec_digits n @ CHR ''.'' # s) = parse4 (oc @ [n]) 0 0 s"
  using assms by (simp add: parse4_octet dec_digits_nonempty is_digit_def)

lemma parse4_last: "n \<le> 255 \<Longrightarrow> length oc = 3 \<Longrightarrow> parse4 oc 0 0 (dec_digits n) = Some (oc @ [n])"
  using parse4_octet [of n oc "[]"] by simp

lemma list4: "length xs = 4 \<Longrightarrow> \<exists>a b c d. xs = [a, b, c, d]"
  by (auto simp: length_Suc_conv eval_nat_numeral)

lemma digit_not_special: "is_digit c \<Longrightarrow> \<not> address_char c"
  by (auto simp: is_digit_def address_char_def)

lemma dec_digits_not_special: "c \<in> set (dec_digits n) \<Longrightarrow> \<not> address_char c"
  using dec_digits_digits digit_not_special by blast

lemma ParseIP_first:
  assumes "\<And>c. c \<in> set pre \<Longrightarrow> \<not> address_char c"
  shows "ParseIP (pre @ CHR ''.'' # s) = map_option ((@) v4_prefix) (parseIPv4 (pre @ CHR ''.'' # s))"
    and "ParseIP (pre @ CHR '':'' # s) = parseIPv6 (pre @ CHR '':'' # s)"
proof -
  have "dropWhile (\<lambda>c. c \<noteq> CHR ''.'' \<and> c \<noteq> CHR '':'' \<and> c \<noteq> CHR ''%'') (pre @ d # s) = d # s" if "address_char d" for d
    using assms that by (subst dropWhile_append2) (auto simp: address_char_def)
  then show "ParseIP (pre @ CHR ''.'' # s) = map_option ((@) v4_prefix) (parseIPv4 (pre @ CHR ''.'' # s))"
    "ParseIP (pre @ CHR '':'' # s) = parseIPv6 (pre @ CHR '':'' # s)"
    by (simp_all add: ParseIP_def address_char_def)
qed

lemma ParseIP_dotted:
  assumes "length p4 = 4" "\<forall>b\<in>set p4. b < 256"
  shows "ParseIP (dotted p4) = Some (v4_prefix @ p4)"
proof -
  obtain a b c d where p4: "p4 = [a, b, c, d]" using list4 [OF assms(1)] by blast
  with assms(2) have le: "a \<le> 255" "b \<le> 255" "c \<le> 255" "d \<le> 255" by auto
  let ?s = "dec_digits b @ CHR ''.'' # dec_digits c @ CHR ''.'' # dec_digits d"
  have s: "dotted p4 = dec_digits a @ CHR ''.'' # ?s" by (simp add: dotted_def p4)
  have "parseIPv4 (dec_digits a @ CHR ''.'' # ?s) = Some p4"
    using le by (simp add: parseIPv4_def parse4_dot parse4_last p4 dec_digits_nonempty)
  with ParseIP_first(1) [of "dec_digits a" ?s] dec_digits_not_special show ?thesis by (simp add: s)
qed

subsection \<open>IPv6\<close>

definition bytes_of :: "nat list \<Rightarrow> IP" where
  "bytes_of gs = concat (map (\<lambda>g. [g div 256, g mod 256]) gs)"

lemma bytes_of_simps [simp]:
  "bytes_of [] = []" "bytes_of (g # gs) = [g div 256, g mod 256] @ bytes_of gs" "bytes_of (gs @ hs) = bytes_of gs @ bytes_of hs"
  "length (bytes_of gs) = 2 * length gs"
  by (induction gs) (simp_all add: bytes_of_def)

lemma bytes_of_zeros: "bytes_of (replicate n 0) = replicate (2 * n) 0"
  by (induction n) auto

lemma groups_of_inverse:
  "even (length ip) \<Longrightarrow> \<forall>b\<in>set ip. b < 256 \<Longrightarrow>
   bytes_of (groups_of ip) = ip \<and> length (groups_of ip) = length ip div 2 \<and> (\<forall>g\<in>set (groups_of ip). g < 65536)"
  by (induction ip rule: groups_of.induct) auto

lemma hex_val_char: "d < 16 \<Longrightarrow> hex_val (hex_char d) = Some d"
  by (simp add: hex_val_def hex_char_def Let_def of_char_mod_256)

lemma hex_digits_nonempty: "hex_digits n \<noteq> []"
  by (subst hex_digits.simps) simp

lemma hex_digits_hex: "c \<in> set (hex_digits n) \<Longrightarrow> hex_val c \<noteq> None"
proof (induction n rule: hex_digits.induct)
  case (1 n)
  then show ?case by (subst (asm) (2) hex_digits.simps) (auto simp: hex_val_char split: if_splits)
qed

lemma hex_not_special: "hex_val c \<noteq> None \<Longrightarrow> \<not> address_char c"
  by (auto simp: hex_val_def address_char_def Let_def)

lemma hex_digits_not_special: "c \<in> set (hex_digits n) \<Longrightarrow> \<not> address_char c"
  using hex_digits_hex hex_not_special by blast

lemma length_hex_digits: "n < 16 ^ Suc k \<Longrightarrow> length (hex_digits n) \<le> Suc k"
proof (induction k arbitrary: n)
  case 0
  then show ?case by (subst hex_digits.simps) simp
next
  case (Suc k)
  then have "n div 16 < 16 ^ Suc k" by (simp add: less_mult_imp_div_less mult.commute)
  with Suc.IH [of "n div 16"] show ?case by (subst hex_digits.simps) simp
qed

lemma hex_group_digits:
  assumes "length (hex_digits n) \<le> 4"
  shows "hex_group 0 0 (hex_digits n @ s) = hex_group (length (hex_digits n)) n s"
  using assms
proof (induction n arbitrary: s rule: hex_digits.induct)
  case (1 n)
  show ?case
  proof (cases "n < 16")
    case True
    then show ?thesis by (simp add: hex_digits.simps [of n] hex_val_char)
  next
    case False
    have len: "length (hex_digits n) = Suc (length (hex_digits (n div 16)))" using False by (simp add: hex_digits.simps [of n])
    have "hex_group 0 0 (hex_digits (n div 16) @ hex_char (n mod 16) # s) =
        hex_group (length (hex_digits (n div 16))) (n div 16) (hex_char (n mod 16) # s)"
      using 1 False len by simp
    also have "\<dots> = hex_group (Suc (length (hex_digits (n div 16)))) n s"
      using 1(2) len by (simp add: hex_val_char)
    finally show ?thesis using False len by (simp add: hex_digits.simps [of n])
  qed
qed

lemma hex_group_end:
  assumes "n < 65536" "s = [] \<or> hd s = CHR '':''"
  shows "hex_group 0 0 (hex_digits n @ s) = Some (length (hex_digits n), n, s)"
proof -
  have "hex_val (CHR '':'') = None" by (simp add: hex_val_def)
  then have "hex_group (length (hex_digits n)) n s = Some (length (hex_digits n), n, s)" using assms(2) by (cases s) auto
  with hex_group_digits [of n s] length_hex_digits [of n 3] assms(1) show ?thesis by simp
qed

text \<open>One step of the outer loop on a printed group.\<close>

lemma parse6_group:
  assumes "length ip < 16" "n < 65536"
  shows "parse6 ip ell (hex_digits n) = Some (ip @ bytes_of [n], ell, [])"
    and "s \<noteq> [] \<Longrightarrow> hd s \<noteq> CHR '':'' \<Longrightarrow> parse6 ip ell (hex_digits n @ CHR '':'' # s) = parse6 (ip @ bytes_of [n]) ell s"
    and "parse6 ip None (hex_digits n @ CHR '':'' # CHR '':'' # s) =
      (let ip' = ip @ bytes_of [n] in if s = [] then Some (ip', Some (length ip'), []) else parse6 ip' (Some (length ip')) s)"
  using assms hex_group_end [OF assms(2), of "[]"] hex_group_end [OF assms(2), of "CHR '':'' # s"]
    hex_group_end [OF assms(2), of "CHR '':'' # CHR '':'' # s"]
  by (subst parse6.simps, simp add: hex_digits_nonempty Let_def)+

definition hexes :: "nat list \<Rightarrow> string" where
  "hexes gs = Join (map hex_digits gs) '':''"

lemma hexes_simps:
  "hexes [] = []" "hexes [g] = hex_digits g" "gs \<noteq> [] \<Longrightarrow> hexes (g # gs) = hex_digits g @ CHR '':'' # hexes gs"
  by (simp_all add: hexes_def) (cases gs; simp)

lemma hexes_start: "gs \<noteq> [] \<Longrightarrow> hexes gs \<noteq> [] \<and> hd (hexes gs) \<noteq> CHR '':''"
proof (cases gs)
  case (Cons g gs')
  have "hd (hex_digits g) \<noteq> CHR '':''"
    using hex_digits_not_special [of "hd (hex_digits g)" g] hex_digits_nonempty by (auto simp: address_char_def)
  with Cons show ?thesis by (cases "gs' = []") (simp_all add: hexes_simps hex_digits_nonempty)
qed simp

lemma parse6_hexes:
  assumes "gs \<noteq> []" "length ip + 2 * length gs \<le> 16" "\<forall>g\<in>set gs. g < 65536"
  shows "parse6 ip ell (hexes gs) = Some (ip @ bytes_of gs, ell, [])"
  using assms
proof (induction gs arbitrary: ip)
  case (Cons g gs)
  show ?case
  proof (cases "gs = []")
    case True
    with Cons.prems show ?thesis by (simp add: hexes_simps parse6_group(1) del: bytes_of_simps(2))
  next
    case False
    have "parse6 (ip @ bytes_of [g]) ell (hexes gs) = Some ((ip @ bytes_of [g]) @ bytes_of gs, ell, [])"
      using Cons.prems False by (intro Cons.IH) auto
    moreover have "parse6 ip ell (hexes (g # gs)) = parse6 (ip @ bytes_of [g]) ell (hexes gs)"
      using Cons.prems False hexes_start [OF False] by (simp add: hexes_simps parse6_group(2) del: bytes_of_simps(2))
    ultimately show ?thesis by simp
  qed
qed simp

lemma parse6_ellipsis:
  assumes "gs \<noteq> []" "length ip + 2 * length gs \<le> 16" "\<forall>g\<in>set gs. g < 65536"
  shows "parse6 ip None (hexes gs @ ''::'' @ s) =
    (let ip' = ip @ bytes_of gs in if s = [] then Some (ip', Some (length ip'), []) else parse6 ip' (Some (length ip')) s)"
  using assms
proof (induction gs arbitrary: ip)
  case (Cons g gs)
  show ?case
  proof (cases "gs = []")
    case True
    with Cons.prems show ?thesis by (simp add: hexes_simps parse6_group(3) del: bytes_of_simps(2))
  next
    case False
    have "parse6 ip None (hexes (g # gs) @ ''::'' @ s) = parse6 (ip @ bytes_of [g]) None (hexes gs @ ''::'' @ s)"
      using Cons.prems False hexes_start [OF False] by (simp add: hexes_simps parse6_group(2) del: bytes_of_simps(2))
    with Cons.IH [of "ip @ bytes_of [g]"] Cons.prems False show ?thesis by (simp add: Let_def)
  qed
qed simp

definition is_run :: "nat list \<Rightarrow> nat \<times> nat \<Rightarrow> bool" where
  "is_run gs r \<longleftrightarrow> fst r + 2 \<le> snd r \<and> snd r \<le> length gs \<and>
     gs = take (fst r) gs @ replicate (snd r - fst r) 0 @ drop (snd r) gs"

lemma takeWhile_zeros: "takeWhile (\<lambda>g. g = 0) xs = replicate (length (takeWhile (\<lambda>g. g = 0) xs)) (0 :: nat)"
  by (induction xs) auto

lemma zero_run_is_run:
  assumes "i \<le> length gs" "2 \<le> zero_run gs i"
  shows "is_run gs (i, i + zero_run gs i)"
proof -
  let ?l = "zero_run gs i" and ?d = "drop i gs"
  have l: "?l \<le> length gs - i" unfolding zero_run_def using length_takeWhile_le [of _ ?d] by simp
  have "?d = takeWhile (\<lambda>g. g = 0) ?d @ drop ?l ?d" unfolding zero_run_def by (metis takeWhile_eq_take append_take_drop_id)
  then have "?d = replicate ?l 0 @ drop (i + ?l) gs"
    using takeWhile_zeros [of ?d] unfolding zero_run_def by (simp add: add.commute)
  moreover have "gs = take i gs @ ?d" by simp
  ultimately have "gs = take i gs @ replicate ?l 0 @ drop (i + ?l) gs" by metis
  then show ?thesis using assms l by (simp add: is_run_def)
qed

lemma best_run_is_run: "best_run gs = Some r \<Longrightarrow> is_run gs r"
proof -
  let ?f = "\<lambda>i best. let l = zero_run gs i in
     if 2 \<le> l \<and> (case best of None \<Rightarrow> True | Some (s, e) \<Rightarrow> e - s < l) then Some (i, i + l) else best"
  have "pred_option (is_run gs) (fold ?f js best)" if "\<forall>i\<in>set js. i \<le> length gs" "pred_option (is_run gs) best" for js best
    using that by (induction js arbitrary: best) (auto simp: Let_def zero_run_is_run)
  from this [of "[0..<length gs]" None] show "best_run gs = Some r \<Longrightarrow> is_run gs r" by (simp add: best_run_def)
qed

lemma hexes_no_percent: "CHR ''%'' \<notin> set (hexes gs)"
proof (induction gs)
  case (Cons g gs)
  then show ?case using hex_digits_not_special [of "CHR ''%''" g]
    by (cases "gs = []") (auto simp: hexes_simps address_char_def)
qed (simp add: hexes_simps)

lemma take2_hexes: "gs \<noteq> [] \<Longrightarrow> take 2 (hexes gs @ s) \<noteq> ''::''"
  using hexes_start [of gs] by (cases "hexes gs") auto

lemma parse_compressed:
  assumes "length pre + n + length post = 8" "2 \<le> n" "\<forall>g\<in>set (pre @ post). g < 65536"
  shows "parseIPv6 (hexes pre @ ''::'' @ hexes post) = Some (bytes_of (pre @ replicate n 0 @ post))"
proof -
  have small: "\<forall>g\<in>set pre. g < 65536" "\<forall>g\<in>set post. g < 65536" using assms(3) by auto
  have pc: "CHR ''%'' \<notin> set (hexes pre @ ''::'' @ hexes post)" using hexes_no_percent by simp
  have "2 * n = 16 - length (bytes_of pre @ bytes_of post)" using assms(1) by simp
  then have expand: "expand_ellipsis (bytes_of pre @ bytes_of post) (Some (2 * length pre)) = Some (bytes_of (pre @ replicate n 0 @ post))"
    using assms(2) by (simp add: expand_ellipsis_def bytes_of_zeros)
  have parse: "parse6 (bytes_of pre) (Some (2 * length pre)) (hexes post) = Some (bytes_of pre @ bytes_of post, Some (2 * length pre), [])"
    if "post \<noteq> []"
    using parse6_hexes [OF that _ small(2), of "bytes_of pre" "Some (2 * length pre)"] assms(1) by simp
  have empty: "hexes post = [] \<longleftrightarrow> post = []" using hexes_start [of post] hexes_simps(1) by metis
  show ?thesis
  proof (cases "pre = []")
    case pre: True
    show ?thesis
    proof (cases "post = []")
      case True
      then have "n = 8" using assms(1) pre by simp
      with pre True show ?thesis by (simp add: parseIPv6_def hexes_simps bytes_of_zeros)
    next
      case False
      with parse expand pc empty pre show ?thesis by (simp add: parseIPv6_def hexes_simps)
    qed
  next
    case False
    have "parse6 [] None (hexes pre @ ''::'' @ hexes post) =
        (if hexes post = [] then Some (bytes_of pre, Some (2 * length pre), [])
         else parse6 (bytes_of pre) (Some (2 * length pre)) (hexes post))"
      using parse6_ellipsis [OF False _ small(1), of "[]" "hexes post"] assms(1) by (simp add: Let_def)
    then have "parse6 [] None (hexes pre @ ''::'' @ hexes post) = Some (bytes_of pre @ bytes_of post, Some (2 * length pre), [])"
      using parse empty by (cases "post = []") (simp_all add: hexes_simps)
    then show ?thesis using expand pc take2_hexes [OF False] by (simp add: parseIPv6_def)
  qed
qed

lemma hexes_colon:
  assumes "length gs = 8"
  shows "\<exists>pre s. hexes gs = pre @ CHR '':'' # s \<and> (\<forall>c\<in>set pre. \<not> address_char c)"
proof -
  obtain g gs' where gs: "gs = g # gs'" "gs' \<noteq> []" using assms by (cases gs) fastforce+
  then have "hexes gs = hex_digits g @ CHR '':'' # hexes gs'" by (simp add: hexes_simps)
  then show ?thesis using hex_digits_not_special by blast
qed

lemma hexes_ellipsis_colon: "\<exists>pre s'. hexes gs @ ''::'' @ s = pre @ CHR '':'' # s' \<and> (\<forall>c\<in>set pre. \<not> address_char c)"
proof (cases gs)
  case Nil
  then show ?thesis by (intro exI [of _ "[]"] exI [of _ "CHR '':'' # s"]) (simp add: hexes_simps)
next
  case (Cons g gs')
  then obtain t where "hexes gs = hex_digits g @ t" "t = [] \<or> hd t = CHR '':''" by (cases "gs' = []") (auto simp: hexes_simps)
  then have "\<exists>s'. hexes gs @ ''::'' @ s = hex_digits g @ CHR '':'' # s'" by (cases t) auto
  then show ?thesis using hex_digits_not_special by blast
qed

lemma ParseIP_colon_hex:
  assumes "length gs = 8" "\<forall>g\<in>set gs. g < 65536"
  shows "ParseIP (colon_hex gs) = Some (bytes_of gs)"
proof (cases "best_run gs")
  case None
  have ne: "gs \<noteq> []" using assms(1) by auto
  have "parse6 [] None (hexes gs) = Some (bytes_of gs, None, [])" using parse6_hexes [OF ne _ assms(2), of "[]" None] assms(1) by simp
  then have "parseIPv6 (hexes gs) = Some (bytes_of gs)"
    using take2_hexes [OF ne, of "[]"] hexes_no_percent [of gs] assms(1) by (simp add: parseIPv6_def expand_ellipsis_def)
  moreover obtain pre s where "hexes gs = pre @ CHR '':'' # s" "\<forall>c\<in>set pre. \<not> address_char c" using hexes_colon [OF assms(1)] by blast
  ultimately show ?thesis using None ParseIP_first(2) [of pre s] by (simp add: colon_hex_def hexes_def)
next
  case (Some r)
  obtain s e where r: "r = (s, e)" by (cases r)
  let ?t = "hexes (take s gs) @ ''::'' @ hexes (drop e gs)"
  have run: "s + 2 \<le> e" "e \<le> 8" "gs = take s gs @ replicate (e - s) 0 @ drop e gs"
    using best_run_is_run [OF Some] assms(1) unfolding r is_run_def by simp_all
  have "\<forall>g\<in>set (take s gs @ drop e gs). g < 65536" using assms(2) by (auto dest: in_set_takeD in_set_dropD)
  then have "parseIPv6 ?t = Some (bytes_of (take s gs @ replicate (e - s) 0 @ drop e gs))"
    using run(1,2) assms(1) by (intro parse_compressed) auto
  then have "parseIPv6 ?t = Some (bytes_of gs)" using run(3) by simp
  moreover obtain pre s' where "?t = pre @ CHR '':'' # s'" "\<forall>c\<in>set pre. \<not> address_char c" using hexes_ellipsis_colon by blast
  ultimately have "ParseIP ?t = Some (bytes_of gs)" using ParseIP_first(2) [of pre s'] by simp
  then show ?thesis using Some r by (simp add: colon_hex_def hexes_def)
qed

lemma ParseIP_String:
  assumes "valid_ip ip"
  shows "ParseIP (IP_String ip) = To16 ip"
proof (cases "To4 ip")
  case None
  then have len: "length ip = 16" using assms by (auto simp: valid_ip_def To4_def)
  with groups_of_inverse [of ip] assms have "bytes_of (groups_of ip) = ip" "length (groups_of ip) = 8" "\<forall>g\<in>set (groups_of ip). g < 65536"
    by (auto simp: valid_ip_def)
  with ParseIP_colon_hex [of "groups_of ip"] None len show ?thesis by (auto simp: IP_String_def To16_def)
next
  case (Some p4)
  then have "length p4 = 4" "\<forall>b\<in>set p4. b < 256" "To16 ip = Some (v4_prefix @ p4)"
    using assms by (auto simp: To4_def To16_def valid_ip_def dest: in_set_dropD split: if_splits) (metis append_take_drop_id)
  with ParseIP_dotted [of p4] Some assms show ?thesis by (auto simp: IP_String_def valid_ip_def)
qed

section \<open>The choice of a target\<close>

lemma choose_of_normalized:
  assumes "0 < n" "n < 2 ^ 32" "To4 b = Some p4 \<or> (To4 b = None \<and> To16 b = Some p4)"
  shows "chooseTargetByClientIP (Some b) n = Some (unat (fnv32a p4) mod n)"
proof (cases "n = 1")
  case False
  have "unat (word_of_nat n :: 32 word) = n" using assms(2) by (simp add: unsigned_of_nat take_bit_nat_eq_self)
  moreover from this have "(word_of_nat n :: 32 word) \<noteq> 0" using assms(1) by (metis less_irrefl unat_0)
  ultimately show ?thesis using assms False by (auto simp: chooseTargetByClientIP_def Let_def unat_mod)
qed (simp add: chooseTargetByClientIP_def)

lemma chooseTarget_in_range:
  assumes "0 < n" "n < 2 ^ 32"
  shows "\<exists>i<n. chooseTargetByClientIP ip n = Some i"
proof (cases ip)
  case None
  then show ?thesis using assms by (simp add: chooseTargetByClientIP_def)
next
  case (Some b)
  show ?thesis
  proof (cases "\<exists>p4. To4 b = Some p4 \<or> (To4 b = None \<and> To16 b = Some p4)")
    case True
    then obtain p4 where "To4 b = Some p4 \<or> (To4 b = None \<and> To16 b = Some p4)" by blast
    from choose_of_normalized [OF assms this] assms(1) Some show ?thesis by simp
  next
    case False
    then have "To4 b = None" "To16 b = None" by (cases "To4 b"; cases "To16 b"; simp)+
    with assms Some show ?thesis by (simp add: chooseTargetByClientIP_def)
  qed
qed

section \<open>Lines\<close>

lemma readLine_stream:
  assumes "readLine mx buf segs = Some (line, err, left)" "length buf < mx"
  shows "buf @ concat (map fst segs) = line @ concat (map fst left) \<and> length line \<le> mx \<and>
    (err = None \<longrightarrow> line \<noteq> [] \<and> (last line = lineFeed \<or> length line = mx))"
  using assms
proof (induction mx buf segs rule: readLine.induct)
  case (2 mx buf d e segs)
  let ?k = "mx - length buf"
  show ?case
  proof (cases "length d > ?k")
    case True
    then have full: "length (buf @ take ?k d) = mx" using "2.prems"(2) by simp
    then have "line = buf @ take ?k d" "err = None" "left = (drop ?k d, e) # segs"
      using "2.prems" True by (auto simp: Let_def split: if_splits)
    then show ?thesis using full "2.prems"(2) by auto
  next
    case False
    then have t: "take ?k d = d" by simp
    show ?thesis
    proof (cases "(buf @ d \<noteq> [] \<and> last (buf @ d) = lineFeed) \<or> length (buf @ d) = mx \<or> e \<noteq> None")
      case True
      then have "line = buf @ d" "left = segs" "err = None \<longrightarrow> (buf @ d \<noteq> [] \<and> last (buf @ d) = lineFeed) \<or> length (buf @ d) = mx"
        using "2.prems"(1) False t by (auto simp: Let_def split: if_splits option.splits)
      then show ?thesis using False "2.prems"(2) by auto
    next
      case cont: False
      then have r: "readLine mx (buf @ d) segs = Some (line, err, left)" "length (buf @ d) < mx"
        using "2.prems" False t by (auto simp: Let_def split: if_splits)
      have "(buf @ d) @ concat (map fst segs) = line @ concat (map fst left) \<and> length line \<le> mx \<and>
          (err = None \<longrightarrow> line \<noteq> [] \<and> (last line = lineFeed \<or> length line = mx))"
        using "2.IH" [OF refl _ refl refl] r cont False t by (cases e) auto
      then show ?thesis by simp
    qed
  qed
qed simp

lemma readLine_whole_line:
  assumes "buf @ concat (map fst segs) = l @ [lineFeed]" "lineFeed \<notin> set l" "length l < mx" "\<forall>s\<in>set segs. snd s = None"
    "length buf \<le> length l"
  shows "\<exists>left. readLine mx buf segs = Some (l @ [lineFeed], None, left) \<and> concat (map fst left) = []"
  using assms
proof (induction segs arbitrary: buf)
  case Nil
  then have "length buf = Suc (length l)" by (metis append_Nil2 concat.simps(1) length_append_singleton list.simps(8))
  then show ?case using Nil.prems(5) by simp
next
  case (Cons seg segs)
  obtain d where seg: "seg = (d, None)" using Cons.prems(4) by (cases seg) auto
  have eq: "(buf @ d) @ concat (map fst segs) = l @ [lineFeed]" using Cons.prems(1) seg by simp
  then have "length (buf @ d) \<le> Suc (length l)" by (metis le_add1 length_append length_append_singleton)
  then have fits: "\<not> length d > mx - length buf" "take (mx - length buf) d = d" using Cons.prems(3) by auto
  show ?case
  proof (cases "length (buf @ d) = Suc (length l)")
    case True
    then have whole: "buf @ d = l @ [lineFeed]" "concat (map fst segs) = []"
      using eq by (metis append_eq_append_conv append_Nil2 length_append_singleton)+
    moreover from whole(1) have "buf @ d \<noteq> []" "last (buf @ d) = lineFeed" by (simp_all del: append_is_Nil_conv)
    ultimately show ?thesis using fits by (simp only: readLine.simps seg Let_def if_False if_True simp_thms) blast
  next
    case False
    then have len: "length (buf @ d) \<le> length l" using \<open>length (buf @ d) \<le> Suc (length l)\<close> by simp
    then have pre: "buf @ d = take (length (buf @ d)) l" using eq by (metis append_eq_conv_conj take_append diff_is_0_eq' take_eq_Nil append_Nil2)
    then have "buf @ d \<noteq> [] \<Longrightarrow> last (buf @ d) \<noteq> lineFeed" using Cons.prems(2) by (metis in_set_takeD last_in_set)
    moreover have "length (buf @ d) < mx" using len Cons.prems(3) by simp
    ultimately have "readLine mx buf (seg # segs) = readLine mx (buf @ d) segs" using fits by (auto simp: seg Let_def)
    with Cons.IH [OF eq Cons.prems(2,3) _ len] Cons.prems(4) show ?thesis by simp
  qed
qed

section \<open>Properties\<close>

text \<open>C26: The textual form of a client address loses nothing: parsing the string of any IPv4 or IPv6 address, compressed zeros
  and IPv4-mapped addresses included, gives its 16-byte form back.\<close>

theorem client_address_roundtrip:
  assumes "valid_ip ip"
  shows "ParseIP (netAddrToString (TCPAddr ip port)) = To16 ip"
  using ParseIP_String [OF assms] by (simp add: netAddrToString_def)

theorem client_address_roundtrip_witness:
  "valid_ip [32, 1, 13, 184, 0, 0, 0, 0, 0, 0, 0, 0, 0, 0, 0, 1] \<and>
   ParseIP (netAddrToString (TCPAddr [32, 1, 13, 184, 0, 0, 0, 0, 0, 0, 0, 0, 0, 0, 0, 1] 873)) =
     Some [32, 1, 13, 184, 0, 0, 0, 0, 0, 0, 0, 0, 0, 0, 0, 1]"
proof -
  have "valid_ip [32, 1, 13, 184, 0, 0, 0, 0, 0, 0, 0, 0, 0, 0, 0, 1]" by (simp add: valid_ip_def)
  with client_address_roundtrip [OF this, of 873] show ?thesis by (simp add: To16_def)
qed

text \<open>C27: A client is spread by its address alone: among \<open>n\<close> targets a TCP client gets the one at the FNV-1a hash of its shortest
  byte form modulo \<open>n\<close>, whatever its port and whether its address came in 4-byte or IPv4-mapped form; every other client gets
  some target in range as well, so the choice never panics.\<close>

theorem clients_are_spread_by_address:
  assumes "0 < n" "n < 2 ^ 32"
  shows "(\<forall>ip port. valid_ip ip \<longrightarrow>
      chooseTargetByClientIP (ParseIP (netAddrToString (TCPAddr ip port))) n =
        Some (unat (fnv32a (case To4 ip of Some p4 \<Rightarrow> p4 | None \<Rightarrow> ip)) mod n)) \<and>
    (\<forall>addr. \<exists>i<n. chooseTargetByClientIP (ParseIP (netAddrToString addr)) n = Some i)"
proof (intro conjI allI impI)
  fix ip port assume v: "valid_ip ip"
  let ?b = "if length ip = 4 then v4_prefix @ ip else ip"
  have parse: "ParseIP (netAddrToString (TCPAddr ip port)) = Some ?b"
    using ParseIP_String [OF v] v by (auto simp: netAddrToString_def To16_def valid_ip_def)
  have "To4 ?b = Some (case To4 ip of Some p4 \<Rightarrow> p4 | None \<Rightarrow> ip) \<or>
      (To4 ?b = None \<and> To16 ?b = Some (case To4 ip of Some p4 \<Rightarrow> p4 | None \<Rightarrow> ip))"
    using v by (auto simp: To4_def To16_def v4_prefix_def valid_ip_def)
  from choose_of_normalized [OF assms this] parse
  show "chooseTargetByClientIP (ParseIP (netAddrToString (TCPAddr ip port))) n =
      Some (unat (fnv32a (case To4 ip of Some p4 \<Rightarrow> p4 | None \<Rightarrow> ip)) mod n)" by simp
qed (rule chooseTarget_in_range [OF assms])

theorem clients_are_spread_by_address_witness:
  "chooseTargetByClientIP (ParseIP (netAddrToString (TCPAddr [10, 0, 0, 7] 40000))) 3 = Some 1 \<and>
   chooseTargetByClientIP (ParseIP (netAddrToString (TCPAddr (v4_prefix @ [10, 0, 0, 7]) 50000))) 3 = Some 1"
proof -
  have v: "valid_ip [10, 0, 0, 7]" "valid_ip (v4_prefix @ [10, 0, 0, 7])" by (simp_all add: valid_ip_def v4_prefix_def)
  have "unat (fnv32a [10, 0, 0, 7]) mod 3 = 1" by (simp add: fnv32a_def)
  then show ?thesis
    using clients_are_spread_by_address [of 3] v by (auto simp: To4_def v4_prefix_def)
qed

text \<open>C28: However the network splits a request line that fits the buffer, \<open>readLine\<close> returns exactly that line.\<close>

theorem readLine_ignores_segmentation:
  assumes "concat (map fst segs) = l @ [lineFeed]" "lineFeed \<notin> set l" "length l < mx" "\<forall>s\<in>set segs. snd s = None"
  shows "\<exists>left. readLine mx [] segs = Some (l @ [lineFeed], None, left) \<and> concat (map fst left) = []"
  using readLine_whole_line [of "[]" segs l mx] assms by simp

theorem readLine_ignores_segmentation_witness:
  "\<exists>left. readLine ReadBufferSize [] [(''deb'', None), ('''', None), (''ian'' @ [lineFeed], None)] = Some (''debian'' @ [lineFeed], None, left) \<and>
     concat (map fst left) = []"
  by (rule readLine_ignores_segmentation) (simp_all add: lineFeed_def ReadBufferSize_def)

text \<open>The address families of the header are those of the source alone: an IPv4 client of an IPv6 upstream gets a header that
  announces TCP4 with an IPv6 destination.\<close>

theorem proxy_header_mixes_families:
  "generateProxyProtocolHeader (TCPAddr [10, 0, 0, 1] 5000) (TCPAddr [32, 1, 13, 184, 0, 0, 0, 0, 0, 0, 0, 0, 0, 0, 0, 1] 873) =
     Inr (''PROXY TCP4 10.0.0.1 2001:db8::1 5000 873'' @ crlf)"
  by code_simp

text \<open>A line that fills the buffer has no line feed, so cutting off its last byte as \<open>Server.relay\<close> does cuts into the name.\<close>

theorem readLine_full_buffer:
  "lineFeed \<notin> set d \<Longrightarrow> 0 < mx \<Longrightarrow> length d = mx \<Longrightarrow> readLine mx [] [(d, None)] = Some (d, None, [])"
  by (auto simp: Let_def)

end
