(* ===== verification/Watcher.thy ===== *)
theory Watcher
  imports ServerConfig "HOL-Library.Word"
begin

text \<open>
  The watcher goroutine of a relay (\<open>Server.relay\<close> in \<open>pkg/server/server.go\<close>): the wake-up interval
  and one tick of its loop. Instants and durations are nanoseconds (\<open>time.Duration\<close>), byte counts are
  the 64-bit counters of the connection, whose difference the code compares as a signed number.
  A run of the watcher is its sequence of ticks: the instant the ticker delivered, the instant of the
  last read and the sum of the two byte counters at that moment.
  The theory proves that a kill always has its cause, that a connection that keeps the limits is left
  alone, and how late a violation is noticed.
\<close>

section \<open>The interval\<close>

definition Second :: int where
  "Second = 1000000000"

definition throughputEnabled :: "relayTimings \<Rightarrow> bool" where
  "throughputEnabled t \<longleftrightarrow> rt_minBytes t > 0 \<and> rt_minWindow t > 0"

definition watcherEnabled :: "relayTimings \<Rightarrow> bool" where
  "watcherEnabled t \<longleftrightarrow> rt_idle t > 0 \<or> rt_maxDuration t > 0 \<or> throughputEnabled t"

definition bumpInterval :: "int \<Rightarrow> int \<Rightarrow> int" where
  "bumpInterval d interval = (if d \<le> 0 then interval else if interval = 0 \<or> d < interval then d else interval)"

definition watch_interval :: "relayTimings \<Rightarrow> int" where
  "watch_interval t =
     (let i1 = (if rt_idle t > 0 then bumpInterval (rt_idle t div 4) 0 else 0);
          i2 = (if rt_maxDuration t > 0 then bumpInterval (rt_maxDuration t div 4) i1 else i1);
          i3 = (if throughputEnabled t then bumpInterval (rt_minWindow t div 4) i2 else i2) in
      if i3 < Second then Second else i3)"

lemma bumpInterval_bounds:
  "0 \<le> i \<Longrightarrow> 0 \<le> bumpInterval d i"
  "0 < i \<Longrightarrow> 0 < bumpInterval d i \<and> bumpInterval d i \<le> i"
  "0 < d \<Longrightarrow> 0 \<le> i \<Longrightarrow> 0 < bumpInterval d i \<and> bumpInterval d i \<le> d"
  by (auto simp: bumpInterval_def)

text \<open>The settings are whole seconds, so a positive one has a positive quarter.\<close>

lemma watch_interval_bounds:
  "Second \<le> watch_interval t"
  "Second \<le> rt_idle t \<Longrightarrow> watch_interval t \<le> max Second (rt_idle t div 4)"
  "Second \<le> rt_maxDuration t \<Longrightarrow> watch_interval t \<le> max Second (rt_maxDuration t div 4)"
proof -
  define i1 where "i1 = (if rt_idle t > 0 then bumpInterval (rt_idle t div 4) 0 else 0)"
  define i2 where "i2 = (if rt_maxDuration t > 0 then bumpInterval (rt_maxDuration t div 4) i1 else i1)"
  define i3 where "i3 = (if throughputEnabled t then bumpInterval (rt_minWindow t div 4) i2 else i2)"
  have w: "watch_interval t = max Second i3"
    by (simp add: watch_interval_def i1_def i2_def i3_def Let_def max_def)
  then show "Second \<le> watch_interval t" by simp
  have i1: "0 \<le> i1" unfolding i1_def by (simp add: bumpInterval_bounds(1))
  have i3: "i3 \<le> i2" if "0 < i2" unfolding i3_def using bumpInterval_bounds(2) [OF that] by simp
  {
    assume "Second \<le> rt_idle t"
    then have q: "0 < rt_idle t div 4" "0 < rt_idle t" by (auto simp: Second_def)
    then have "0 < i1" "i1 \<le> rt_idle t div 4" unfolding i1_def using bumpInterval_bounds(3) [OF q(1)] by simp_all
    moreover from this have "0 < i2" "i2 \<le> i1" unfolding i2_def using bumpInterval_bounds(2) by simp_all
    ultimately show "watch_interval t \<le> max Second (rt_idle t div 4)" using i3 unfolding w by linarith
  next
    assume "Second \<le> rt_maxDuration t"
    then have q: "0 < rt_maxDuration t div 4" "0 < rt_maxDuration t" by (auto simp: Second_def)
    then have "0 < i2" "i2 \<le> rt_maxDuration t div 4" unfolding i2_def using bumpInterval_bounds(3) [OF q(1) i1] by simp_all
    then show "watch_interval t \<le> max Second (rt_maxDuration t div 4)" using i3 unfolding w by linarith
  }
qed

section \<open>A tick\<close>

datatype reason = IdleTimeout | MaxDuration | ThroughputFloor

record Watch =
  wt_lastSampleTime :: int
  wt_lastSampleBytes :: "64 word"

datatype tick_result = Continue Watch | Kill reason

record Tick =
  tk_now :: int
  tk_lastActivity :: int
  tk_bytes :: "64 word"

definition watch_start :: "int \<Rightarrow> Watch" where
  "watch_start relayStartedAt = \<lparr>wt_lastSampleTime = relayStartedAt, wt_lastSampleBytes = 0\<rparr>"

definition watch_tick :: "relayTimings \<Rightarrow> int \<Rightarrow> Tick \<Rightarrow> Watch \<Rightarrow> tick_result" where
  "watch_tick t relayStartedAt k w =
     (if rt_idle t > 0 \<and> tk_now k - tk_lastActivity k \<ge> rt_idle t then Kill IdleTimeout
      else if rt_maxDuration t > 0 \<and> tk_now k - relayStartedAt \<ge> rt_maxDuration t then Kill MaxDuration
      else if throughputEnabled t \<and> tk_now k - relayStartedAt \<ge> rt_minGrace t \<and>
          tk_now k - wt_lastSampleTime w \<ge> rt_minWindow t then
        (let curBytes = tk_bytes k; delta = curBytes - wt_lastSampleBytes w in
         if sint delta < rt_minBytes t then Kill ThroughputFloor
         else Continue \<lparr>wt_lastSampleTime = tk_now k, wt_lastSampleBytes = curBytes\<rparr>)
      else Continue w)"

text \<open>The loop over the ticks the ticker delivers while the relay runs: when it kills and why.\<close>

fun watch_run :: "relayTimings \<Rightarrow> int \<Rightarrow> Watch \<Rightarrow> Tick list \<Rightarrow> (int \<times> reason) option" where
  "watch_run t started w [] = None"
| "watch_run t started w (k # ks) =
     (case watch_tick t started k w of
        Kill r \<Rightarrow> Some (tk_now k, r)
      | Continue w' \<Rightarrow> watch_run t started w' ks)"

section \<open>Causes of a kill\<close>

lemma watch_tick_cause:
  "watch_tick t started k w = Kill IdleTimeout \<Longrightarrow> rt_idle t > 0 \<and> tk_now k - tk_lastActivity k \<ge> rt_idle t"
  "watch_tick t started k w = Kill MaxDuration \<Longrightarrow> rt_maxDuration t > 0 \<and> tk_now k - started \<ge> rt_maxDuration t"
  "watch_tick t started k w = Kill ThroughputFloor \<Longrightarrow>
     throughputEnabled t \<and> tk_now k - started \<ge> rt_minGrace t \<and> tk_now k - wt_lastSampleTime w \<ge> rt_minWindow t \<and>
     sint (tk_bytes k - wt_lastSampleBytes w) < rt_minBytes t"
  by (auto simp: watch_tick_def Let_def split: if_splits)

text \<open>
  The last sample of the watcher is the start of the relay, with no bytes counted, or an earlier tick.
\<close>

definition sampled :: "int \<Rightarrow> Tick list \<Rightarrow> Watch \<Rightarrow> bool" where
  "sampled started past w \<longleftrightarrow> w = watch_start started \<or>
     (\<exists>k\<in>set past. w = \<lparr>wt_lastSampleTime = tk_now k, wt_lastSampleBytes = tk_bytes k\<rparr>)"

lemma sampled_tick:
  "sampled started past w \<Longrightarrow> watch_tick t started k w = Continue w' \<Longrightarrow> sampled started (past @ [k]) w'"
  by (auto simp: sampled_def watch_tick_def Let_def split: if_splits)

lemma watch_run_kill:
  assumes "watch_run t started w ks = Some (now, r)" "sampled started past w"
  shows "\<exists>pre k post w'. ks = pre @ k # post \<and> tk_now k = now \<and> watch_tick t started k w' = Kill r \<and> sampled started (past @ pre) w'"
  using assms
proof (induction ks arbitrary: w past)
  case (Cons k ks)
  show ?case
  proof (cases "watch_tick t started k w")
    case (Kill r')
    with Cons.prems show ?thesis by (intro exI [of _ "[]"] exI [of _ k] exI [of _ ks] exI [of _ w]) simp
  next
    case (Continue w')
    with Cons.prems have "watch_run t started w' ks = Some (now, r)" "sampled started (past @ [k]) w'"
      by (auto intro: sampled_tick)
    from Cons.IH [OF this] obtain pre k' post w'' where
      "ks = pre @ k' # post \<and> tk_now k' = now \<and> watch_tick t started k' w'' = Kill r \<and> sampled started ((past @ [k]) @ pre) w''" by blast
    then show ?thesis by (intro exI [of _ "k # pre"] exI [of _ k'] exI [of _ post] exI [of _ w'']) simp
  qed
qed simp

section \<open>Latency\<close>

text \<open>Ticks that arrive on time: each at most \<open>d\<close> after the one before, the first at most \<open>d\<close> after \<open>t0\<close>.\<close>

fun on_time :: "int \<Rightarrow> int \<Rightarrow> Tick list \<Rightarrow> bool" where
  "on_time d t0 [] \<longleftrightarrow> True"
| "on_time d t0 (k # ks) \<longleftrightarrow> t0 \<le> tk_now k \<and> tk_now k \<le> t0 + d \<and> on_time d (tk_now k) ks"

text \<open>If every tick from the instant \<open>deadline\<close> on kills, the kill comes before \<open>deadline + d\<close>.\<close>

lemma killed_in_time:
  assumes "on_time d t0 ks" "t0 < deadline" "ks \<noteq> []" "deadline \<le> tk_now (last ks)"
    and "\<And>k w. k \<in> set ks \<Longrightarrow> deadline \<le> tk_now k \<Longrightarrow> \<exists>r. watch_tick t started k w = Kill r"
  shows "\<exists>now r. watch_run t started w ks = Some (now, r) \<and> now < deadline + d"
  using assms
proof (induction ks arbitrary: t0 w)
  case (Cons k ks)
  show ?case
  proof (cases "watch_tick t started k w")
    case (Kill r)
    with Cons.prems show ?thesis by auto
  next
    case (Continue w')
    then have before: "tk_now k < deadline" using Cons.prems(5) [of k w] by fastforce
    then have "ks \<noteq> []" using Cons.prems(4) by auto
    with Cons.IH [of "tk_now k" w'] Cons.prems Continue before show ?thesis by auto
  qed
qed simp

lemma idle_latency:
  assumes "on_time (watch_interval t) started ks" "ks \<noteq> []"
    and idle: "Second \<le> rt_idle t" "started \<le> a" "\<forall>k\<in>set ks. tk_lastActivity k \<le> a" "a + rt_idle t \<le> tk_now (last ks)"
  shows "\<exists>now r. watch_run t started (watch_start started) ks = Some (now, r) \<and>
    now < a + rt_idle t + max Second (rt_idle t div 4)"
proof -
  have "\<exists>r. watch_tick t started k w = Kill r" if "k \<in> set ks" "a + rt_idle t \<le> tk_now k" for k w
    using idle that by (force simp: watch_tick_def Second_def)
  from killed_in_time [OF assms(1) _ assms(2) idle(4) this, of "watch_start started"] idle(1,2) watch_interval_bounds(2) [OF idle(1)] Second_def
  show ?thesis by fastforce
qed

lemma duration_latency:
  assumes "on_time (watch_interval t) started ks" "ks \<noteq> []"
    and dur: "Second \<le> rt_maxDuration t" "started + rt_maxDuration t \<le> tk_now (last ks)"
  shows "\<exists>now r. watch_run t started (watch_start started) ks = Some (now, r) \<and>
    now < started + rt_maxDuration t + max Second (rt_maxDuration t div 4)"
proof -
  have "\<exists>r. watch_tick t started k w = Kill r" if "k \<in> set ks" "started + rt_maxDuration t \<le> tk_now k" for k w
    using dur that by (force simp: watch_tick_def Second_def)
  from killed_in_time [OF assms(1) _ assms(2) dur(2) this, of "watch_start started"] dur(1) watch_interval_bounds(3) [OF dur(1)] Second_def
  show ?thesis by fastforce
qed

definition idle20 :: relayTimings where
  "idle20 = \<lparr>rt_idle = 20 * Second, rt_maxDuration = 0, rt_tcpKeepAlive = 0, rt_minBytes = 0, rt_minWindow = 60 * Second,
     rt_minGrace = 60 * Second\<rparr>"

definition silent_ticks :: "Tick list" where
  "silent_ticks = map (\<lambda>n. \<lparr>tk_now = n * Second, tk_lastActivity = 0, tk_bytes = 0\<rparr>) [5, 10, 15, 20]"

lemma silent_ticks_killed: "watch_run idle20 0 (watch_start 0) silent_ticks = Some (20 * Second, IdleTimeout)"
  by (simp add: silent_ticks_def idle20_def watch_tick_def throughputEnabled_def Second_def)

section \<open>Properties\<close>

text \<open>C24: The watcher closes a relay only for cause: no byte was read for the idle timeout, or the relay has run for its maximal
  duration, or, past the grace period, the bytes counted since the start or since an earlier tick at least a window ago stay
  below the floor.\<close>

theorem watcher_kills_for_cause:
  assumes "watch_run t started (watch_start started) ks = Some (now, r)"
  shows "\<exists>pre k post. ks = pre @ k # post \<and> tk_now k = now \<and>
    (case r of
       IdleTimeout \<Rightarrow> 0 < rt_idle t \<and> rt_idle t \<le> now - tk_lastActivity k
     | MaxDuration \<Rightarrow> 0 < rt_maxDuration t \<and> rt_maxDuration t \<le> now - started
     | ThroughputFloor \<Rightarrow> throughputEnabled t \<and> rt_minGrace t \<le> now - started \<and>
         (\<exists>(t0, b0)\<in>insert (started, 0) ((\<lambda>k. (tk_now k, tk_bytes k)) ` set pre).
            rt_minWindow t \<le> now - t0 \<and> sint (tk_bytes k - b0) < rt_minBytes t))"
proof -
  have "sampled started [] (watch_start started)" by (simp add: sampled_def)
  from watch_run_kill [OF assms this] obtain pre k post w' where
    k: "ks = pre @ k # post" "tk_now k = now" "watch_tick t started k w' = Kill r" "sampled started pre w'" by auto
  have "(wt_lastSampleTime w', wt_lastSampleBytes w') \<in> insert (started, 0) ((\<lambda>k. (tk_now k, tk_bytes k)) ` set pre)"
    using k(4) by (auto simp: sampled_def watch_start_def)
  with watch_tick_cause [of t started k w'] k(1-3) show ?thesis
    by (intro exI [of _ pre] exI [of _ k] exI [of _ post]) (cases r; fastforce)
qed

theorem watcher_kills_for_cause_witness:
  "\<exists>k\<in>set silent_ticks. tk_now k = 20 * Second \<and> rt_idle idle20 \<le> 20 * Second - tk_lastActivity k"
proof -
  obtain pre k post where k: "silent_ticks = pre @ k # post" "tk_now k = 20 * Second" "rt_idle idle20 \<le> 20 * Second - tk_lastActivity k"
    using watcher_kills_for_cause [OF silent_ticks_killed] by auto
  have "k \<in> set silent_ticks" unfolding k(1) by simp
  with k(2,3) show ?thesis by blast
qed

text \<open>C25: A violation is noticed in time: when the ticks arrive on schedule, a relay in which nothing is read after the instant
  \<open>a\<close> is closed before \<open>a\<close> plus the idle timeout plus a quarter of it (or plus one second, if that is more), and every relay
  is closed before its maximal duration plus a quarter of it, likewise.\<close>

theorem watcher_latency:
  assumes "on_time (watch_interval t) started ks" "ks \<noteq> []"
  shows "(Second \<le> rt_idle t \<and> started \<le> a \<and> (\<forall>k\<in>set ks. tk_lastActivity k \<le> a) \<and> a + rt_idle t \<le> tk_now (last ks) \<longrightarrow>
      (\<exists>now r. watch_run t started (watch_start started) ks = Some (now, r) \<and> now < a + rt_idle t + max Second (rt_idle t div 4))) \<and>
    (Second \<le> rt_maxDuration t \<and> started + rt_maxDuration t \<le> tk_now (last ks) \<longrightarrow>
      (\<exists>now r. watch_run t started (watch_start started) ks = Some (now, r) \<and>
        now < started + rt_maxDuration t + max Second (rt_maxDuration t div 4)))"
  using idle_latency [OF assms, of a] duration_latency [OF assms] by blast

theorem watcher_latency_witness:
  "\<exists>now r. watch_run idle20 0 (watch_start 0) silent_ticks = Some (now, r) \<and> now < 25 * Second"
proof -
  have "on_time (watch_interval idle20) 0 silent_ticks" "silent_ticks \<noteq> []"
    by (simp_all add: silent_ticks_def idle20_def watch_interval_def bumpInterval_def throughputEnabled_def Second_def)
  from watcher_latency [OF this, of 0] show ?thesis
    by (simp add: idle20_def silent_ticks_def Second_def)
qed

text \<open>The floor is checked over consecutive windows that start at the last sample, not over every window of that length: a
  relay that moves its bytes just after one sample and just before the next passes, although nothing moves for almost
  two windows.\<close>

definition floor60 :: relayTimings where
  "floor60 = \<lparr>rt_idle = 0, rt_maxDuration = 0, rt_tcpKeepAlive = 0, rt_minBytes = 100, rt_minWindow = 60 * Second, rt_minGrace = 60 * Second\<rparr>"

theorem throughput_gap_of_two_windows:
  "watch_run floor60 0 (watch_start 0) (map (\<lambda>n. \<lparr>tk_now = n * Second, tk_lastActivity = 0,
     tk_bytes = (if n < 119 then 100 else 200)\<rparr>) [15, 30, 45, 60, 75, 90, 105, 120]) = None"
  by (simp add: floor60_def watch_tick_def watch_start_def throughputEnabled_def Second_def)

end
