(* ===== verification/QueueClient.thy ===== *)
theory QueueClient
  imports AdmissionQueue
begin

text \<open>
  What a client of the admission queue sees between \<open>Acquire\<close> and \<open>Release\<close>: the value it receives
  tells its state in the queue. The channel of a client that was refused holds the refusal
  (\<open>refused_inv\<close>), and a client that has not received its last status yet never meets the zero
  value of a closed channel (\<open>unread\<close>), whatever the other clients and reloads do meanwhile.
\<close>

abbreviation full_status :: Status where
  "full_status \<equiv> zero_status\<lparr>st_Full := True\<rparr>"

definition unread :: "Queue \<Rightarrow> chan_id \<Rightarrow> bool" where
  "unread q c \<longleftrightarrow> (\<exists>x. q_chans q c = Some x \<and> (ch_closed x \<longrightarrow> ch_buf x \<noteq> None))"

definition refused_inv :: "Queue \<Rightarrow> bool" where
  "refused_inv q \<longleftrightarrow> (\<forall>c. live_handle q c \<and> c \<notin> set (q_active q) \<and> c \<notin> set (q_queued q) \<longrightarrow>
     (\<exists>b. q_chans q c = Some \<lparr>ch_buf = b, ch_closed = True\<rparr> \<and> b \<in> {None, Some full_status}))"

section \<open>Which channels an operation touches\<close>

lemma told_buffer: "c \<in> set cs \<Longrightarrow> \<exists>x. told i n cs m c = Some x \<and> ch_buf x \<noteq> None"
proof (induction cs arbitrary: i m)
  case (Cons d cs)
  then show ?case by (cases "c \<in> set cs") (auto simp: told_other)
qed simp

lemma settle_chans:
  assumes "aq_pre q" "bindE (promote q) broadcastStatus = Inr q'"
  shows "c \<notin> set (q_queued q) \<Longrightarrow> q_chans q' c = q_chans q c"
    and "c \<in> set (q_queued q) \<Longrightarrow> \<exists>x. q_chans q' c = Some x \<and> ch_buf x \<noteq> None"
proof -
  let ?g = "grant_first (room q) q"
  have "bindE (promote q) broadcastStatus = broadcastStatus ?g"
    using promote_open aq_pre_open [OF assms(1)] aq_pre_distinct_queued [OF assms(1)] by simp
  also have "\<dots> = Inr (?g\<lparr>q_chans := told (surplus ?g) (surplus ?g + int (length (q_queued ?g))) (q_queued ?g) (q_chans ?g)\<rparr>)"
    unfolding broadcastStatus_def by (rule broadcast_from_open [OF aq_pre_open [OF aq_pre_grant [OF assms(1)]]])
  finally have q': "q_chans q' = told (surplus ?g) (surplus ?g + int (length (q_queued ?g))) (drop (room q) (q_queued q))
      (granted (take (room q) (q_queued q)) (q_chans q))"
    using assms(2) by (simp add: grant_first_def)
  show "c \<notin> set (q_queued q) \<Longrightarrow> q_chans q' c = q_chans q c"
    unfolding q' by (subst told_other) (auto simp: granted_def dest: in_set_dropD in_set_takeD)
  assume "c \<in> set (q_queued q)"
  then have "c \<in> set (take (room q) (q_queued q)) \<or> c \<in> set (drop (room q) (q_queued q))"
    by (metis Un_iff append_take_drop_id set_append)
  then show "\<exists>x. q_chans q' c = Some x \<and> ch_buf x \<noteq> None"
    unfolding q' using told_buffer
    by (cases "c \<in> set (drop (room q) (q_queued q))") (auto simp: told_other granted_def)
qed

text \<open>Each operation leaves a channel alone or puts a fresh status into it; only waiting clients and the new one are told anything.\<close>

definition tells :: "Queue \<Rightarrow> Queue \<Rightarrow> chan_id set \<Rightarrow> bool" where
  "tells q q' cs \<longleftrightarrow> (\<forall>c. c \<notin> cs \<longrightarrow> q_chans q' c = q_chans q c) \<and> (\<forall>c\<in>cs. \<exists>x. q_chans q' c = Some x \<and> ch_buf x \<noteq> None)"

lemma SetMax_tells:
  assumes "aq_inv q" "SetMax m n q = Inr q'"
  shows "tells q q' (set (q_queued q))"
proof -
  let ?q = "q\<lparr>q_max := m, q_maxQueued := n\<rparr>"
  have "aq_pre ?q" using assms(1) by (simp add: aq_inv_def aq_pre_def)
  from settle_chans [OF this assms(2) [unfolded SetMax_def]] show ?thesis by (simp add: tells_def)
qed

lemma release_tells:
  assumes "aq_inv q" "release h q = Inr q'"
  shows "\<exists>cs. cs \<subseteq> set (q_queued q) - {h} \<and> tells q q' cs"
proof (cases "live_handle q h")
  case False
  then have "q' = q" using assms(2) by (auto simp: release_def live_handle_def split: option.splits if_splits)
  then show ?thesis by (intro exI [of _ "{}"]) (simp add: tells_def)
next
  case True
  let ?ih = "\<lparr>ih_ch = h, ih_released = True\<rparr>"
  let ?q1 = "q\<lparr>q_handles := (q_handles q)(h \<mapsto> ?ih)\<rparr>"
  have live: "q_handles q h = Some \<lparr>ih_ch = h, ih_released = False\<rparr>"
    using True assms(1) by (auto simp: live_handle_def aq_inv_def aq_pre_def)
  have run: "releaseFromHandle ?ih ?q1 = Inr q'" using assms(2) live by (simp add: release_def Let_def)
  have filt: "filter (\<lambda>item. h \<noteq> item) xs = removeAll h xs" for xs :: "nat list" by (simp add: removeAll_filter_not_eq)
  show ?thesis
  proof (cases "h \<in> set (q_queued q)")
    case True
    let ?q = "?q1\<lparr>q_queued := removeAll h (q_queued q)\<rparr>"
    have "length (removeAll h (q_queued q)) \<noteq> length (q_queued q)" using True length_removeAll_less by fastforce
    then have "broadcastStatus ?q = Inr q'" using run by (simp add: releaseFromHandle_def filt)
    moreover have "\<forall>c\<in>set (q_queued ?q). open_chan (q_chans ?q) c" using assms(1) by (simp add: aq_inv_def aq_pre_def)
    ultimately have "q_chans q' = told (surplus ?q) (surplus ?q + int (length (q_queued ?q))) (q_queued ?q) (q_chans q)"
      using broadcast_from_open [of "q_queued ?q" ?q "surplus ?q" "surplus ?q + int (length (q_queued ?q))"]
      unfolding broadcastStatus_def by (auto dest: sym)
    then have "tells q q' (set (removeAll h (q_queued q)))"
      using told_buffer by (simp add: tells_def told_other)
    then show ?thesis by (intro exI [of _ "set (removeAll h (q_queued q))"]) auto
  next
    case False
    let ?q = "?q1\<lparr>q_active := removeAll h (q_active q)\<rparr>"
    have "bindE (promote ?q) broadcastStatus = Inr q'"
      using run False by (simp add: releaseFromHandle_def filt removeAll_id)
    moreover have "aq_pre ?q" using assms(1) live False by (auto simp: aq_inv_def aq_pre_def distinct_removeAll)
    ultimately have "tells q q' (set (q_queued q))" using settle_chans [of ?q q'] by (simp add: tells_def)
    with False show ?thesis by blast
  qed
qed

lemma Acquire_tells:
  assumes "Acquire q = Inr (h, q')"
  shows "h = q_next q" "tells q q' {q_next q}"
  using assms
  by (auto simp: Acquire_def make_chan_def chan_send_def chan_close_def makeHandle_def tells_def Let_def
      bindE_Inr_iff split: if_splits)

section \<open>Refusals\<close>

lemma refused_step:
  assumes "aq_inv q" "refused_inv q" "q_step q q'"
  shows "refused_inv q'"
  using assms(3)
proof cases
  case (acquire h)
  have fresh: "q_next q \<notin> set (q_active q)" "q_next q \<notin> set (q_queued q)" using assms(1) by (auto simp: aq_inv_def aq_pre_def)
  from Acquire_refines [OF assms(1)] acquire have h: "h = q_next q" "live_handle q' = (live_handle q)(h := True)"
    "aq_abs q' = ad_join h (aq_abs q)" by auto
  have old: "q_chans q' c = q_chans q c" if "c \<noteq> h" for c using Acquire_tells [OF acquire] that h by (simp add: tells_def)
  have mem: "set (q_active q) \<subseteq> set (q_active q')" "set (q_queued q) \<subseteq> set (q_queued q')"
    using h(3) by (auto simp: aq_abs_def ad_join_def split: verdict.splits)
  have new: "\<exists>b. q_chans q' h = Some \<lparr>ch_buf = b, ch_closed = True\<rparr> \<and> b \<in> {None, Some full_status}"
    if "h \<notin> set (q_active q')" "h \<notin> set (q_queued q')"
    using acquire that by (auto simp: Acquire_def make_chan_def chan_send_def chan_close_def makeHandle_def
        Let_def bindE_Inr_iff split: if_splits)
  show ?thesis unfolding refused_inv_def
  proof (intro allI impI)
    fix c assume c: "live_handle q' c \<and> c \<notin> set (q_active q') \<and> c \<notin> set (q_queued q')"
    show "\<exists>b. q_chans q' c = Some \<lparr>ch_buf = b, ch_closed = True\<rparr> \<and> b \<in> {None, Some full_status}"
    proof (cases "c = h")
      case False
      then have "live_handle q c" "c \<notin> set (q_active q)" "c \<notin> set (q_queued q)" using c h(2) mem by auto
      with assms(2) old [OF False] show ?thesis by (simp add: refused_inv_def)
    qed (use c new in blast)
  qed
next
  case (release h)
  from release_refines [OF assms(1), of h] release have r: "live_handle q' = (live_handle q)(h := False)"
    "aq_abs q' = (if live_handle q h then ad_leave h (aq_abs q) else aq_abs q)" by auto
  have mem: "c \<in> set (q_active q') \<or> c \<in> set (q_queued q')" if "c \<noteq> h" "c \<in> set (q_active q) \<or> c \<in> set (q_queued q)" for c
  proof -
    have "set (q_active q') \<union> set (q_queued q') \<supseteq> (set (q_active q) \<union> set (q_queued q)) - {h}"
    proof (cases "live_handle q h")
      case True
      then have "q_active q' @ q_queued q' = (removeAll h (q_active q)) @ removeAll h (q_queued q)"
        using r(2) by (simp add: aq_abs_def ad_leave_def ad_fill_def)
      then have "set (q_active q') \<union> set (q_queued q') = set (removeAll h (q_active q)) \<union> set (removeAll h (q_queued q))"
        by (metis set_append)
      then show ?thesis by auto
    qed (use r(2) in \<open>auto simp: aq_abs_def\<close>)
    then show ?thesis using that by blast
  qed
  from release_tells [OF assms(1) release] obtain cs where cs: "cs \<subseteq> set (q_queued q) - {h}" "tells q q' cs" by blast
  show ?thesis unfolding refused_inv_def
  proof (intro allI impI)
    fix c assume c: "live_handle q' c \<and> c \<notin> set (q_active q') \<and> c \<notin> set (q_queued q')"
    then have "c \<noteq> h" "live_handle q c" using r(1) by (auto split: if_splits)
    moreover from this mem c have "c \<notin> set (q_active q)" "c \<notin> set (q_queued q)" by blast+
    moreover from this cs have "q_chans q' c = q_chans q c" by (auto simp: tells_def)
    ultimately show "\<exists>b. q_chans q' c = Some \<lparr>ch_buf = b, ch_closed = True\<rparr> \<and> b \<in> {None, Some full_status}"
      using assms(2) by (simp add: refused_inv_def)
  qed
next
  case (resize m n)
  from SetMax_refines [OF assms(1), of m n] resize have r: "q_handles q' = q_handles q" "aq_abs q' = ad_resize m n (aq_abs q)" by auto
  have "q_active q' @ q_queued q' = q_active q @ q_queued q" using r(2) by (simp add: aq_abs_def ad_resize_def ad_fill_def)
  then have "set (q_active q') \<union> set (q_queued q') = set (q_active q) \<union> set (q_queued q)" by (metis set_append)
  with assms(2) r(1) SetMax_tells [OF assms(1) resize] show ?thesis
    by (auto simp: refused_inv_def live_handle_def tells_def) (metis Un_iff)+
next
  case (receive c v)
  then obtain x where x: "q_chans q c = Some x" "q' = q \<or> q' = q\<lparr>q_chans := (q_chans q)(c \<mapsto> x\<lparr>ch_buf := None\<rparr>)\<rparr>"
    by (auto simp: recv_def split: option.splits if_splits)
  then show ?thesis
  proof (cases "q' = q")
    case False
    with x have q': "q' = q\<lparr>q_chans := (q_chans q)(c \<mapsto> x\<lparr>ch_buf := None\<rparr>)\<rparr>" by blast
    show ?thesis using assms(2) x(1) unfolding q' refused_inv_def live_handle_def by (cases x) (fastforce split: if_splits)
  qed (use assms(2) in simp)
qed

interpretation refusals: transition_system q_init q_step "\<lambda>q. aq_inv q \<and> refused_inv q"
proof unfold_locales
  show "aq_inv q \<and> refused_inv q" if "q_init q" for q
    using that queue_runs.init_inv [OF that] by (auto simp: q_init_def refused_inv_def live_handle_def New_def)
  show "aq_inv q' \<and> refused_inv q'" if "aq_inv q \<and> refused_inv q" "q_step q q'" for q q'
    using that queue_runs.step_inv refused_step by blast
qed

section \<open>What a client receives\<close>

lemma recv_outcome:
  assumes "q_reachable q" "live_handle q c" "unread q c" "recv c q = Some (st, q')"
  shows "c \<in> set (q_active q) \<and> st = ok_status \<or>
    (\<exists>i<length (q_queued q). q_queued q ! i = c \<and> \<not> st_Ok st \<and> \<not> st_Full st \<and> st_Index st = surplus q + int i \<and> unread q' c) \<or>
    c \<notin> set (q_active q) \<and> c \<notin> set (q_queued q) \<and> st = full_status"
proof -
  have inv: "aq_inv q" "refused_inv q" using refusals.reachable_inv [OF assms(1)] by auto
  obtain x where x: "q_chans q c = Some x" "ch_closed x \<longrightarrow> ch_buf x \<noteq> None" using assms(3) by (auto simp: unread_def)
  with assms(4) have st: "ch_buf x = Some st" "q' = q\<lparr>q_chans := (q_chans q)(c \<mapsto> x\<lparr>ch_buf := None\<rparr>)\<rparr>"
    by (auto simp: recv_def split: option.splits if_splits)
  consider "c \<in> set (q_active q)" | i where "i < length (q_queued q)" "q_queued q ! i = c" | "c \<notin> set (q_active q)" "c \<notin> set (q_queued q)"
    by (metis in_set_conv_nth)
  then show ?thesis
  proof cases
    case 1
    then have "\<exists>b. x = \<lparr>ch_buf = b, ch_closed = True\<rparr> \<and> b \<in> {None, Some ok_status}"
      using inv(1) x(1) by (fastforce simp: aq_inv_def aq_pre_def)
    with st 1 show ?thesis by auto
  next
    case 2
    then have "open_chan (q_chans q) c" using inv(1) nth_mem by (fastforce simp: aq_inv_def aq_pre_def)
    then have "\<not> ch_closed x" using x(1) by (auto simp: open_chan_def)
    moreover have "\<not> st_Ok st \<and> \<not> st_Full st \<and> st_Index st = surplus q + int i"
      using inv(1) 2 x(1) st(1) by (auto simp: aq_inv_def told_index_def)
    ultimately show ?thesis using 2 st(2) by (auto simp: unread_def)
  next
    case 3
    then have "\<exists>b. x = \<lparr>ch_buf = b, ch_closed = True\<rparr> \<and> b \<in> {None, Some full_status}"
      using inv(2) assms(2) x(1) by (fastforce simp: refused_inv_def)
    with st 3 show ?thesis by auto
  qed
qed

lemma recv_other: "recv d q = Some (st, q') \<Longrightarrow> d \<noteq> c \<Longrightarrow> q_chans q' c = q_chans q c"
  by (auto simp: recv_def split: option.splits if_splits)

lemma tells_unread: "tells q q' cs \<Longrightarrow> unread q c \<Longrightarrow> unread q' c"
  by (cases "c \<in> cs") (auto simp: tells_def unread_def)

end
