(* ===== verification/Relay.thy ===== *)
theory Relay
  imports Routing Watcher QueueClient
begin

text \<open>
  The relay of one connection (\<open>Server.handleConn\<close> and \<open>Server.relay\<close> in \<open>pkg/server/server.go\<close>) and
  the run of the whole server: any number of connections interleaved with each other and with
  reloads of the configuration.
  \<^item> A \<open>Conn\<close> is one goroutine: its program counter, the local variables of \<open>relay\<close>, its \<open>ConnInfo\<close>,
    the segments that arrived from the client and the upstream, the bytes written to them, and the
    stack of deferred calls, pushed and popped as Go does. Connections that ended stay in the list
    \<open>w_conns\<close>, with an empty stack.
  \<^item> A \<open>World\<close> is the \<open>Server\<close> with the fields that are atomics or \<open>sync.Map\<close>s, at their width.
  \<^item> Each function below is the code from one access to shared state to the next; what a write or a dial
    returns is an argument. An increment of a counter that only the metrics read may share a step with the
    access before it, except for the lifetime totals, which are added one by one. Log lines are left out.
\<close>

section \<open>State\<close>

record ConnInfo =
  ci_Index :: "32 word"
  ci_LocalAddr :: string
  ci_RemoteAddr :: string
  ci_ConnectedAt :: int
  ci_Module :: string
  ci_Upstream :: string
  ci_SentBytes :: "64 word"
  ci_ReceivedBytes :: "64 word"

datatype phase = AtStart | AtAccepted | AtIndex | AtRegister | AtVersion | AtModule | AtMotd | AtList | AtLookup | AtQueue | AtLimit |
  AtCount | AtOver | AtAcquire | AtStatus | AtWait | AtDial | AtUpstream | AtUpVersion | AtRelay | AtDrain |
  AtSentTotal | AtRecvTotal | AtModuleCounters | AtModuleCompleted | AtModuleSent | AtModuleRecv | AtReturn | Finished

type_synonym perIPCountKey = "string \<times> string"

text \<open>The deferred calls: \<open>activeConnCount.Add(-1)\<close>, \<open>downConn.Close\<close>, \<open>connInfo.Delete\<close>, \<open>counter.Add(-1)\<close>,
  \<open>handle.Release\<close> and \<open>upConn.Close\<close>.\<close>

datatype deferred = DActive | DDown | DConnInfo "32 word" | DPerIP perIPCountKey | DRelease nat handle_id | DUp

datatype relay_error = EReadVersion string | EUnknownVersion string | ESendVersion string | EReadModule string |
  EEmptyRequest | ESendMotd string | EList string | ENoQueue string | ENotice string | EDial string | EHeader string |
  EUpWriteVersion string | EUpReadVersion string | EUpUnknownVersion string | EUpMotd string | EUpModule string | EPanic

record Conn =
  k_pc :: phase
  k_remote :: Addr
  k_local :: Addr
  k_index :: "32 word"
  k_info :: ConnInfo
  k_in :: "segment list"
  k_out :: string
  k_version :: string
  k_request :: string
  k_module :: string
  k_target :: Target
  k_queue :: nat
  k_limit :: int
  k_handle :: handle_id
  k_status :: Status
  k_upAddr :: Addr
  k_upIn :: "segment list"
  k_upOut :: string
  k_timings :: relayTimings
  k_started :: int
  k_lastActivity :: int
  k_watch :: Watch
  k_killed :: bool
  k_sentClosed :: bool
  k_recvClosed :: bool
  k_downOpen :: bool
  k_upOpen :: bool
  k_err :: "relay_error option"
  k_defers :: "deferred list"

record upstreamCounters =
  ct_queueFull :: "64 word"
  ct_dialError :: "64 word"
  ct_perIPRejected :: "64 word"
  ct_idleTerminated :: "64 word"
  ct_maxDurationTerminated :: "64 word"
  ct_throughputFloorTerminated :: "64 word"

record moduleCounters =
  mc_completed :: "64 word"
  mc_sentBytes :: "64 word"
  mc_recvBytes :: "64 word"

record World =
  w_srv :: Server
  w_conns :: "Conn list"
  w_activeConnCount :: "64 word"
  w_connIndex :: "32 word"
  w_connInfo :: "(32 word, nat) gomap"
  w_acceptedConnCount :: "64 word"
  w_completedConnCount :: "64 word"
  w_sentBytesTotal :: "64 word"
  w_recvBytesTotal :: "64 word"
  w_upstreamCounters :: "(string, upstreamCounters) gomap"
  w_unknownModuleCount :: "64 word"
  w_moduleCounters :: "(string \<times> string, moduleCounters) gomap"
  w_perIPCounts :: "(perIPCountKey, 64 word) gomap"

definition NewWorld :: World where
  "NewWorld = \<lparr>w_srv = NewServer, w_conns = [], w_activeConnCount = 0, w_connIndex = 0, w_connInfo = [], w_acceptedConnCount = 0,
     w_completedConnCount = 0, w_sentBytesTotal = 0, w_recvBytesTotal = 0, w_upstreamCounters = [], w_unknownModuleCount = 0,
     w_moduleCounters = [], w_perIPCounts = []\<rparr>"

abbreviation conn :: "World \<Rightarrow> nat \<Rightarrow> Conn" where
  "conn w i \<equiv> w_conns w ! i"

abbreviation heap :: "World \<Rightarrow> Queue list" where
  "heap w \<equiv> s_queue_heap (w_srv w)"

definition put :: "nat \<Rightarrow> Conn \<Rightarrow> World \<Rightarrow> World" where
  "put i c w = w\<lparr>w_conns := (w_conns w)[i := c]\<rparr>"

definition put_queue :: "nat \<Rightarrow> Queue \<Rightarrow> World \<Rightarrow> World" where
  "put_queue p q w = w\<lparr>w_srv := (w_srv w)\<lparr>s_queue_heap := (heap w)[p := q]\<rparr>\<rparr>"

section \<open>Counters created on first use\<close>

text \<open>
  \<open>getUpstreamCounters\<close>, \<open>getModuleCounters\<close> and \<open>getPerIPCounter\<close> return a pointer into a \<open>sync.Map\<close>, which they fill on the first
  reference. Here the pointer is the key; the functions return the server with the entry, and the value behind the pointer is
  read with \<open>upstream_counters\<close>, \<open>module_counters\<close> and \<open>perIP_count\<close>.
\<close>

definition load_or_store :: "'k \<Rightarrow> 'v \<Rightarrow> ('k, 'v) gomap \<Rightarrow> ('k, 'v) gomap" where
  "load_or_store k v m = (case map_of m k of Some _ \<Rightarrow> m | None \<Rightarrow> AList.update k v m)"

definition zero_counters :: upstreamCounters where
  "zero_counters = \<lparr>ct_queueFull = 0, ct_dialError = 0, ct_perIPRejected = 0, ct_idleTerminated = 0, ct_maxDurationTerminated = 0,
     ct_throughputFloorTerminated = 0\<rparr>"

definition getUpstreamCounters :: "string \<Rightarrow> World \<Rightarrow> World" where
  "getUpstreamCounters name w = w\<lparr>w_upstreamCounters := load_or_store name zero_counters (w_upstreamCounters w)\<rparr>"

definition upstream_counters :: "string \<Rightarrow> World \<Rightarrow> upstreamCounters" where
  "upstream_counters name w = (case map_of (w_upstreamCounters w) name of None \<Rightarrow> zero_counters | Some v \<Rightarrow> v)"

definition add_upstream :: "string \<Rightarrow> (upstreamCounters \<Rightarrow> upstreamCounters) \<Rightarrow> World \<Rightarrow> World" where
  "add_upstream name f w0 =
     (let w = getUpstreamCounters name w0 in
      w\<lparr>w_upstreamCounters := AList.update name (f (upstream_counters name w)) (w_upstreamCounters w)\<rparr>)"

definition prometheusLabelValueOrUnknown :: "string \<Rightarrow> string" where
  "prometheusLabelValueOrUnknown v = (if v = '''' then ''unknown'' else v)"

definition module_key :: "string \<Rightarrow> string \<Rightarrow> string \<times> string" where
  "module_key m u = (prometheusLabelValueOrUnknown m, prometheusLabelValueOrUnknown u)"

definition zero_module :: moduleCounters where
  "zero_module = \<lparr>mc_completed = 0, mc_sentBytes = 0, mc_recvBytes = 0\<rparr>"

definition getModuleCounters :: "string \<Rightarrow> string \<Rightarrow> World \<Rightarrow> World" where
  "getModuleCounters m u w = w\<lparr>w_moduleCounters := load_or_store (module_key m u) zero_module (w_moduleCounters w)\<rparr>"

definition module_counters :: "string \<times> string \<Rightarrow> World \<Rightarrow> moduleCounters" where
  "module_counters key w = (case map_of (w_moduleCounters w) key of None \<Rightarrow> zero_module | Some v \<Rightarrow> v)"

definition add_module :: "string \<times> string \<Rightarrow> (moduleCounters \<Rightarrow> moduleCounters) \<Rightarrow> World \<Rightarrow> World" where
  "add_module key f w = w\<lparr>w_moduleCounters := AList.update key (f (module_counters key w)) (w_moduleCounters w)\<rparr>"

definition getPerIPCounter :: "perIPCountKey \<Rightarrow> World \<Rightarrow> World" where
  "getPerIPCounter key w = w\<lparr>w_perIPCounts := load_or_store key 0 (w_perIPCounts w)\<rparr>"

definition perIP_count :: "perIPCountKey \<Rightarrow> World \<Rightarrow> 64 word" where
  "perIP_count key w = (case map_of (w_perIPCounts w) key of None \<Rightarrow> 0 | Some n \<Rightarrow> n)"

definition add_perIP :: "perIPCountKey \<Rightarrow> 64 word \<Rightarrow> World \<Rightarrow> World" where
  "add_perIP key d w = w\<lparr>w_perIPCounts := AList.update key (perIP_count key w + d) (w_perIPCounts w)\<rparr>"

section \<open>Accepting a connection\<close>

definition Addr_String :: "Addr \<Rightarrow> string" where
  "Addr_String addr =
     (case addr of
        TCPAddr ip port \<Rightarrow> JoinHostPort (if ip = [] then '''' else IP_String ip) (Itoa port)
      | UnixAddr name \<Rightarrow> name
      | OtherAddr typ s \<Rightarrow> s)"

definition zero_info :: ConnInfo where
  "zero_info = \<lparr>ci_Index = 0, ci_LocalAddr = '''', ci_RemoteAddr = '''', ci_ConnectedAt = 0, ci_Module = '''', ci_Upstream = '''',
     ci_SentBytes = 0, ci_ReceivedBytes = 0\<rparr>"

definition fresh_conn :: "Addr \<Rightarrow> Addr \<Rightarrow> Conn" where
  "fresh_conn remote local = \<lparr>k_pc = AtStart, k_remote = remote, k_local = local, k_index = 0, k_info = zero_info, k_in = [],
     k_out = '''', k_version = '''', k_request = '''', k_module = '''', k_target = \<lparr>t_Upstream = '''', t_Addr = '''', t_UseProxyProtocol = False\<rparr>,
     k_queue = 0, k_limit = 0, k_handle = 0, k_status = zero_status, k_upAddr = OtherAddr '''' '''', k_upIn = [], k_upOut = '''',
     k_timings = \<lparr>rt_idle = 0, rt_maxDuration = 0, rt_tcpKeepAlive = 0, rt_minBytes = 0, rt_minWindow = 0, rt_minGrace = 0\<rparr>,
     k_started = 0, k_lastActivity = 0, k_watch = watch_start 0, k_killed = False, k_sentClosed = False, k_recvClosed = False, k_downOpen = True, k_upOpen = False,
     k_err = None, k_defers = []\<rparr>"

text \<open>\<open>Accept\<close> returns a connection and \<open>go s.handleConn\<close> creates its goroutine, which has not run yet.\<close>

definition accept_conn :: "Addr \<Rightarrow> Addr \<Rightarrow> World \<Rightarrow> World" where
  "accept_conn remote local w = w\<lparr>w_conns := w_conns w @ [fresh_conn remote local]\<rparr>"

text \<open>The part of \<open>handleConn\<close> before it calls \<open>relay\<close>, one atomic operation at a time: the goroutines of two connections may take
  their indices in either order.\<close>

definition handleConn :: "nat \<Rightarrow> World \<Rightarrow> World" where
  "handleConn i w =
     (let c = conn w i in
      case k_pc c of
        AtStart \<Rightarrow> put i (c\<lparr>k_defers := [DActive], k_pc := AtAccepted\<rparr>) (w\<lparr>w_activeConnCount := w_activeConnCount w + 1\<rparr>)
      | AtAccepted \<Rightarrow> put i (c\<lparr>k_pc := AtIndex\<rparr>) (w\<lparr>w_acceptedConnCount := w_acceptedConnCount w + 1\<rparr>)
      | AtIndex \<Rightarrow> put i (c\<lparr>k_index := w_connIndex w + 1, k_pc := AtRegister\<rparr>) (w\<lparr>w_connIndex := w_connIndex w + 1\<rparr>)
      | _ \<Rightarrow> w)"

text \<open>\<open>now\<close> is \<open>time.Now().Truncate(time.Second)\<close>.\<close>

definition relay_register :: "int \<Rightarrow> nat \<Rightarrow> World \<Rightarrow> World" where
  "relay_register now i w =
     (let c = conn w i;
          info = zero_info\<lparr>ci_Index := k_index c, ci_LocalAddr := Addr_String (k_local c),
            ci_RemoteAddr := Addr_String (k_remote c), ci_ConnectedAt := now\<rparr> in
      put i (c\<lparr>k_info := info, k_defers := DConnInfo (k_index c) # DDown # k_defers c, k_pc := AtVersion\<rparr>)
        (w\<lparr>w_connInfo := AList.update (k_index c) i (w_connInfo w)\<rparr>))"

section \<open>The dialogue with the client\<close>

definition returns :: "relay_error option \<Rightarrow> Conn \<Rightarrow> Conn" where
  "returns err c = c\<lparr>k_err := err, k_pc := AtReturn\<rparr>"

definition relay_version :: "string option \<Rightarrow> Conn \<Rightarrow> Conn" where
  "relay_version wr c =
     (case readLine ReadBufferSize [] (k_in c) of
        None \<Rightarrow> c
      | Some (data, Some e, left) \<Rightarrow> returns (Some (EReadVersion e)) (c\<lparr>k_in := left\<rparr>)
      | Some (data, None, left) \<Rightarrow>
          (let c1 = c\<lparr>k_in := left\<rparr> in
           if \<not> HasPrefix data RsyncdVersionPrefix then returns (Some (EUnknownVersion data)) c1
           else case wr of
             Some e \<Rightarrow> returns (Some (ESendVersion e)) c1
           | None \<Rightarrow> c1\<lparr>k_version := data, k_out := k_out c @ RsyncdServerVersion, k_pc := AtModule\<rparr>))"

text \<open>The request of the client; then the message of the day, if there is one at that moment; then the module list or the module.\<close>

definition relay_module :: "Conn \<Rightarrow> Conn" where
  "relay_module c =
     (case readLine ReadBufferSize [] (k_in c) of
        None \<Rightarrow> c
      | Some (data, Some e, left) \<Rightarrow> returns (Some (EReadModule e)) (c\<lparr>k_in := left\<rparr>)
      | Some (data, None, left) \<Rightarrow>
          (let c1 = c\<lparr>k_in := left\<rparr> in
           if data = [] then returns (Some EEmptyRequest) c1
           else c1\<lparr>k_request := data, k_pc := AtMotd\<rparr>))"

definition relay_motd :: "Server \<Rightarrow> string option \<Rightarrow> Conn \<Rightarrow> Conn" where
  "relay_motd s wr c =
     (case (if s_Motd s \<noteq> '''' then wr else None) of
        Some e \<Rightarrow> returns (Some (ESendMotd e)) c
      | None \<Rightarrow>
          (let c1 = (if s_Motd s \<noteq> '''' then c\<lparr>k_out := k_out c @ s_Motd s @ [lineFeed]\<rparr> else c) in
           if length (k_request c) = 1 then c1\<lparr>k_pc := AtList\<rparr>
           else
             (let moduleName = take (length (k_request c) - 1) (k_request c) in
              c1\<lparr>k_module := moduleName, k_info := (k_info c1)\<lparr>ci_Module := moduleName\<rparr>, k_pc := AtLookup\<rparr>)))"

definition relay_list :: "Server \<Rightarrow> string option \<Rightarrow> Conn \<Rightarrow> Conn" where
  "relay_list s wr c =
     (case wr of
        Some e \<Rightarrow> returns (Some (EList e)) c
      | None \<Rightarrow> returns None (c\<lparr>k_out := k_out c @ listAllModules s\<rparr>))"

definition client_ip :: "Conn \<Rightarrow> string" where
  "client_ip c = netAddrToString (k_remote c)"

definition writes :: "string option \<Rightarrow> string \<Rightarrow> Conn \<Rightarrow> Conn" where
  "writes wr s c = (case wr of None \<Rightarrow> c\<lparr>k_out := k_out c @ s\<rparr> | Some e \<Rightarrow> c)"

text \<open>The target is chosen by the address of the client; a bad index would be a run-time panic, which \<open>handleConn\<close> recovers.\<close>

definition relay_lookup :: "string option \<Rightarrow> nat \<Rightarrow> World \<Rightarrow> World" where
  "relay_lookup wr i w =
     (let c = conn w i in
      case getTargetsForModule (w_srv w) (k_module c) of
        None \<Rightarrow>
          put i (returns None (writes wr (''@ERROR: Unknown module '' @ [CHR 0x27] @ k_module c @ [CHR 0x27, lineFeed]) c))
            (w\<lparr>w_unknownModuleCount := w_unknownModuleCount w + 1\<rparr>)
      | Some targets \<Rightarrow>
          (case chooseTargetByClientIP (ParseIP (client_ip c)) (length targets) of
             None \<Rightarrow> put i (returns (Some EPanic) c) w
           | Some n \<Rightarrow>
               if n \<ge> length targets then put i (returns (Some EPanic) c) w
               else put i (c\<lparr>k_target := targets ! n, k_info := (k_info c)\<lparr>ci_Upstream := t_Upstream (targets ! n)\<rparr>, k_pc := AtQueue\<rparr>) w))"

definition relay_queue :: "Server \<Rightarrow> Conn \<Rightarrow> Conn" where
  "relay_queue s c =
     (case getQueueForUpstream s (t_Upstream (k_target c)) of
        None \<Rightarrow> returns (Some (ENoQueue (t_Upstream (k_target c)))) c
      | Some p \<Rightarrow> c\<lparr>k_queue := p, k_pc := AtLimit\<rparr>)"

section \<open>The per-IP limit\<close>

definition relay_limit :: "Server \<Rightarrow> Conn \<Rightarrow> Conn" where
  "relay_limit s c =
     (let perIPLimit = getPerIPLimitForUpstream s (t_Upstream (k_target c)) in
      c\<lparr>k_limit := perIPLimit, k_pc := (if perIPLimit > 0 then AtCount else AtAcquire)\<rparr>)"

definition key_of :: "Conn \<Rightarrow> perIPCountKey" where
  "key_of c = (t_Upstream (k_target c), client_ip c)"

text \<open>\<open>counter.Add(1)\<close>; the decrement is deferred only when the new value is within the limit.\<close>

definition relay_count :: "nat \<Rightarrow> World \<Rightarrow> World" where
  "relay_count i w =
     (let c = conn w i; w1 = add_perIP (key_of c) 1 (getPerIPCounter (key_of c) w); n = perIP_count (key_of c) w1 in
      if sint n > k_limit c then put i (c\<lparr>k_pc := AtOver\<rparr>) w1
      else put i (c\<lparr>k_defers := DPerIP (key_of c) # k_defers c, k_pc := AtAcquire\<rparr>) w1)"

definition relay_over :: "string option \<Rightarrow> nat \<Rightarrow> World \<Rightarrow> World" where
  "relay_over wr i w =
     (let c = conn w i; u = t_Upstream (k_target c) in
      put i (returns None (writes wr (''@ERROR: per-IP connection limit of '' @ Itoa (k_limit c) @ '' for upstream '' @ u @
          '' reached, retry later'' @ [lineFeed]) c))
        (add_upstream u (\<lambda>m. m\<lparr>ct_perIPRejected := ct_perIPRejected m + 1\<rparr>) (add_perIP (key_of c) (-1) w)))"

section \<open>The queue\<close>

definition relay_acquire :: "nat \<Rightarrow> World \<Rightarrow> World" where
  "relay_acquire i w =
     (let c = conn w i in
      case Acquire (heap w ! k_queue c) of
        Inl e \<Rightarrow> put i (returns (Some EPanic) c) w
      | Inr (h, q) \<Rightarrow>
          put i (c\<lparr>k_handle := h, k_defers := DRelease (k_queue c) h # k_defers c, k_pc := AtStatus\<rparr>) (put_queue (k_queue c) q w))"

definition position_msg :: "Status \<Rightarrow> string" where
  "position_msg st = ''Your position: '' @ Itoa (st_Index st + 1) @ '', Total queued: '' @ Itoa (st_Max st) @ [lineFeed]"

definition queueing_msg :: "string \<Rightarrow> int \<Rightarrow> string" where
  "queueing_msg u mx = ''Upstream '' @ u @ '' has reached the maximum number of '' @ Itoa mx @
     '' connections. Your request is being queued.'' @ [lineFeed]"

text \<open>The first status; \<open>wr'\<close> is the outcome of the second write of a refusal.\<close>

definition relay_status :: "string option \<Rightarrow> string option \<Rightarrow> nat \<Rightarrow> World \<Rightarrow> World" where
  "relay_status wr wr' i w =
     (let c = conn w i; p = k_queue c in
      case recv (k_handle c) (heap w ! p) of
        None \<Rightarrow> w
      | Some (st, q) \<Rightarrow>
          (let c1 = c\<lparr>k_status := st\<rparr>; w1 = put_queue p q w; u = t_Upstream (k_target c) in
           if st_Full st then
             put i (returns None (writes wr' RsyncdExit (writes wr
                 (''Server queue is full for this upstream. Please retry later.'' @ [lineFeed]) c1)))
               (add_upstream u (\<lambda>m. m\<lparr>ct_queueFull := ct_queueFull m + 1\<rparr>) w1)
           else if \<not> st_Ok st then
             (case wr of
                Some e \<Rightarrow> put i (returns (Some (ENotice e)) c1) w1
              | None \<Rightarrow> put i (c1\<lparr>k_out := k_out c1 @ queueing_msg u (GetMax q) @ position_msg st, k_pc := AtWait\<rparr>) w1)
           else put i (c1\<lparr>k_pc := AtDial\<rparr>) w1))"

text \<open>The loop while queueing: a status arrives, or a minute passes.\<close>

definition relay_wait :: "string option \<Rightarrow> nat \<Rightarrow> World \<Rightarrow> World" where
  "relay_wait wr i w =
     (let c = conn w i; p = k_queue c in
      case recv (k_handle c) (heap w ! p) of
        None \<Rightarrow> w
      | Some (st, q) \<Rightarrow>
          (let c1 = c\<lparr>k_status := st\<rparr>; w1 = put_queue p q w in
           if st_Ok st then put i (c1\<lparr>k_pc := AtDial\<rparr>) w1
           else (case wr of
                   Some e \<Rightarrow> put i (returns (Some (ENotice e)) c1) w1
                 | None \<Rightarrow> put i (c1\<lparr>k_out := k_out c1 @ position_msg st\<rparr>) w1)))"

definition relay_remind :: "string option \<Rightarrow> Conn \<Rightarrow> Conn" where
  "relay_remind wr c =
     (case wr of Some e \<Rightarrow> returns (Some (ENotice e)) c | None \<Rightarrow> c\<lparr>k_out := k_out c @ position_msg (k_status c)\<rparr>)"

section \<open>The dialogue with the upstream\<close>

definition relay_dial :: "string + Addr \<Rightarrow> nat \<Rightarrow> World \<Rightarrow> World" where
  "relay_dial r i w =
     (let c = conn w i in
      case r of
        Inl e \<Rightarrow> put i (returns (Some (EDial e)) c)
          (add_upstream (t_Upstream (k_target c)) (\<lambda>m. m\<lparr>ct_dialError := ct_dialError m + 1\<rparr>) w)
      | Inr addr \<Rightarrow> put i (c\<lparr>k_upAddr := addr, k_upOpen := True, k_defers := DUp # k_defers c, k_pc := AtUpstream\<rparr>) w)"

text \<open>The optional PROXY header, then the version line of the client.\<close>

definition relay_upstream :: "string option \<Rightarrow> string option \<Rightarrow> Conn \<Rightarrow> Conn" where
  "relay_upstream wr wr' c =
     (case (if t_UseProxyProtocol (k_target c) then
              (case generateProxyProtocolHeader (k_remote c) (k_upAddr c) of
                 Inl e \<Rightarrow> Inl e
               | Inr h \<Rightarrow> (case wr of Some e \<Rightarrow> Inl e | None \<Rightarrow> Inr h))
            else Inr '''') of
        Inl e \<Rightarrow> returns (Some (EHeader e)) c
      | Inr h \<Rightarrow>
          (case wr' of
             Some e \<Rightarrow> returns (Some (EUpWriteVersion e)) (c\<lparr>k_upOut := k_upOut c @ h\<rparr>)
           | None \<Rightarrow> c\<lparr>k_upOut := k_upOut c @ h @ k_version c, k_pc := AtUpVersion\<rparr>))"

text \<open>
  The upstream's version line; what follows its first line feed is a message of the day for the
  client. An index of \<open>-1\<close> (no line feed) makes \<open>data[idx+1:]\<close> the whole answer.
\<close>

definition relay_up_version :: "Server \<Rightarrow> int \<Rightarrow> string option \<Rightarrow> string option \<Rightarrow> Conn \<Rightarrow> Conn" where
  "relay_up_version s now wr wr' c =
     (case readLine ReadBufferSize [] (k_upIn c) of
        None \<Rightarrow> c
      | Some (data, Some e, left) \<Rightarrow> returns (Some (EUpReadVersion e)) (c\<lparr>k_upIn := left\<rparr>)
      | Some (data, None, left) \<Rightarrow>
          (let c1 = c\<lparr>k_upIn := left\<rparr> in
           if \<not> HasPrefix data RsyncdVersionPrefix then returns (Some (EUpUnknownVersion data)) c1
           else
             (let motd = (case IndexByte data lineFeed of None \<Rightarrow> data | Some idx \<Rightarrow> drop (idx + 1) data) in
              case (if motd \<noteq> [] then wr else None) of
                Some e \<Rightarrow> returns (Some (EUpMotd e)) c1
              | None \<Rightarrow>
                  (let c2 = c1\<lparr>k_out := k_out c1 @ motd\<rparr> in
                   case wr' of
                     Some e \<Rightarrow> returns (Some (EUpModule e)) c2
                   | None \<Rightarrow> c2\<lparr>k_upOut := k_upOut c2 @ k_module c2 @ [lineFeed], k_timings := getRelayTimings s, k_started := now,
                       k_lastActivity := now, k_watch := watch_start now, k_pc := AtRelay\<rparr>))))"

section \<open>Relaying\<close>

text \<open>
  A read of \<open>io.Copy\<close> through the \<open>countingReader\<close>, towards the upstream or towards the client, and the
  write of what it read. A write that fails (\<open>Some n\<close>: after \<open>n\<close> bytes) ends the copy, with all bytes of the read counted.
\<close>

definition relay_copy :: "bool \<Rightarrow> string \<Rightarrow> nat option \<Rightarrow> int \<Rightarrow> Conn \<Rightarrow> Conn" where
  "relay_copy up data wr now c =
     (let n = word_of_nat (length data);
          written = (case wr of None \<Rightarrow> data | Some k \<Rightarrow> take k data);
          failed = (wr \<noteq> None);
          c1 = (if up then c\<lparr>k_info := (k_info c)\<lparr>ci_ReceivedBytes := ci_ReceivedBytes (k_info c) + n\<rparr>,
                  k_upOut := k_upOut c @ written, k_sentClosed := failed\<rparr>
                else c\<lparr>k_info := (k_info c)\<lparr>ci_SentBytes := ci_SentBytes (k_info c) + n\<rparr>,
                  k_out := k_out c @ written, k_recvClosed := failed\<rparr>) in
      if data \<noteq> [] \<and> rt_idle (k_timings c) > 0 then c1\<lparr>k_lastActivity := now\<rparr> else c1)"

text \<open>The read returned the end of the input or an error: the copy ends.\<close>

definition relay_copy_end :: "bool \<Rightarrow> Conn \<Rightarrow> Conn" where
  "relay_copy_end up c = (if up then c\<lparr>k_sentClosed := True\<rparr> else c\<lparr>k_recvClosed := True\<rparr>)"

text \<open>
  Whether the copy can still read: its goroutine has not ended and the connection it reads is open.
  The copy towards the upstream reads the client, the other one the upstream.
\<close>

definition reading :: "bool \<Rightarrow> Conn \<Rightarrow> bool" where
  "reading up c \<longleftrightarrow> (if up then \<not> k_sentClosed c \<and> k_downOpen c else \<not> k_recvClosed c \<and> k_upOpen c)"

text \<open>
  The \<open>select\<close> after the copies were started: when the copy from the upstream has ended, the client is
  closed, otherwise the upstream is, so that the other copy ends too. (\<open>closeRead\<close> acts on the connection that
  was read to its end.) With both ended either branch can be taken.
\<close>

definition relay_select :: "bool \<Rightarrow> Conn \<Rightarrow> Conn" where
  "relay_select received c =
     (if received then c\<lparr>k_downOpen := False, k_pc := AtDrain\<rparr> else c\<lparr>k_upOpen := False, k_pc := AtDrain\<rparr>)"

definition count_kill :: "reason \<Rightarrow> upstreamCounters \<Rightarrow> upstreamCounters" where
  "count_kill r m =
     (case r of
        IdleTimeout \<Rightarrow> m\<lparr>ct_idleTerminated := ct_idleTerminated m + 1\<rparr>
      | MaxDuration \<Rightarrow> m\<lparr>ct_maxDurationTerminated := ct_maxDurationTerminated m + 1\<rparr>
      | ThroughputFloor \<Rightarrow> m\<lparr>ct_throughputFloorTerminated := ct_throughputFloorTerminated m + 1\<rparr>)"

definition relay_tick :: "int \<Rightarrow> nat \<Rightarrow> World \<Rightarrow> World" where
  "relay_tick now i w =
     (let c = conn w i;
          k = \<lparr>tk_now = now, tk_lastActivity = k_lastActivity c,
               tk_bytes = ci_SentBytes (k_info c) + ci_ReceivedBytes (k_info c)\<rparr> in
      case watch_tick (k_timings c) (k_started c) k (k_watch c) of
        Continue wt \<Rightarrow> put i (c\<lparr>k_watch := wt\<rparr>) w
      | Kill r \<Rightarrow> put i (c\<lparr>k_killed := True, k_upOpen := False, k_downOpen := False\<rparr>)
          (add_upstream (t_Upstream (k_target c)) (count_kill r) w))"

text \<open>
  Both copies have ended: the totals, one atomic addition at a time, then the return. (The byte counts of the connection do not
  change any more.)
\<close>

definition module_of :: "Conn \<Rightarrow> string \<times> string" where
  "module_of c = module_key (k_module c) (t_Upstream (k_target c))"

definition relay_finish :: "nat \<Rightarrow> World \<Rightarrow> World" where
  "relay_finish i w =
     (let c = conn w i; sent = ci_SentBytes (k_info c); received = ci_ReceivedBytes (k_info c) in
      case k_pc c of
        AtDrain \<Rightarrow> put i (c\<lparr>k_pc := AtSentTotal\<rparr>) (w\<lparr>w_completedConnCount := w_completedConnCount w + 1\<rparr>)
      | AtSentTotal \<Rightarrow> put i (c\<lparr>k_pc := AtRecvTotal\<rparr>) (w\<lparr>w_sentBytesTotal := w_sentBytesTotal w + sent\<rparr>)
      | AtRecvTotal \<Rightarrow> put i (c\<lparr>k_pc := AtModuleCounters\<rparr>) (w\<lparr>w_recvBytesTotal := w_recvBytesTotal w + received\<rparr>)
      | AtModuleCounters \<Rightarrow>
          put i (c\<lparr>k_pc := AtModuleCompleted\<rparr>) (getModuleCounters (k_module c) (t_Upstream (k_target c)) w)
      | AtModuleCompleted \<Rightarrow>
          put i (c\<lparr>k_pc := AtModuleSent\<rparr>) (add_module (module_of c) (\<lambda>m. m\<lparr>mc_completed := mc_completed m + 1\<rparr>) w)
      | AtModuleSent \<Rightarrow>
          put i (c\<lparr>k_pc := AtModuleRecv\<rparr>) (add_module (module_of c) (\<lambda>m. m\<lparr>mc_sentBytes := mc_sentBytes m + sent\<rparr>) w)
      | AtModuleRecv \<Rightarrow>
          put i (returns None c) (add_module (module_of c) (\<lambda>m. m\<lparr>mc_recvBytes := mc_recvBytes m + received\<rparr>) w)
      | _ \<Rightarrow> w)"

section \<open>Returning\<close>

text \<open>One deferred call, last in first out. \<open>None\<close> would be a panic inside \<open>Release\<close>.\<close>

definition run_deferred :: "deferred \<Rightarrow> nat \<Rightarrow> World \<Rightarrow> World option" where
  "run_deferred d i w =
     (case d of
        DActive \<Rightarrow> Some (w\<lparr>w_activeConnCount := w_activeConnCount w - 1\<rparr>)
      | DDown \<Rightarrow> Some (put i ((conn w i)\<lparr>k_downOpen := False\<rparr>) w)
      | DConnInfo idx \<Rightarrow> Some (w\<lparr>w_connInfo := AList.delete idx (w_connInfo w)\<rparr>)
      | DPerIP key \<Rightarrow> Some (add_perIP key (-1) w)
      | DRelease p h \<Rightarrow> (case release h (heap w ! p) of Inl e \<Rightarrow> None | Inr q \<Rightarrow> Some (put_queue p q w))
      | DUp \<Rightarrow> Some (put i ((conn w i)\<lparr>k_upOpen := False\<rparr>) w))"

definition unwind :: "nat \<Rightarrow> World \<Rightarrow> World option" where
  "unwind i w =
     (case k_defers (conn w i) of
        [] \<Rightarrow> None
      | d # ds \<Rightarrow> map_option (\<lambda>w1. put i ((conn w1 i)\<lparr>k_defers := ds, k_pc := (if ds = [] then Finished else AtReturn)\<rparr>) w1)
          (run_deferred d i w))"

section \<open>Runs of the server\<close>

definition at :: "World \<Rightarrow> nat \<Rightarrow> phase \<Rightarrow> bool" where
  "at w i p \<longleftrightarrow> i < length (w_conns w) \<and> k_pc (conn w i) = p"

text \<open>The two copies run while the relay waits for them. The watcher runs in a goroutine of its own and may still wake up later.\<close>

definition relaying :: "World \<Rightarrow> nat \<Rightarrow> bool" where
  "relaying w i \<longleftrightarrow> at w i AtRelay \<or> at w i AtDrain"

definition starting :: "phase \<Rightarrow> bool" where
  "starting p \<longleftrightarrow> p \<in> {AtStart, AtAccepted, AtIndex}"

definition totalling :: "phase \<Rightarrow> bool" where
  "totalling p \<longleftrightarrow> p \<in> {AtSentTotal, AtRecvTotal, AtModuleCounters, AtModuleCompleted, AtModuleSent, AtModuleRecv}"

text \<open>\<open>scrape\<close> is a metrics request that comes to an upstream: it creates the counters it is about to read.\<close>

inductive relay_step :: "World \<Rightarrow> World \<Rightarrow> bool" where
  accept: "relay_step w (accept_conn remote local w)"
| handle: "at w i p \<Longrightarrow> starting p \<Longrightarrow> relay_step w (handleConn i w)"
| arrive: "i < length (w_conns w) \<Longrightarrow> relay_step w (put i ((conn w i)\<lparr>k_in := k_in (conn w i) @ [seg]\<rparr>) w)"
| arrive_up: "i < length (w_conns w) \<Longrightarrow> relay_step w (put i ((conn w i)\<lparr>k_upIn := k_upIn (conn w i) @ [seg]\<rparr>) w)"
| register: "at w i AtRegister \<Longrightarrow> relay_step w (relay_register now i w)"
| version: "at w i AtVersion \<Longrightarrow> relay_step w (put i (relay_version wr (conn w i)) w)"
| module: "at w i AtModule \<Longrightarrow> relay_step w (put i (relay_module (conn w i)) w)"
| motd: "at w i AtMotd \<Longrightarrow> relay_step w (put i (relay_motd (w_srv w) wr (conn w i)) w)"
| list: "at w i AtList \<Longrightarrow> relay_step w (put i (relay_list (w_srv w) wr (conn w i)) w)"
| lookup: "at w i AtLookup \<Longrightarrow> relay_step w (relay_lookup wr i w)"
| queue: "at w i AtQueue \<Longrightarrow> relay_step w (put i (relay_queue (w_srv w) (conn w i)) w)"
| limit: "at w i AtLimit \<Longrightarrow> relay_step w (put i (relay_limit (w_srv w) (conn w i)) w)"
| count: "at w i AtCount \<Longrightarrow> relay_step w (relay_count i w)"
| over: "at w i AtOver \<Longrightarrow> relay_step w (relay_over wr i w)"
| acquire: "at w i AtAcquire \<Longrightarrow> relay_step w (relay_acquire i w)"
| status: "at w i AtStatus \<Longrightarrow> relay_step w (relay_status wr wr' i w)"
| wait: "at w i AtWait \<Longrightarrow> relay_step w (relay_wait wr i w)"
| remind: "at w i AtWait \<Longrightarrow> relay_step w (put i (relay_remind wr (conn w i)) w)"
| dial: "at w i AtDial \<Longrightarrow> relay_step w (relay_dial r i w)"
| upstream: "at w i AtUpstream \<Longrightarrow> relay_step w (put i (relay_upstream wr wr' (conn w i)) w)"
| up_version: "at w i AtUpVersion \<Longrightarrow> relay_step w (put i (relay_up_version (w_srv w) now wr wr' (conn w i)) w)"
| copy: "relaying w i \<Longrightarrow> reading up (conn w i) \<Longrightarrow> relay_step w (put i (relay_copy up data wr now (conn w i)) w)"
| copy_end: "relaying w i \<Longrightarrow> relay_step w (put i (relay_copy_end up (conn w i)) w)"
| tick: "i < length (w_conns w) \<Longrightarrow> \<not> k_killed (conn w i) \<Longrightarrow> watcherEnabled (k_timings (conn w i)) \<Longrightarrow> relay_step w (relay_tick now i w)"
| select: "at w i AtRelay \<Longrightarrow> (if received then k_recvClosed (conn w i) else k_sentClosed (conn w i)) \<Longrightarrow>
    relay_step w (put i (relay_select received (conn w i)) w)"
| finish: "at w i AtDrain \<Longrightarrow> k_sentClosed (conn w i) \<Longrightarrow> k_recvClosed (conn w i) \<Longrightarrow> relay_step w (relay_finish i w)"
| total: "at w i p \<Longrightarrow> totalling p \<Longrightarrow> relay_step w (relay_finish i w)"
| unwind: "at w i AtReturn \<Longrightarrow> unwind i w = Some w' \<Longrightarrow> relay_step w w'"
| scrape: "relay_step w (getUpstreamCounters name w)"
| reload: "gm_wf (c_Upstreams c) \<Longrightarrow> loadConfig env c openLog (w_srv w) = Inr (s', e) \<Longrightarrow> relay_step w (w\<lparr>w_srv := s'\<rparr>)"

definition world_init :: "World \<Rightarrow> bool" where
  "world_init w \<longleftrightarrow> w = NewWorld"

abbreviation world_reachable :: "World \<Rightarrow> bool" where
  "world_reachable \<equiv> reachable_from world_init relay_step"

end
