(* ===== verification/RelaySafety.thy ===== *)
theory RelaySafety
  imports Relay "HOL-Library.Sublist"
begin

text \<open>
  The invariant of the running server and what follows from it. Every counter of the server equals the
  number of deferred calls that will undo it: the active count, the per-IP counters, the handles of the
  admission queues and the table of connection infos. The invariant is kept by every step of every
  connection and by every reload, so nothing leaks on any path through \<open>relay\<close>, errors included.
\<close>

section \<open>Counting deferred calls\<close>

definition tally :: "(Conn \<Rightarrow> nat) \<Rightarrow> World \<Rightarrow> nat" where
  "tally f w = sum_list (map f (w_conns w))"

lemma tally_put:
  assumes "i < length (w_conns w)"
  shows "tally f (put i c w) + f (conn w i) = tally f w + f c"
proof -
  have "f (conn w i) \<le> sum_list (map f (w_conns w))" using assms by (simp add: member_le_sum_list)
  then show ?thesis using assms by (simp add: tally_def put_def map_update sum_list_update)
qed

lemma tally_same: "w_conns w' = w_conns w \<Longrightarrow> tally f w' = tally f w"
  by (simp add: tally_def)

lemma tally_put_same: "i < length (w_conns w) \<Longrightarrow> f c = f (conn w i) \<Longrightarrow> tally f (put i c w) = tally f w"
  using tally_put [of i w f c] by simp

lemma tally_positive: "i < length (w_conns w) \<Longrightarrow> 0 < f (conn w i) \<Longrightarrow> 0 < tally f w"
  using member_le_sum_list [of "f (conn w i)" "map f (w_conns w)"] by (simp add: tally_def)

definition defers :: "deferred \<Rightarrow> Conn \<Rightarrow> nat" where
  "defers d c = count_list (k_defers c) d"

text \<open>A connection over the limit has incremented the counter and is about to decrement it.\<close>

definition holds :: "perIPCountKey \<Rightarrow> Conn \<Rightarrow> nat" where
  "holds key c = defers (DPerIP key) c + (if k_pc c = AtOver \<and> key_of c = key then 1 else 0)"

section \<open>The invariant\<close>

definition base_stack :: "Conn \<Rightarrow> deferred list" where
  "base_stack c = [DConnInfo (k_index c), DDown, DActive]"

definition capped_stack :: "Conn \<Rightarrow> deferred list" where
  "capped_stack c = (if k_limit c > 0 then [DPerIP (key_of c)] else []) @ base_stack c"

definition held_stack :: "Conn \<Rightarrow> deferred list" where
  "held_stack c = DRelease (k_queue c) (k_handle c) # capped_stack c"

definition admitted :: "Queue list \<Rightarrow> Conn \<Rightarrow> bool" where
  "admitted H c \<longleftrightarrow> k_queue c < length H \<and> k_handle c \<in> set (q_active (H ! k_queue c))"

definition listed :: "Queue \<Rightarrow> handle_id \<Rightarrow> bool" where
  "listed q h \<longleftrightarrow> h \<in> set (q_active q @ q_queued q)"

definition base_phases :: "phase set" where
  "base_phases = {AtVersion, AtModule, AtMotd, AtList, AtLookup, AtQueue, AtOver}"

definition stack_ok :: "Queue list \<Rightarrow> Conn \<Rightarrow> bool" where
  "stack_ok H c \<longleftrightarrow> (if k_pc c \<in> base_phases then k_defers c = base_stack c else k_defers c = DUp # held_stack c \<and> admitted H c)"

definition conn_ok :: "Queue list \<Rightarrow> Conn \<Rightarrow> bool" where
  "conn_ok H c \<longleftrightarrow>
     (case k_pc c of
        AtStart \<Rightarrow> k_defers c = []
      | AtAccepted \<Rightarrow> k_defers c = [DActive]
      | AtIndex \<Rightarrow> k_defers c = [DActive]
      | AtRegister \<Rightarrow> k_defers c = [DActive]
      | Finished \<Rightarrow> k_defers c = []
      | AtReturn \<Rightarrow> k_defers c \<noteq> [] \<and> suffix (k_defers c) (DUp # held_stack c)
      | AtLimit \<Rightarrow> k_defers c = base_stack c \<and> k_queue c < length H
      | AtCount \<Rightarrow> k_defers c = base_stack c \<and> k_queue c < length H \<and> k_limit c > 0
      | AtAcquire \<Rightarrow> k_defers c = capped_stack c \<and> k_queue c < length H
      | AtStatus \<Rightarrow> k_defers c = held_stack c \<and> k_queue c < length H \<and> unread (H ! k_queue c) (k_handle c)
      | AtWait \<Rightarrow> k_defers c = held_stack c \<and> k_queue c < length H \<and> unread (H ! k_queue c) (k_handle c) \<and>
          listed (H ! k_queue c) (k_handle c)
      | AtDial \<Rightarrow> k_defers c = held_stack c \<and> admitted H c
      | _ \<Rightarrow> stack_ok H c)"

text \<open>The connections that have taken an index, and the order in which they took it.\<close>

definition indexed :: "Conn \<Rightarrow> bool" where
  "indexed c \<longleftrightarrow> \<not> starting (k_pc c)"

definition ticketed :: "World \<Rightarrow> nat set" where
  "ticketed w = {i. i < length (w_conns w) \<and> indexed (conn w i)}"

definition index_ok :: "World \<Rightarrow> bool" where
  "index_ok w \<longleftrightarrow> w_connIndex w = word_of_nat (card (ticketed w)) \<and>
     (\<exists>rank. inj_on rank (ticketed w) \<and>
        (\<forall>i\<in>ticketed w. rank i < card (ticketed w) \<and> k_index (conn w i) = word_of_nat (Suc (rank i))))"

definition info_ok :: "World \<Rightarrow> bool" where
  "info_ok w \<longleftrightarrow> (length (w_conns w) < 2 ^ 32 \<longrightarrow>
     (\<forall>idx i. map_of (w_connInfo w) idx = Some i \<longleftrightarrow>
        i < length (w_conns w) \<and> idx = k_index (conn w i) \<and> DConnInfo idx \<in> set (k_defers (conn w i))))"

definition handles_ok :: "World \<Rightarrow> bool" where
  "handles_ok w \<longleftrightarrow> (\<forall>p h. tally (defers (DRelease p h)) w = (if p < length (heap w) \<and> live_handle (heap w ! p) h then 1 else 0))"

definition perIP_ok :: "World \<Rightarrow> bool" where
  "perIP_ok w \<longleftrightarrow> (\<forall>key. perIP_count key w = word_of_nat (tally (holds key) w))"

definition conns_ok :: "World \<Rightarrow> bool" where
  "conns_ok w \<longleftrightarrow> (\<forall>i<length (w_conns w). conn_ok (heap w) (conn w i))"

definition world_inv :: "World \<Rightarrow> bool" where
  "world_inv w \<longleftrightarrow> srv_inv (w_srv w) \<and> conns_ok w \<and> index_ok w \<and>
     w_activeConnCount w = word_of_nat (tally (defers DActive) w) \<and> perIP_ok w \<and> handles_ok w \<and> info_ok w"

text \<open>The parts of the server that the invariant reads.\<close>

definition same_shared :: "World \<Rightarrow> World \<Rightarrow> bool" where
  "same_shared w w' \<longleftrightarrow> w_srv w' = w_srv w \<and> w_conns w' = w_conns w \<and> w_connIndex w' = w_connIndex w \<and>
     w_activeConnCount w' = w_activeConnCount w \<and> w_perIPCounts w' = w_perIPCounts w \<and> w_connInfo w' = w_connInfo w"

lemma put_simps [simp]:
  "w_srv (put i c w) = w_srv w" "w_connIndex (put i c w) = w_connIndex w" "w_activeConnCount (put i c w) = w_activeConnCount w"
  "w_perIPCounts (put i c w) = w_perIPCounts w" "w_connInfo (put i c w) = w_connInfo w" "length (w_conns (put i c w)) = length (w_conns w)"
  by (simp_all add: put_def)

lemma conn_put: "i < length (w_conns w) \<Longrightarrow> conn (put i c w) j = (if j = i then c else conn w j)"
  by (simp add: put_def nth_list_update)

lemma put_queue_simps [simp]:
  "w_conns (put_queue p q w) = w_conns w" "w_connIndex (put_queue p q w) = w_connIndex w"
  "w_activeConnCount (put_queue p q w) = w_activeConnCount w" "w_perIPCounts (put_queue p q w) = w_perIPCounts w"
  "w_connInfo (put_queue p q w) = w_connInfo w" "heap (put_queue p q w) = (heap w)[p := q]"
  by (simp_all add: put_queue_def)

lemma counters_shared [simp]:
  "same_shared w (add_upstream u f w1) = same_shared w w1" "same_shared w (getUpstreamCounters u w1) = same_shared w w1"
  "same_shared w (getModuleCounters m u w1) = same_shared w w1" "same_shared w (add_module key g w1) = same_shared w w1"
  "same_shared w (w1\<lparr>w_acceptedConnCount := n\<rparr>) = same_shared w w1" "same_shared w (w1\<lparr>w_completedConnCount := n\<rparr>) = same_shared w w1"
  "same_shared w (w1\<lparr>w_sentBytesTotal := n\<rparr>) = same_shared w w1" "same_shared w (w1\<lparr>w_recvBytesTotal := n\<rparr>) = same_shared w w1"
  "same_shared w (w1\<lparr>w_unknownModuleCount := n\<rparr>) = same_shared w w1"
  by (simp_all add: same_shared_def add_upstream_def getUpstreamCounters_def getModuleCounters_def add_module_def Let_def)

lemma same_shared_refl [simp]: "same_shared w w"
  by (simp add: same_shared_def)

lemma index_ok_same:
  assumes "index_ok w" "ticketed w' = ticketed w" "w_connIndex w' = w_connIndex w" "\<And>i. i \<in> ticketed w \<Longrightarrow> k_index (conn w' i) = k_index (conn w i)"
  shows "index_ok w'"
  using assms unfolding index_ok_def by auto

lemma index_ok_put:
  assumes "index_ok w" "i < length (w_conns w)" "w_conns w1 = w_conns w" "w_connIndex w1 = w_connIndex w"
    "k_index c = k_index (conn w i)" "indexed c = indexed (conn w i)"
  shows "index_ok (put i c w1)"
proof (rule index_ok_same [OF assms(1)])
  show "ticketed (put i c w1) = ticketed w" using assms by (auto simp: ticketed_def conn_put split: if_splits)
qed (use assms in \<open>auto simp: conn_put\<close>)

text \<open>A step that touches only its own connection and keeps the deferred calls that matter.\<close>

lemma put_inv:
  assumes inv: "world_inv w" and i: "i < length (w_conns w)" and sh: "same_shared w w1"
    and ok: "conn_ok (heap w) c" "k_index c = k_index (conn w i)" "indexed c = indexed (conn w i)"
    and d: "\<And>d. d \<noteq> DUp \<Longrightarrow> d \<noteq> DDown \<Longrightarrow> defers d c = defers d (conn w i)" and h: "\<And>key. holds key c = holds key (conn w i)"
  shows "world_inv (put i c w1)"
proof -
  have w1: "w_srv w1 = w_srv w" "w_conns w1 = w_conns w" "w_connIndex w1 = w_connIndex w" "w_activeConnCount w1 = w_activeConnCount w"
    "w_perIPCounts w1 = w_perIPCounts w" "w_connInfo w1 = w_connInfo w" using sh by (simp_all add: same_shared_def)
  have t: "tally f (put i c w1) = tally f w" if "f c = f (conn w i)" for f
    using tally_put_same [of i w1 f c] tally_same [OF w1(2)] i that w1(2) by simp
  have "conns_ok (put i c w1)" using inv ok i w1 by (auto simp: world_inv_def conns_ok_def conn_put)
  moreover have "index_ok (put i c w1)" using inv ok i w1 by (intro index_ok_put [of w]) (auto simp: world_inv_def)
  moreover have "perIP_ok (put i c w1)" using inv w1 t h by (simp add: world_inv_def perIP_ok_def perIP_count_def)
  moreover have "handles_ok (put i c w1)" using inv w1 t d by (simp add: world_inv_def handles_ok_def)
  moreover have "info_ok (put i c w1)"
  proof -
    have "DConnInfo idx \<in> set (k_defers c) \<longleftrightarrow> DConnInfo idx \<in> set (k_defers (conn w i))" for idx
      using d [of "DConnInfo idx"] by (simp add: defers_def) (metis count_list_0_iff)
    then show ?thesis using inv w1 i ok(2) unfolding world_inv_def info_ok_def by (auto simp: conn_put)
  qed
  ultimately show ?thesis using inv w1 t d by (simp add: world_inv_def)
qed

lemma inv_conn: "world_inv w \<Longrightarrow> at w i p \<Longrightarrow> i < length (w_conns w) \<and> k_pc (conn w i) = p \<and> conn_ok (heap w) (conn w i)"
  by (auto simp: world_inv_def conns_ok_def at_def)

section \<open>Steps of one connection\<close>

text \<open>A connection that returns with its stack untouched.\<close>

definition same_frame :: "Conn \<Rightarrow> Conn \<Rightarrow> bool" where
  "same_frame c c' \<longleftrightarrow> k_index c' = k_index c \<and> k_defers c' = k_defers c \<and> k_limit c' = k_limit c \<and> key_of c' = key_of c \<and>
     k_queue c' = k_queue c \<and> k_handle c' = k_handle c"

lemma same_frame_stacks:
  "same_frame c c' \<Longrightarrow> base_stack c' = base_stack c \<and> capped_stack c' = capped_stack c \<and> held_stack c' = held_stack c"
  by (simp add: same_frame_def base_stack_def capped_stack_def held_stack_def)

lemma base_suffix: "suffix (base_stack c) (DUp # held_stack c)" "suffix (capped_stack c) (DUp # held_stack c)" "suffix (held_stack c) (DUp # held_stack c)"
  by (auto simp: suffix_def held_stack_def capped_stack_def)

lemma returning_ok:
  assumes "conn_ok H c" "k_pc c \<notin> {AtStart, AtAccepted, AtIndex, AtRegister, Finished}" "same_frame c c'" "k_pc c' = AtReturn"
  shows "conn_ok H c'"
proof -
  have "k_defers c \<noteq> [] \<and> suffix (k_defers c) (DUp # held_stack c)"
    using assms(1,2) base_suffix [of c]
    by (cases "k_pc c") (auto simp: conn_ok_def stack_ok_def base_phases_def base_stack_def capped_stack_def held_stack_def split: if_splits)
  then show ?thesis using assms(3,4) same_frame_stacks [OF assms(3)] by (simp add: conn_ok_def same_frame_def)
qed

lemma same_phase_ok:
  assumes "conn_ok H c" "same_frame c c'" "k_pc c' = k_pc c"
  shows "conn_ok H c'"
  using assms same_frame_stacks [OF assms(2)] by (cases "k_pc c") (simp_all add: conn_ok_def stack_ok_def base_phases_def same_frame_def admitted_def)

lemma frame_inv:
  assumes "world_inv w" "i < length (w_conns w)" "same_shared w w1" "same_frame (conn w i) c" "k_pc (conn w i) \<noteq> AtOver" "k_pc c \<noteq> AtOver"
    and "conn_ok (heap w) c" "indexed c = indexed (conn w i)"
  shows "world_inv (put i c w1)"
  using assms by (intro put_inv [OF assms(1-3)]) (auto simp: same_frame_def defers_def holds_def)

lemma return_inv:
  assumes "world_inv w" "at w i p" "same_shared w w1" "same_frame (conn w i) c" "k_pc c = AtReturn" "p \<notin> {AtStart, AtAccepted, AtIndex, AtRegister, Finished, AtOver}"
  shows "world_inv (put i c w1)"
proof -
  have "conn_ok (heap w) c" using inv_conn [OF assms(1,2)] returning_ok [of "heap w" "conn w i" c] assms by auto
  then show ?thesis using inv_conn [OF assms(1,2)] assms by (intro frame_inv) (auto simp: indexed_def starting_def)
qed

lemma same_frame_simps [simp]:
  "same_frame c c" "same_frame c (returns e c') = same_frame c c'" "same_frame c (writes wr s c') = same_frame c c'"
  "same_frame c (c'\<lparr>k_in := x\<rparr>) = same_frame c c'" "same_frame c (c'\<lparr>k_out := y\<rparr>) = same_frame c c'"
  "same_frame c (c'\<lparr>k_upIn := x\<rparr>) = same_frame c c'" "same_frame c (c'\<lparr>k_upOut := y\<rparr>) = same_frame c c'"
  "same_frame c (c'\<lparr>k_status := st\<rparr>) = same_frame c c'" "same_frame c (c'\<lparr>k_pc := p\<rparr>) = same_frame c c'"
  "same_frame c (c'\<lparr>k_info := nfo\<rparr>) = same_frame c c'" "same_frame c (c'\<lparr>k_version := y\<rparr>) = same_frame c c'"
  "same_frame c (c'\<lparr>k_request := y\<rparr>) = same_frame c c'" "same_frame c (c'\<lparr>k_module := y\<rparr>) = same_frame c c'" "same_frame c (c'\<lparr>k_watch := wt\<rparr>) = same_frame c c'"
  "same_frame c (c'\<lparr>k_lastActivity := t\<rparr>) = same_frame c c'" "same_frame c (c'\<lparr>k_started := t\<rparr>) = same_frame c c'"
  "same_frame c (c'\<lparr>k_timings := rt\<rparr>) = same_frame c c'" "same_frame c (c'\<lparr>k_killed := b\<rparr>) = same_frame c c'"
  "same_frame c (c'\<lparr>k_sentClosed := b\<rparr>) = same_frame c c'" "same_frame c (c'\<lparr>k_recvClosed := b\<rparr>) = same_frame c c'"
  "same_frame c (c'\<lparr>k_upOpen := b\<rparr>) = same_frame c c'" "same_frame c (c'\<lparr>k_downOpen := b\<rparr>) = same_frame c c'"
  by (auto simp: same_frame_def returns_def writes_def key_of_def client_ip_def split: option.splits)

lemma returns_simps [simp]:
  "k_pc (returns e c) = AtReturn" "k_defers (returns e c) = k_defers c" "k_limit (returns e c) = k_limit c"
  "k_pc (writes wr s c) = k_pc c" "k_defers (writes wr s c) = k_defers c" "k_limit (writes wr s c) = k_limit c"
  by (simp_all add: returns_def writes_def split: option.splits)


subsection \<open>The dialogues\<close>

lemma base_phase_ok: "k_defers c = base_stack c \<Longrightarrow> k_pc c \<in> base_phases \<Longrightarrow> conn_ok H c"
  by (auto simp: conn_ok_def stack_ok_def base_phases_def)

text \<open>A step of the dialogue with the client returns, stays or moves on to a phase with the same stack.\<close>

lemma base_move_inv:
  assumes "world_inv w" "at w i p" "same_shared w w1" "p \<in> base_phases - {AtOver}"
    and "k_index c = k_index (conn w i)" "k_defers c = k_defers (conn w i)" "k_pc c \<in> base_phases - {AtOver}"
  shows "world_inv (put i c w1)"
proof -
  have i: "i < length (w_conns w)" "k_pc (conn w i) = p" "k_defers (conn w i) = base_stack (conn w i)"
    using inv_conn [OF assms(1,2)] assms(4) by (auto simp: conn_ok_def stack_ok_def base_phases_def)
  then have "k_defers c = base_stack c" using assms(5,6) by (simp add: base_stack_def)
  then have "conn_ok (heap w) c" using assms(7) by (intro base_phase_ok) auto
  then show ?thesis using assms i
    by (intro put_inv [OF assms(1) i(1) assms(3)]) (auto simp: defers_def holds_def indexed_def starting_def base_phases_def)
qed

lemma version_inv:
  assumes "world_inv w" "at w i AtVersion"
  shows "world_inv (put i (relay_version wr (conn w i)) w)"
proof (cases "k_pc (relay_version wr (conn w i)) = AtReturn")
  case True
  then show ?thesis using assms
    by (intro return_inv [OF assms]) (auto simp: relay_version_def Let_def at_def split: option.splits prod.splits if_splits)
next
  case False
  then show ?thesis using assms
    by (intro base_move_inv [OF assms]) (auto simp: base_phases_def relay_version_def Let_def at_def split: option.splits prod.splits if_splits)
qed

lemma module_inv:
  assumes "world_inv w" "at w i AtModule"
  shows "world_inv (put i (relay_module (conn w i)) w)"
proof (cases "k_pc (relay_module (conn w i)) = AtReturn")
  case True
  then show ?thesis using assms
    by (intro return_inv [OF assms]) (auto simp: relay_module_def Let_def at_def split: option.splits prod.splits if_splits)
next
  case False
  then show ?thesis using assms
    by (intro base_move_inv [OF assms]) (auto simp: base_phases_def relay_module_def Let_def at_def split: option.splits prod.splits if_splits)
qed

lemma motd_inv:
  assumes "world_inv w" "at w i AtMotd"
  shows "world_inv (put i (relay_motd s wr (conn w i)) w)"
proof (cases "k_pc (relay_motd s wr (conn w i)) = AtReturn")
  case True
  then show ?thesis using assms
    by (intro return_inv [OF assms]) (auto simp: relay_motd_def Let_def at_def split: option.splits if_splits)
next
  case False
  then show ?thesis using assms
    by (intro base_move_inv [OF assms]) (auto simp: base_phases_def relay_motd_def Let_def at_def split: option.splits if_splits)
qed

lemma list_inv:
  assumes "world_inv w" "at w i AtList"
  shows "world_inv (put i (relay_list s wr (conn w i)) w)"
  by (rule return_inv [OF assms]) (simp_all add: relay_list_def split: option.split)

lemma lookup_inv:
  assumes "world_inv w" "at w i AtLookup"
  shows "world_inv (relay_lookup wr i w)"
proof (cases "getTargetsForModule (w_srv w) (k_module (conn w i))")
  case None
  then show ?thesis unfolding relay_lookup_def Let_def None option.case
    by (intro return_inv [OF assms]) simp_all
next
  case (Some targets)
  have panic: "world_inv (put i (returns (Some EPanic) (conn w i)) w)" by (rule return_inv [OF assms]) simp_all
  have target: "world_inv (put i ((conn w i)\<lparr>k_target := t, k_info := nfo, k_pc := AtQueue\<rparr>) w)" for t nfo
    by (rule base_move_inv [OF assms]) (simp_all add: base_phases_def)
  show ?thesis
    by (cases "chooseTargetByClientIP (ParseIP (client_ip (conn w i))) (length targets)")
      (simp_all add: relay_lookup_def Let_def Some panic target)
qed

lemma srv_inv_pointer: "srv_inv s \<Longrightarrow> getQueueForUpstream s n = Some p \<Longrightarrow> p < length (s_queue_heap s)"
  by (auto simp: srv_inv_def queues_ok_def getQueueForUpstream_def dest!: map_of_SomeD)

lemma queue_inv:
  assumes "world_inv w" "at w i AtQueue"
  shows "world_inv (put i (relay_queue (w_srv w) (conn w i)) w)"
proof (cases "getQueueForUpstream (w_srv w) (t_Upstream (k_target (conn w i)))")
  case None
  then show ?thesis by (intro return_inv [OF assms]) (simp_all add: relay_queue_def)
next
  case (Some p)
  let ?c = "(conn w i)\<lparr>k_queue := p, k_pc := AtLimit\<rparr>"
  have i: "i < length (w_conns w)" "k_pc (conn w i) = AtQueue" "k_defers (conn w i) = base_stack (conn w i)"
    using inv_conn [OF assms] by (auto simp: conn_ok_def stack_ok_def base_phases_def)
  have "p < length (heap w)" using assms(1) Some by (auto simp: world_inv_def intro: srv_inv_pointer)
  then have "conn_ok (heap w) ?c" using i by (simp add: conn_ok_def base_stack_def)
  then have "world_inv (put i ?c w)" using i by (intro put_inv [OF assms(1) i(1)]) (auto simp: defers_def holds_def indexed_def starting_def)
  then show ?thesis using Some by (simp add: relay_queue_def)
qed

lemma limit_inv:
  assumes "world_inv w" "at w i AtLimit"
  shows "world_inv (put i (relay_limit (w_srv w) (conn w i)) w)"
proof -
  have i: "i < length (w_conns w)" "k_pc (conn w i) = AtLimit" "k_defers (conn w i) = base_stack (conn w i)" "k_queue (conn w i) < length (heap w)"
    using inv_conn [OF assms] by (auto simp: conn_ok_def)
  then have "conn_ok (heap w) (relay_limit (w_srv w) (conn w i))"
    by (simp add: conn_ok_def relay_limit_def Let_def base_stack_def capped_stack_def)
  then show ?thesis using i by (intro put_inv [OF assms(1) i(1)]) (auto simp: defers_def holds_def indexed_def starting_def relay_limit_def Let_def)
qed

lemma remind_inv:
  assumes "world_inv w" "at w i AtWait"
  shows "world_inv (put i (relay_remind wr (conn w i)) w)"
proof (cases wr)
  case None
  have i: "i < length (w_conns w)" "k_pc (conn w i) = AtWait" "conn_ok (heap w) (conn w i)" using inv_conn [OF assms] by auto
  then have "conn_ok (heap w) (relay_remind None (conn w i))" by (intro same_phase_ok [OF i(3)]) (simp_all add: relay_remind_def)
  with i None show ?thesis by (intro frame_inv [OF assms(1) i(1)]) (simp_all add: relay_remind_def indexed_def)
qed (simp add: relay_remind_def return_inv [OF assms])

lemma dial_inv:
  assumes "world_inv w" "at w i AtDial"
  shows "world_inv (relay_dial r i w)"
proof (cases r)
  case (Inl e)
  then show ?thesis by (simp add: relay_dial_def Let_def return_inv [OF assms])
next
  case (Inr addr)
  let ?c = "(conn w i)\<lparr>k_upAddr := addr, k_upOpen := True, k_defers := DUp # k_defers (conn w i), k_pc := AtUpstream\<rparr>"
  have i: "i < length (w_conns w)" "k_pc (conn w i) = AtDial" "conn_ok (heap w) (conn w i)" using inv_conn [OF assms] by auto
  then have "conn_ok (heap w) ?c"
    by (simp add: conn_ok_def stack_ok_def base_phases_def held_stack_def capped_stack_def base_stack_def admitted_def key_of_def client_ip_def)
  then have "world_inv (put i ?c w)" using i by (intro put_inv [OF assms(1) i(1)]) (auto simp: defers_def holds_def indexed_def starting_def)
  then show ?thesis using Inr by (simp add: relay_dial_def Let_def)
qed

text \<open>The phases with an open connection to the upstream.\<close>

definition up_phases :: "phase set" where
  "up_phases = {AtUpstream, AtUpVersion, AtRelay, AtDrain, AtSentTotal, AtRecvTotal, AtModuleCounters, AtModuleCompleted,
     AtModuleSent, AtModuleRecv}"

lemma up_phaseD: "p \<in> up_phases \<Longrightarrow> p \<noteq> AtOver \<and> \<not> starting p"
  by (auto simp: up_phases_def starting_def)

lemma up_phase_stack: "k_pc c \<in> up_phases \<Longrightarrow> conn_ok H c \<longleftrightarrow> k_defers c = DUp # held_stack c \<and> admitted H c"
  by (auto simp: conn_ok_def up_phases_def stack_ok_def base_phases_def)

lemma up_phase_ok:
  assumes "conn_ok H c" "same_frame c c'" "k_pc c \<in> up_phases" "k_pc c' \<in> up_phases"
  shows "conn_ok H c'"
  using assms same_frame_stacks [OF assms(2)] by (auto simp: up_phase_stack same_frame_def admitted_def)

lemma up_move_inv:
  assumes "world_inv w" "at w i p" "same_shared w w1" "p \<in> up_phases" "same_frame (conn w i) c" "k_pc c \<in> up_phases"
  shows "world_inv (put i c w1)"
proof -
  have i: "i < length (w_conns w)" "k_pc (conn w i) = p" "conn_ok (heap w) (conn w i)" using inv_conn [OF assms(1,2)] by auto
  with assms(4-6) have "conn_ok (heap w) c" by (auto intro: up_phase_ok)
  then show ?thesis using assms i up_phaseD [OF assms(4)] up_phaseD [OF assms(6)] by (intro frame_inv) (auto simp: indexed_def)
qed

lemma upstream_inv:
  assumes "world_inv w" "at w i AtUpstream"
  shows "world_inv (put i (relay_upstream wr wr' (conn w i)) w)"
proof (cases "k_pc (relay_upstream wr wr' (conn w i)) = AtReturn")
  case True
  then show ?thesis using assms
    by (intro return_inv [OF assms]) (auto simp: relay_upstream_def split: option.splits sum.splits if_splits)
next
  case False
  then show ?thesis using assms
    by (intro up_move_inv [OF assms]) (auto simp: up_phases_def relay_upstream_def split: option.splits sum.splits if_splits)
qed

lemma up_version_inv:
  assumes "world_inv w" "at w i AtUpVersion"
  shows "world_inv (put i (relay_up_version s now wr wr' (conn w i)) w)"
proof (cases "k_pc (relay_up_version s now wr wr' (conn w i)) = AtReturn")
  case True
  then show ?thesis using assms
    by (intro return_inv [OF assms]) (auto simp: relay_up_version_def Let_def at_def split: option.splits prod.splits if_splits)
next
  case False
  then show ?thesis using assms
    by (intro up_move_inv [OF assms]) (auto simp: up_phases_def relay_up_version_def Let_def at_def split: option.splits prod.splits if_splits)
qed

text \<open>The steps while the copies run.\<close>

lemma relaying_inv:
  assumes "world_inv w" "relaying w i" "same_shared w w1" "same_frame (conn w i) c" "k_pc c \<in> {AtRelay, AtDrain}"
  shows "world_inv (put i c w1)"
proof -
  obtain p where "at w i p" "p \<in> up_phases" using assms(2) by (auto simp: relaying_def up_phases_def)
  then show ?thesis using assms by (intro up_move_inv) (auto simp: up_phases_def)
qed

lemma relaying_phase: "relaying w i \<Longrightarrow> k_pc (conn w i) = AtRelay \<or> k_pc (conn w i) = AtDrain"
  by (auto simp: relaying_def at_def)

lemma copy_inv:
  assumes "world_inv w" "relaying w i"
  shows "world_inv (put i (relay_copy up data wr now (conn w i)) w)" "world_inv (put i (relay_copy_end up (conn w i)) w)"
  using relaying_phase [OF assms(2)]
  by (intro relaying_inv [OF assms]; auto simp: relay_copy_def relay_copy_end_def Let_def)+

lemma scrape_inv: "world_inv w \<Longrightarrow> world_inv (getUpstreamCounters u w)"
  by (simp add: world_inv_def conns_ok_def index_ok_def ticketed_def perIP_ok_def handles_ok_def info_ok_def getUpstreamCounters_def
      tally_def perIP_count_def)

text \<open>A step that leaves the connection where it is.\<close>

lemma stay_inv:
  assumes "world_inv w" "i < length (w_conns w)" "same_shared w w1" "same_frame (conn w i) c" "k_pc c = k_pc (conn w i)"
  shows "world_inv (put i c w1)"
proof -
  have ok: "conn_ok (heap w) (conn w i)" using assms(1,2) by (simp add: world_inv_def conns_ok_def)
  show ?thesis using assms same_phase_ok [OF ok assms(4,5)]
    by (intro put_inv [OF assms(1-3)]) (auto simp: same_frame_def defers_def holds_def indexed_def)
qed

lemma tick_inv:
  assumes "world_inv w" "i < length (w_conns w)"
  shows "world_inv (relay_tick now i w)"
  unfolding relay_tick_def Let_def by (auto split: tick_result.split intro!: stay_inv [OF assms])

lemma select_inv:
  assumes "world_inv w" "at w i AtRelay"
  shows "world_inv (put i (relay_select received (conn w i)) w)"
  by (intro relaying_inv [OF assms(1)]) (use assms(2) in \<open>auto simp: relay_select_def relaying_def\<close>)

lemma finish_inv:
  assumes "world_inv w" "at w i p" "p = AtDrain \<or> totalling p"
  shows "world_inv (relay_finish i w)"
proof -
  have p: "p \<in> up_phases" "k_pc (conn w i) = p" using assms(2,3) by (auto simp: up_phases_def totalling_def at_def)
  note move = up_move_inv [OF assms(1,2) _ p(1)] and return = return_inv [OF assms(1,2)]
  show ?thesis
  proof (cases "p = AtModuleRecv")
    case True
    then show ?thesis unfolding relay_finish_def Let_def p(2) by (auto intro!: return)
  next
    case False
    then show ?thesis using assms(3) unfolding relay_finish_def Let_def p(2) totalling_def
      by (auto simp: up_phases_def intro!: move)
  qed
qed

lemma arrive_inv:
  assumes "world_inv w" "i < length (w_conns w)"
  shows "world_inv (put i ((conn w i)\<lparr>k_in := segs\<rparr>) w)" "world_inv (put i ((conn w i)\<lparr>k_upIn := segs\<rparr>) w)"
  by (rule stay_inv [OF assms]; simp)+

subsection \<open>The counters\<close>

lemma perIP_count_get [simp]:
  "perIP_count k (getPerIPCounter key w) = perIP_count k w" "add_perIP key d (getPerIPCounter key w) = add_perIP key d w"
  by (auto simp: perIP_count_def getPerIPCounter_def load_or_store_def add_perIP_def update_conv update_Some_unfold
      split: option.splits)

lemma perIP_count_add: "perIP_count k (add_perIP key d w) = (if k = key then perIP_count k w + d else perIP_count k w)"
  by (simp add: perIP_count_def add_perIP_def update_conv)

lemma add_perIP_simps [simp]:
  "w_srv (add_perIP key d w) = w_srv w" "w_conns (add_perIP key d w) = w_conns w" "w_connIndex (add_perIP key d w) = w_connIndex w"
  "w_activeConnCount (add_perIP key d w) = w_activeConnCount w" "w_connInfo (add_perIP key d w) = w_connInfo w"
  by (simp_all add: add_perIP_def)

text \<open>A connection that increments or decrements a per-IP counter together with what it holds of it.\<close>

lemma perIP_inv:
  assumes inv: "world_inv w" and i: "i < length (w_conns w)" and ok: "conn_ok (heap w) c" "k_index c = k_index (conn w i)" "indexed c = indexed (conn w i)"
    and d: "\<And>d. (\<forall>k. d \<noteq> DPerIP k) \<Longrightarrow> defers d c = defers d (conn w i)"
    and h: "\<And>k. holds k c + (if k = key then a else 0) = holds k (conn w i) + (if k = key then b else 0)"
    and delta: "delta + word_of_nat a = word_of_nat b"
  shows "world_inv (put i c (add_perIP key delta w))"
proof -
  let ?w1 = "add_perIP key delta w"
  have t: "tally f (put i c ?w1) = tally f w" if "f c = f (conn w i)" for f
    using tally_put_same [of i ?w1 f c] tally_same [of ?w1 w f] i that by simp
  have "perIP_count k (put i c ?w1) = word_of_nat (tally (holds k) (put i c ?w1))" for k
  proof -
    have "tally (holds k) (put i c ?w1) + holds k (conn w i) = tally (holds k) w + holds k c"
      using tally_put [of i ?w1 "holds k" c] tally_same [of ?w1 w "holds k"] i by simp
    then have "tally (holds k) (put i c ?w1) + (if k = key then a else 0) = tally (holds k) w + (if k = key then b else 0)"
      using h [of k] by (auto split: if_splits)
    then have "word_of_nat (tally (holds k) (put i c ?w1)) + word_of_nat (if k = key then a else 0) =
        (word_of_nat (tally (holds k) w) + word_of_nat (if k = key then b else 0) :: 64 word)"
      by (metis of_nat_add)
    moreover have "perIP_count k w = word_of_nat (tally (holds k) w)" using inv unfolding world_inv_def perIP_ok_def by blast
    moreover have "perIP_count k (put i c ?w1) = perIP_count k ?w1" by (simp add: perIP_count_def)
    moreover have "word_of_nat (tally (holds k) w) + word_of_nat b = (word_of_nat (tally (holds k) w) + delta) + word_of_nat a"
      using delta by (simp add: add.assoc)
    ultimately show ?thesis by (cases "k = key") (simp_all add: perIP_count_add)
  qed
  moreover have "conns_ok (put i c ?w1)" using inv ok i by (auto simp: world_inv_def conns_ok_def conn_put)
  moreover have "index_ok (put i c ?w1)" using inv ok i by (intro index_ok_put [of w]) (auto simp: world_inv_def)
  moreover have "handles_ok (put i c ?w1)" using inv t d by (simp add: world_inv_def handles_ok_def)
  moreover have "DConnInfo idx \<in> set (k_defers c) \<longleftrightarrow> DConnInfo idx \<in> set (k_defers (conn w i))" for idx
    using d [of "DConnInfo idx"] by (simp add: defers_def) (metis count_list_0_iff)
  then have "info_ok (put i c ?w1)" using inv i ok(2) unfolding world_inv_def info_ok_def by (auto simp: conn_put)
  ultimately show ?thesis using inv t d by (simp add: world_inv_def perIP_ok_def)
qed

lemma count_inv:
  assumes "world_inv w" "at w i AtCount"
  shows "world_inv (relay_count i w)"
proof -
  let ?c = "conn w i" and ?key = "key_of (conn w i)"
  have i: "i < length (w_conns w)" "k_pc ?c = AtCount" "k_defers ?c = base_stack ?c" "k_queue ?c < length (heap w)" "k_limit ?c > 0"
    using inv_conn [OF assms] by (auto simp: conn_ok_def)
  have "world_inv (put i (?c\<lparr>k_pc := AtOver\<rparr>) (add_perIP ?key 1 w))"
  proof (rule perIP_inv [OF assms(1) i(1), where a = 0 and b = 1])
    show "conn_ok (heap w) (?c\<lparr>k_pc := AtOver\<rparr>)" using i by (simp add: conn_ok_def stack_ok_def base_phases_def base_stack_def)
  qed (use i in \<open>auto simp: defers_def holds_def key_of_def client_ip_def indexed_def starting_def\<close>)
  moreover have "world_inv (put i (?c\<lparr>k_defers := DPerIP ?key # k_defers ?c, k_pc := AtAcquire\<rparr>) (add_perIP ?key 1 w))"
  proof (rule perIP_inv [OF assms(1) i(1), where a = 0 and b = 1])
    show "conn_ok (heap w) (?c\<lparr>k_defers := DPerIP ?key # k_defers ?c, k_pc := AtAcquire\<rparr>)"
      using i by (simp add: conn_ok_def base_stack_def capped_stack_def key_of_def client_ip_def)
  qed (use i in \<open>auto simp: defers_def holds_def indexed_def starting_def simp del: split_paired_All\<close>)
  ultimately show ?thesis by (simp add: relay_count_def Let_def)
qed

lemma inv_add_upstream: "world_inv (put i c w) \<Longrightarrow> world_inv (put i c (add_upstream u f w))"
  by (simp add: world_inv_def conns_ok_def index_ok_def ticketed_def perIP_ok_def handles_ok_def info_ok_def add_upstream_def
      getUpstreamCounters_def Let_def put_def tally_def perIP_count_def)

lemma over_inv:
  assumes "world_inv w" "at w i AtOver"
  shows "world_inv (relay_over wr i w)"
proof -
  let ?c = "conn w i"
  have i: "i < length (w_conns w)" "k_pc ?c = AtOver" "conn_ok (heap w) ?c" using inv_conn [OF assms] by auto
  have "world_inv (put i (returns None (writes wr s ?c)) (add_perIP (key_of ?c) (-1) w))" for s
  proof (rule perIP_inv [OF assms(1) i(1), where a = 1 and b = 0])
    show "conn_ok (heap w) (returns None (writes wr s ?c))" using i by (intro returning_ok [OF i(3)]) simp_all
    show "holds k (returns None (writes wr s ?c)) + (if k = key_of ?c then 1 else 0) = holds k ?c + (if k = key_of ?c then 0 else 0)" for k
      using i(2) by (auto simp: holds_def defers_def returns_def writes_def split: option.splits)
  qed (use i in \<open>auto simp: defers_def returns_def writes_def indexed_def starting_def split: option.splits\<close>)
  then show ?thesis by (auto simp: relay_over_def Let_def intro: inv_add_upstream)
qed

subsection \<open>Accepting\<close>

lemma tally_append: "w_conns w' = w_conns w @ [c] \<Longrightarrow> tally f w' = tally f w + f c"
  by (simp add: tally_def)

lemma accept_inv:
  assumes "world_inv w"
  shows "world_inv (accept_conn remote local w)"
proof -
  let ?c = "fresh_conn remote local" and ?w = "accept_conn remote local w"
  have cs: "w_conns ?w = w_conns w @ [?c]" "w_srv ?w = w_srv w" "w_perIPCounts ?w = w_perIPCounts w" "w_connInfo ?w = w_connInfo w"
    "w_activeConnCount ?w = w_activeConnCount w" "w_connIndex ?w = w_connIndex w" by (simp_all add: accept_conn_def)
  have c: "k_defers ?c = []" "k_pc ?c = AtStart" by (simp_all add: fresh_conn_def)
  note t = tally_append [OF cs(1)]
  have "conns_ok ?w" using assms c cs by (auto simp: world_inv_def conns_ok_def nth_append conn_ok_def less_Suc_eq)
  moreover have "index_ok ?w"
  proof (rule index_ok_same [of w])
    show "ticketed ?w = ticketed w" using c cs by (auto simp: ticketed_def nth_append indexed_def starting_def less_Suc_eq)
  qed (use assms cs in \<open>auto simp: world_inv_def ticketed_def nth_append\<close>)
  moreover have "perIP_ok ?w" using assms t cs c by (simp add: world_inv_def perIP_ok_def perIP_count_def holds_def defers_def)
  moreover have "handles_ok ?w" using assms t cs c by (simp add: world_inv_def handles_ok_def defers_def)
  moreover have "info_ok ?w"
    using assms c cs unfolding world_inv_def info_ok_def by (auto simp: nth_append less_Suc_eq)
  ultimately show ?thesis using assms cs t c by (simp add: world_inv_def defers_def)
qed

text \<open>The goroutine counts itself.\<close>

lemma start_inv:
  assumes "world_inv w" "at w i AtStart"
  shows "world_inv (put i ((conn w i)\<lparr>k_defers := [DActive], k_pc := AtAccepted\<rparr>) (w\<lparr>w_activeConnCount := w_activeConnCount w + 1\<rparr>))"
    (is "world_inv (put i ?c ?w1)")
proof -
  have i: "i < length (w_conns w)" "k_pc (conn w i) = AtStart" "k_defers (conn w i) = []" using inv_conn [OF assms] by (auto simp: conn_ok_def)
  have t: "tally f (put i ?c ?w1) + f (conn w i) = tally f w + f ?c" for f
    using tally_put [of i ?w1 f ?c] tally_same [of ?w1 w f] i by simp
  have same: "tally f (put i ?c ?w1) = tally f w" if "f ?c = f (conn w i)" for f using t [of f] that by simp
  have ok: "conn_ok (heap w) ?c" by (simp add: conn_ok_def)
  have "tally (defers DActive) (put i ?c ?w1) = Suc (tally (defers DActive) w)" using t [of "defers DActive"] i by (simp add: defers_def)
  moreover have "holds k ?c = holds k (conn w i)" "defers (DRelease p h) ?c = defers (DRelease p h) (conn w i)" for k p h
    using i by (simp_all add: holds_def defers_def)
  then have "perIP_ok (put i ?c ?w1)" "handles_ok (put i ?c ?w1)"
    using assms(1) same by (simp_all add: world_inv_def perIP_ok_def handles_ok_def perIP_count_def)
  moreover have "conns_ok (put i ?c ?w1)" using assms(1) i ok by (auto simp: world_inv_def conns_ok_def conn_put)
  moreover have "index_ok (put i ?c ?w1)"
    using assms(1) i by (intro index_ok_put [of w]) (auto simp: world_inv_def indexed_def starting_def)
  moreover have "info_ok (put i ?c ?w1)" using assms(1) i unfolding world_inv_def info_ok_def by (auto simp: conn_put)
  ultimately show ?thesis using assms(1) by (simp add: world_inv_def)
qed

text \<open>The goroutine takes the next index, as a ticket.\<close>

lemma take_index:
  assumes "index_ok w" "i < length (w_conns w)" "\<not> indexed (conn w i)" "indexed c" "k_index c = w_connIndex w + 1"
  shows "index_ok (put i c (w\<lparr>w_connIndex := w_connIndex w + 1\<rparr>))" (is "index_ok ?w")
proof -
  obtain rank where r: "inj_on rank (ticketed w)"
    "\<And>j. j \<in> ticketed w \<Longrightarrow> rank j < card (ticketed w) \<and> k_index (conn w j) = word_of_nat (Suc (rank j))"
    and n: "w_connIndex w = word_of_nat (card (ticketed w))" using assms(1) unfolding index_ok_def by blast
  have new: "i \<notin> ticketed w" using assms(3) by (simp add: ticketed_def)
  have set: "ticketed ?w = insert i (ticketed w)" using assms(2,4) by (auto simp: ticketed_def put_def nth_list_update split: if_splits)
  have card: "card (ticketed ?w) = Suc (card (ticketed w))" using new unfolding set by (simp add: ticketed_def)
  have conn: "conn ?w j = (if j = i then c else conn w j)" for j using assms(2) by (simp add: put_def nth_list_update)
  let ?rank = "rank(i := card (ticketed w))"
  have "inj_on ?rank (ticketed ?w)"
  proof -
    have "card (ticketed w) \<notin> rank ` ticketed w" using r(2) by fastforce
    then have "inj_on ?rank (ticketed w)" by (rule inj_on_fun_updI [OF r(1)])
    moreover have "?rank ` ticketed w = rank ` ticketed w" using new by (intro image_cong) auto
    moreover have "ticketed w - {i} = ticketed w" using new by blast
    ultimately show ?thesis unfolding set inj_on_insert using \<open>card (ticketed w) \<notin> rank ` ticketed w\<close> by simp
  qed
  moreover have "?rank j < card (ticketed ?w) \<and> k_index (conn ?w j) = word_of_nat (Suc (?rank j))" if "j \<in> ticketed ?w" for j
    using that [unfolded set] r(2) [of j] n assms(5) new unfolding card conn by (cases "j = i") auto
  moreover have "w_connIndex ?w = word_of_nat (card (ticketed ?w))" using n card by simp
  ultimately show ?thesis unfolding index_ok_def by blast
qed

lemma take_index_inv:
  assumes "world_inv w" "at w i AtIndex"
  shows "world_inv (put i ((conn w i)\<lparr>k_index := w_connIndex w + 1, k_pc := AtRegister\<rparr>) (w\<lparr>w_connIndex := w_connIndex w + 1\<rparr>))"
    (is "world_inv (put i ?c ?w1)")
proof -
  have i: "i < length (w_conns w)" "k_pc (conn w i) = AtIndex" "k_defers (conn w i) = [DActive]" using inv_conn [OF assms] by (auto simp: conn_ok_def)
  have same: "tally f (put i ?c ?w1) = tally f w" if "f ?c = f (conn w i)" for f
    using tally_put_same [of i ?w1 f ?c] tally_same [of ?w1 w f] i that by simp
  have ok: "conn_ok (heap w) ?c" using i by (simp add: conn_ok_def)
  have "holds k ?c = holds k (conn w i)" "defers d ?c = defers d (conn w i)" for k d using i by (simp_all add: holds_def defers_def)
  then have "perIP_ok (put i ?c ?w1)" "handles_ok (put i ?c ?w1)" "w_activeConnCount w = word_of_nat (tally (defers DActive) (put i ?c ?w1))"
    using assms(1) same by (simp_all add: world_inv_def perIP_ok_def handles_ok_def perIP_count_def)
  moreover have "conns_ok (put i ?c ?w1)" using assms(1) i ok by (auto simp: world_inv_def conns_ok_def conn_put)
  moreover have "index_ok (put i ?c ?w1)"
    using assms(1) i by (intro take_index) (auto simp: world_inv_def indexed_def starting_def)
  moreover have "info_ok (put i ?c ?w1)" using assms(1) i unfolding world_inv_def info_ok_def by (auto simp: conn_put)
  ultimately show ?thesis using assms(1) by (simp add: world_inv_def)
qed

lemma handle_inv:
  assumes "world_inv w" "at w i p" "starting p"
  shows "world_inv (handleConn i w)"
proof -
  have i: "i < length (w_conns w)" "k_pc (conn w i) = p" "conn_ok (heap w) (conn w i)" using inv_conn [OF assms(1,2)] by auto
  have "world_inv (put i ((conn w i)\<lparr>k_pc := AtIndex\<rparr>) (w\<lparr>w_acceptedConnCount := w_acceptedConnCount w + 1\<rparr>))" if "p = AtAccepted"
    using i that by (intro put_inv [OF assms(1) i(1)]) (auto simp: conn_ok_def defers_def holds_def indexed_def starting_def)
  then show ?thesis using assms start_inv take_index_inv i(2) by (auto simp: handleConn_def starting_def)
qed

text \<open>Fewer than \<open>2^32\<close> connections have indices of their own.\<close>

lemma index_inj:
  assumes "index_ok w" "length (w_conns w) < 2 ^ 32" "i \<in> ticketed w" "j \<in> ticketed w" "k_index (conn w i) = k_index (conn w j)"
  shows "i = j"
proof -
  obtain rank where r: "inj_on rank (ticketed w)"
    "\<And>j. j \<in> ticketed w \<Longrightarrow> rank j < card (ticketed w) \<and> k_index (conn w j) = word_of_nat (Suc (rank j))"
    using assms(1) unfolding index_ok_def by blast
  have "ticketed w \<subseteq> {..<length (w_conns w)}" by (auto simp: ticketed_def)
  then have "card (ticketed w) \<le> length (w_conns w)" using card_mono [of "{..<length (w_conns w)}"] by fastforce
  then have "unat (k_index (conn w k)) = Suc (rank k)" if "k \<in> ticketed w" for k
    using r(2) [OF that] assms(2) by (simp add: unsigned_of_nat take_bit_nat_eq_self del: of_nat_Suc)
  then have "rank i = rank j" using assms(3-5) by (metis Suc_inject)
  then show ?thesis using r(1) assms(3,4) by (auto dest: inj_onD)
qed

lemma registered_ticketed:
  assumes "world_inv w" "j < length (w_conns w)" "DConnInfo idx \<in> set (k_defers (conn w j))"
  shows "j \<in> ticketed w"
proof -
  have "conn_ok (heap w) (conn w j)" using assms(1,2) by (simp add: world_inv_def conns_ok_def)
  then show ?thesis using assms(2,3) by (auto simp: ticketed_def indexed_def starting_def conn_ok_def)
qed

lemma register_inv:
  assumes "world_inv w" "at w i AtRegister"
  shows "world_inv (relay_register now i w)"
proof -
  let ?c0 = "conn w i"
  have i: "i < length (w_conns w)" "k_pc ?c0 = AtRegister" "k_defers ?c0 = [DActive]" using inv_conn [OF assms] by (auto simp: conn_ok_def)
  define w1 where "w1 = w\<lparr>w_connInfo := AList.update (k_index ?c0) i (w_connInfo w)\<rparr>"
  define c where "c = ?c0\<lparr>k_info := zero_info\<lparr>ci_Index := k_index ?c0, ci_LocalAddr := Addr_String (k_local ?c0),
      ci_RemoteAddr := Addr_String (k_remote ?c0), ci_ConnectedAt := now\<rparr>, k_defers := DConnInfo (k_index ?c0) # DDown # k_defers ?c0, k_pc := AtVersion\<rparr>"
  have reg: "relay_register now i w = put i c w1" by (simp add: relay_register_def Let_def c_def w1_def)
  have w1: "w_conns w1 = w_conns w" "w_srv w1 = w_srv w" "w_perIPCounts w1 = w_perIPCounts w" "w_connIndex w1 = w_connIndex w"
    "w_activeConnCount w1 = w_activeConnCount w" by (simp_all add: w1_def)
  have c: "k_defers c = [DConnInfo (k_index ?c0), DDown, DActive]" "k_pc c = AtVersion" "k_index c = k_index ?c0"
    using i by (simp_all add: c_def)
  have t: "tally f (put i c w1) = tally f w" if "f c = f ?c0" for f
    using tally_put_same [of i w1 f c] tally_same [OF w1(1)] i that w1(1) by simp
  have ok: "conn_ok (heap w) c" using c by (simp add: conn_ok_def stack_ok_def base_phases_def base_stack_def)
  have "conns_ok (put i c w1)" using assms(1) ok c w1 i by (auto simp: world_inv_def conns_ok_def conn_put)
  moreover have "index_ok (put i c w1)"
    using assms(1) c w1 i by (intro index_ok_put [of w]) (auto simp: world_inv_def indexed_def starting_def)
  moreover have "holds k c = holds k ?c0" "defers DActive c = defers DActive ?c0" "defers (DRelease p h) c = defers (DRelease p h) ?c0" for k p h
    using c i by (auto simp: holds_def defers_def)
  then have "perIP_ok (put i c w1)" "handles_ok (put i c w1)" "w_activeConnCount w1 = word_of_nat (tally (defers DActive) (put i c w1))"
    using assms(1) t w1 by (simp_all add: world_inv_def perIP_ok_def handles_ok_def perIP_count_def)
  moreover have "info_ok (put i c w1)"
  proof (unfold info_ok_def, intro impI allI)
    fix idx j assume "length (w_conns (put i c w1)) < 2 ^ 32"
    then have len: "length (w_conns w) < 2 ^ 32" using w1 by simp
    then have old: "map_of (w_connInfo w) idx = Some j \<longleftrightarrow>
        j < length (w_conns w) \<and> idx = k_index (conn w j) \<and> DConnInfo idx \<in> set (k_defers (conn w j))"
      using assms(1) by (simp add: world_inv_def info_ok_def)
    have "i \<in> ticketed w" using i by (simp add: ticketed_def indexed_def starting_def)
    then have inj: "j = i" if "j < length (w_conns w)" "DConnInfo idx \<in> set (k_defers (conn w j))" "k_index (conn w j) = k_index (conn w i)"
      using index_inj [OF _ len, of j i] registered_ticketed [OF assms(1) that(1,2)] that(3) assms(1) by (auto simp: world_inv_def)
    have "map_of (w_connInfo w1) idx = (if idx = k_index ?c0 then Some i else map_of (w_connInfo w) idx)"
      by (simp add: w1_def update_conv)
    then show "map_of (w_connInfo (put i c w1)) idx = Some j \<longleftrightarrow>
        j < length (w_conns (put i c w1)) \<and> idx = k_index (conn (put i c w1) j) \<and> DConnInfo idx \<in> set (k_defers (conn (put i c w1) j))"
    proof (cases "j = i")
      case True
      then show ?thesis using \<open>map_of (w_connInfo w1) idx = _\<close> old i c by (cases "idx = k_index ?c0") (simp_all add: w1 conn_put)
    next
      case False
      then have "\<not> (j < length (w_conns w) \<and> idx = k_index (conn w j) \<and> DConnInfo idx \<in> set (k_defers (conn w j)))" if "idx = k_index ?c0"
        using that inj by metis
      then show ?thesis using \<open>map_of (w_connInfo w1) idx = _\<close> old False by (cases "idx = k_index ?c0") (simp_all add: w1 i(1) conn_put)
    qed
  qed
  ultimately show ?thesis using assms(1) w1 unfolding reg by (simp add: world_inv_def)
qed

section \<open>Steps on the queues\<close>

text \<open>What an operation on a queue by somebody else leaves to the holder of a handle.\<close>

definition keeps :: "Queue \<Rightarrow> Queue \<Rightarrow> handle_id \<Rightarrow> bool" where
  "keeps q q' h \<longleftrightarrow> (unread q h \<longrightarrow> unread q' h) \<and> (h \<in> set (q_active q) \<longrightarrow> h \<in> set (q_active q')) \<and>
     (listed q h \<longrightarrow> listed q' h)"

lemma keeps_refl [simp]: "keeps q q h"
  by (simp add: keeps_def)

lemma Acquire_keeps:
  assumes "aq_inv q" "Acquire q = Inr (h, q')"
  shows "keeps q q' x" "unread q' h" "live_handle q' = (live_handle q)(h := True)" "\<not> live_handle q h"
proof -
  from aq.acquire_law [OF assms(1)] assms(2) have a: "aq_abs q' = ad_join h (aq_abs q)" "live_handle q' = (live_handle q)(h := True)" "\<not> live_handle q h" by auto
  then have "set (q_active q) \<subseteq> set (q_active q')" "set (q_queued q) \<subseteq> set (q_queued q')"
    by (auto simp: aq_abs_def ad_join_def split: verdict.splits)
  then show "keeps q q' x" using tells_unread [OF Acquire_tells(2) [OF assms(2)]] by (auto simp: keeps_def listed_def)
  show "unread q' h" using Acquire_tells [OF assms(2)] by (auto simp: tells_def unread_def)
  show "live_handle q' = (live_handle q)(h := True)" "\<not> live_handle q h" by fact+
qed

lemma release_keeps:
  assumes "aq_inv q" "release h q = Inr q'"
  shows "x \<noteq> h \<Longrightarrow> keeps q q' x" "live_handle q' = (live_handle q)(h := False)"
proof -
  from aq.leave_law [OF assms(1), of h] assms(2) have l: "aq_abs q' = (if live_handle q h then ad_leave h (aq_abs q) else aq_abs q)"
    "live_handle q' = (live_handle q)(h := False)" by auto
  show "live_handle q' = (live_handle q)(h := False)" by (rule l(2))
  assume "x \<noteq> h"
  then have "x \<in> set (q_active q) \<Longrightarrow> x \<in> set (q_active q')"
    using l(1) ad_leave_keeps_running [of x "aq_abs q" h] by (metis aq_abs_sel(1))
  moreover have "listed q x \<Longrightarrow> listed q' x"
  proof (cases "live_handle q h")
    case True
    then have "q_active q' @ q_queued q' = removeAll h (q_active q) @ removeAll h (q_queued q)"
      using l(1) by (simp add: aq_abs_def ad_leave_def ad_fill_def)
    then show "listed q x \<Longrightarrow> listed q' x" using \<open>x \<noteq> h\<close> by (simp add: listed_def del: set_append) simp
  qed (use l(1) in \<open>auto simp: aq_abs_def listed_def\<close>)
  ultimately show "keeps q q' x" using release_tells [OF assms] tells_unread by (auto simp: keeps_def)
qed

lemma SetMax_keeps:
  assumes "aq_inv q" "SetMax m n q = Inr q'"
  shows "keeps q q' x" "live_handle q' = live_handle q"
proof -
  from aq.resize_law [OF assms(1), of m n] assms(2) have r: "aq_abs q' = ad_resize m n (aq_abs q)" "live_handle q' = live_handle q" by auto
  have "set (q_active q) \<subseteq> set (q_active q')" using r(1) by (auto simp: aq_abs_def ad_resize_def ad_fill_def)
  moreover have "q_active q' @ q_queued q' = q_active q @ q_queued q" using r(1) by (simp add: aq_abs_def ad_resize_def ad_fill_def)
  ultimately show "keeps q q' x" using tells_unread [OF SetMax_tells [OF assms]] by (auto simp: keeps_def listed_def simp del: set_append)
  show "live_handle q' = live_handle q" by (rule r(2))
qed

lemma recv_keeps:
  assumes "aq_inv q" "recv h q = Some (st, q')"
  shows "x \<noteq> h \<Longrightarrow> keeps q q' x" "live_handle q' = live_handle q" "q_active q' = q_active q"
  using recv_inv [OF assms] recv_other [OF assms(2), of x]
  by (auto simp: keeps_def unread_def live_handle_def fun_eq_iff aq_abs_def listed_def)

lemma conn_ok_keeps:
  assumes "conn_ok H c" "length H \<le> length H'" "k_queue c < length H \<Longrightarrow> DRelease (k_queue c) (k_handle c) \<in> set (k_defers c) \<Longrightarrow>
    keeps (H ! k_queue c) (H' ! k_queue c) (k_handle c)"
  shows "conn_ok H' c"
  using assms by (cases "k_pc c") (auto simp: conn_ok_def stack_ok_def base_phases_def keeps_def admitted_def held_stack_def)

text \<open>A handle belongs to one connection.\<close>

lemma handle_unique:
  assumes "world_inv w" "i < length (w_conns w)" "j < length (w_conns w)" "i \<noteq> j"
    "DRelease p h \<in> set (k_defers (conn w i))" "DRelease p h \<in> set (k_defers (conn w j))"
  shows False
proof -
  let ?f = "defers (DRelease p h)" and ?c = "(conn w i)\<lparr>k_defers := []\<rparr>"
  have "0 < ?f (conn w i)" "0 < ?f (conn w j)" using assms(5,6) by (simp_all add: defers_def) (metis count_list_0_iff gr0I)+
  moreover have "tally ?f (put i ?c w) + ?f (conn w i) = tally ?f w" using tally_put [OF assms(2), of ?f ?c] by (simp add: defers_def)
  moreover have "0 < tally ?f (put i ?c w)" using \<open>0 < ?f (conn w j)\<close> assms(2-4) by (intro tally_positive [of j]) (simp_all add: conn_put)
  moreover have "tally ?f w \<le> 1" using assms(1) by (simp add: world_inv_def handles_ok_def)
  ultimately show False by linarith
qed

lemma handle_live:
  assumes "world_inv w" "i < length (w_conns w)" "DRelease p h \<in> set (k_defers (conn w i))"
  shows "p < length (heap w)" "live_handle (heap w ! p) h"
proof -
  have "0 < defers (DRelease p h) (conn w i)" using assms(3) by (simp add: defers_def) (metis count_list_0_iff gr0I)
  then have "0 < tally (defers (DRelease p h)) w" by (rule tally_positive [OF assms(2)])
  then show "p < length (heap w)" "live_handle (heap w ! p) h" using assms(1) by (auto simp: world_inv_def handles_ok_def split: if_splits)
qed

lemma inv_queue: "world_inv w \<Longrightarrow> p < length (heap w) \<Longrightarrow> q_reachable (heap w ! p) \<and> aq_inv (heap w ! p)"
  using queue_runs.reachable_inv by (auto simp: world_inv_def srv_inv_def queues_ok_def)

lemma srv_inv_put_queue: "srv_inv s \<Longrightarrow> q_reachable q \<Longrightarrow> srv_inv (s\<lparr>s_queue_heap := (s_queue_heap s)[p := q]\<rparr>)"
  by (auto simp: srv_inv_def queues_ok_def dest!: set_update_subset_insert [THEN subsetD])

text \<open>A connection that operates on a queue, keeping the other holders' handles, with the deferred releases following the live handles.\<close>

lemma queue_step_inv:
  assumes inv: "world_inv w" and i: "i < length (w_conns w)" and p: "p < length (heap w)" and q: "q_reachable q"
    and keep: "\<And>j. j < length (w_conns w) \<Longrightarrow> j \<noteq> i \<Longrightarrow> DRelease p (k_handle (conn w j)) \<in> set (k_defers (conn w j)) \<Longrightarrow>
      keeps (heap w ! p) q (k_handle (conn w j))"
    and ok: "conn_ok ((heap w)[p := q]) c" "k_index c = k_index (conn w i)" "indexed c = indexed (conn w i)"
    and d: "\<And>d. (\<forall>p h. d \<noteq> DRelease p h) \<Longrightarrow> defers d c = defers d (conn w i)" and h: "\<And>key. holds key c = holds key (conn w i)"
    and live: "\<And>p' h. defers (DRelease p' h) c + (if p' = p \<and> live_handle (heap w ! p) h then 1 else 0) =
      defers (DRelease p' h) (conn w i) + (if p' = p \<and> live_handle q h then 1 else 0)"
  shows "world_inv (put i c (put_queue p q w))"
proof -
  let ?w1 = "put_queue p q w"
  have t: "tally f (put i c ?w1) + f (conn w i) = tally f w + f c" for f
    using tally_put [of i ?w1 f c] tally_same [of ?w1 w f] i by simp
  then have same: "tally f (put i c ?w1) = tally f w" if "f c = f (conn w i)" for f using that by (metis add_right_cancel)
  have "conn_ok ((heap w)[p := q]) (conn w j)" if "j < length (w_conns w)" "j \<noteq> i" for j
  proof (rule conn_ok_keeps [where H = "heap w"])
    show "conn_ok (heap w) (conn w j)" using inv that by (simp add: world_inv_def conns_ok_def)
    show "keeps (heap w ! k_queue (conn w j)) ((heap w)[p := q] ! k_queue (conn w j)) (k_handle (conn w j))"
      if "k_queue (conn w j) < length (heap w)" "DRelease (k_queue (conn w j)) (k_handle (conn w j)) \<in> set (k_defers (conn w j))"
      using keep [of j] that \<open>j < length (w_conns w)\<close> \<open>j \<noteq> i\<close> by (cases "k_queue (conn w j) = p") auto
  qed simp
  then have "conns_ok (put i c ?w1)" using inv ok i by (auto simp: world_inv_def conns_ok_def conn_put)
  moreover have "index_ok (put i c ?w1)" using inv ok i by (intro index_ok_put [of w]) (auto simp: world_inv_def)
  moreover have "handles_ok (put i c ?w1)"
  proof (unfold handles_ok_def, intro allI)
    fix p' h'
    have "tally (defers (DRelease p' h')) w = (if p' < length (heap w) \<and> live_handle (heap w ! p') h' then 1 else 0)"
      using inv by (simp add: world_inv_def handles_ok_def)
    with t [of "defers (DRelease p' h')"] live [of p' h'] p
    show "tally (defers (DRelease p' h')) (put i c ?w1) =
        (if p' < length (heap (put i c ?w1)) \<and> live_handle (heap (put i c ?w1) ! p') h' then 1 else 0)"
      by (cases "p' = p") (auto split: if_splits)
  qed
  moreover have "DConnInfo idx \<in> set (k_defers c) \<longleftrightarrow> DConnInfo idx \<in> set (k_defers (conn w i))" for idx
    using d [of "DConnInfo idx"] by (simp add: defers_def) (metis count_list_0_iff)
  then have "info_ok (put i c ?w1)" using inv i ok(2) unfolding world_inv_def info_ok_def by (auto simp: conn_put)
  moreover have "perIP_ok (put i c ?w1)" using inv same h by (simp add: world_inv_def perIP_ok_def perIP_count_def)
  moreover have "srv_inv (w_srv ?w1)" using inv q by (simp add: world_inv_def put_queue_def srv_inv_put_queue)
  ultimately show ?thesis using inv same d by (simp add: world_inv_def)
qed

lemma acquire_inv:
  assumes "world_inv w" "at w i AtAcquire"
  shows "world_inv (relay_acquire i w)"
proof -
  let ?c = "conn w i" and ?p = "k_queue (conn w i)"
  have i: "i < length (w_conns w)" "k_pc ?c = AtAcquire" "k_defers ?c = capped_stack ?c" "?p < length (heap w)"
    using inv_conn [OF assms] by (auto simp: conn_ok_def)
  note q0 = inv_queue [OF assms(1) i(4)]
  obtain h q where a: "Acquire (heap w ! ?p) = Inr (h, q)" using aq.acquire_law q0 by blast
  then have q: "q_reachable q" using q0 by (auto intro: Acquire_reachable)
  have kp: "keeps (heap w ! ?p) q x" "unread q h" "live_handle q = (live_handle (heap w ! ?p))(h := True)" "\<not> live_handle (heap w ! ?p) h" for x
    using Acquire_keeps [OF _ a] q0 by blast+
  let ?c' = "?c\<lparr>k_handle := h, k_defers := DRelease ?p h # k_defers ?c, k_pc := AtStatus\<rparr>"
  have "conn_ok ((heap w)[?p := q]) ?c'"
    using i kp(2) by (simp add: conn_ok_def held_stack_def capped_stack_def base_stack_def key_of_def client_ip_def)
  moreover have "defers (DRelease p' h') ?c' + (if p' = ?p \<and> live_handle (heap w ! ?p) h' then 1 else 0) =
      defers (DRelease p' h') ?c + (if p' = ?p \<and> live_handle q h' then 1 else 0)" for p' h'
    using kp(3,4) by (auto simp: defers_def)
  ultimately have "world_inv (put i ?c' (put_queue ?p q w))"
    using i kp(1) by (intro queue_step_inv [OF assms(1) i(1) i(4) q]) (auto simp: defers_def holds_def indexed_def starting_def)
  then show ?thesis using a by (simp add: relay_acquire_def Let_def)
qed

text \<open>Receiving a status: the connection returns, waits on, or is admitted.\<close>

lemma receive_inv:
  assumes "world_inv w" "at w i p" "p = AtStatus \<or> p = AtWait" "recv (k_handle (conn w i)) (heap w ! k_queue (conn w i)) = Some (st, q)"
    and "same_frame (conn w i) c" "k_pc c = AtReturn \<or> (k_pc c = AtDial \<and> st_Ok st) \<or> (k_pc c = AtWait \<and> \<not> st_Ok st \<and> \<not> st_Full st)"
  shows "world_inv (put i c (put_queue (k_queue (conn w i)) q w))"
proof -
  let ?c = "conn w i" and ?p = "k_queue (conn w i)" and ?h = "k_handle (conn w i)"
  have i: "i < length (w_conns w)" "k_pc ?c = p" "conn_ok (heap w) ?c" using inv_conn [OF assms(1,2)] by auto
  then have s: "k_defers ?c = held_stack ?c" "?p < length (heap w)" "unread (heap w ! ?p) ?h" using assms(3) by (auto simp: conn_ok_def)
  have mem: "DRelease ?p ?h \<in> set (k_defers ?c)" using s by (simp add: held_stack_def)
  note q0 = inv_queue [OF assms(1) s(2)]
  have q: "q_reachable q" using q0 assms(4) by (blast intro: reachable_from.move q_step.receive)
  note r = recv_keeps [OF conjunct2 [OF q0] assms(4)]
  note out = recv_outcome [OF conjunct1 [OF q0] handle_live(2) [OF assms(1) i(1) mem] s(3) assms(4)]
  note f = same_frame_stacks [OF assms(5)] assms(5) [unfolded same_frame_def]
  have "conn_ok ((heap w)[?p := q]) c"
  proof -
    have "k_defers c \<noteq> [] \<and> suffix (k_defers c) (DUp # held_stack c)" using s f base_suffix(3) [of ?c] by (simp add: held_stack_def)
    moreover have "?h \<in> set (q_active q)" if "st_Ok st" using out that r(3) by (auto simp: zero_status_def)
    moreover have "unread q ?h \<and> listed q ?h" if "\<not> st_Ok st" "\<not> st_Full st"
      using out that recv_inv [OF conjunct2 [OF q0] assms(4)] by (auto simp: zero_status_def listed_def aq_abs_def dest: nth_mem)
    ultimately show ?thesis using assms(6) s f by (auto simp: conn_ok_def admitted_def)
  qed
  moreover have "keeps (heap w ! ?p) q (k_handle (conn w j))"
    if "j < length (w_conns w)" "j \<noteq> i" "DRelease ?p (k_handle (conn w j)) \<in> set (k_defers (conn w j))" for j
    using r(1) handle_unique [OF assms(1) that(1) i(1) that(2) that(3)] mem by metis
  ultimately show ?thesis
    using i s f assms(3,6) r(2) by (intro queue_step_inv [OF assms(1) i(1) s(2) q]) (auto simp: defers_def holds_def indexed_def starting_def)
qed

lemma status_inv:
  assumes "world_inv w" "at w i AtStatus"
  shows "world_inv (relay_status wr wr' i w)"
proof (cases "recv (k_handle (conn w i)) (heap w ! k_queue (conn w i))")
  case None
  then show ?thesis using assms(1) by (simp add: relay_status_def Let_def)
next
  case (Some sq)
  obtain st q where sq: "sq = (st, q)" by (cases sq)
  note step = receive_inv [OF assms _ Some [unfolded sq]]
  show ?thesis using Some sq
    by (auto simp: relay_status_def Let_def split: option.splits intro!: step inv_add_upstream)
qed

lemma waiting_not_refused:
  assumes "world_inv w" "at w i AtWait" "recv (k_handle (conn w i)) (heap w ! k_queue (conn w i)) = Some (st, q)"
  shows "\<not> st_Full st"
proof -
  let ?c = "conn w i"
  have i: "i < length (w_conns w)" "k_defers ?c = held_stack ?c" "k_queue ?c < length (heap w)" "unread (heap w ! k_queue ?c) (k_handle ?c)"
    "listed (heap w ! k_queue ?c) (k_handle ?c)" using inv_conn [OF assms(1,2)] by (auto simp: conn_ok_def)
  then have "live_handle (heap w ! k_queue ?c) (k_handle ?c)" by (intro handle_live(2) [OF assms(1) i(1)]) (simp add: held_stack_def)
  with recv_outcome [OF conjunct1 [OF inv_queue [OF assms(1) i(3)]] _ i(4) assms(3)] i(5) show ?thesis
    by (auto simp: listed_def zero_status_def)
qed

lemma wait_inv:
  assumes "world_inv w" "at w i AtWait"
  shows "world_inv (relay_wait wr i w)"
proof (cases "recv (k_handle (conn w i)) (heap w ! k_queue (conn w i))")
  case None
  then show ?thesis using assms(1) by (simp add: relay_wait_def Let_def)
next
  case (Some sq)
  obtain st q where sq: "sq = (st, q)" by (cases sq)
  note step = receive_inv [OF assms _ Some [unfolded sq]]
  have "\<not> st_Full st" by (rule waiting_not_refused [OF assms Some [unfolded sq]])
  then show ?thesis using Some sq inv_conn [OF assms]
    by (auto simp: relay_wait_def Let_def split: option.splits intro!: step)
qed

section \<open>Returning\<close>

text \<open>The connection after a deferred call was popped.\<close>

definition popped :: "deferred list \<Rightarrow> Conn \<Rightarrow> Conn" where
  "popped ds c = c\<lparr>k_defers := ds, k_pc := (if ds = [] then Finished else AtReturn)\<rparr>"

lemma popped_simps [simp]:
  "k_defers (popped ds c) = ds" "k_index (popped ds c) = k_index c" "k_limit (popped ds c) = k_limit c" "key_of (popped ds c) = key_of c"
  "k_queue (popped ds c) = k_queue c" "k_handle (popped ds c) = k_handle c" "k_pc (popped ds c) = (if ds = [] then Finished else AtReturn)"
  "held_stack (popped ds c) = held_stack c" "indexed (popped ds c)"
  by (simp_all add: popped_def key_of_def client_ip_def held_stack_def capped_stack_def base_stack_def indexed_def starting_def)

lemma returning_indexed: "k_pc c = AtReturn \<Longrightarrow> indexed c"
  by (simp add: indexed_def starting_def)

lemma popped_ok:
  assumes "conn_ok H c" "k_pc c = AtReturn" "k_defers c = d # ds"
  shows "conn_ok H' (popped ds c)"
  using assms by (auto simp: conn_ok_def dest: suffix_ConsD)

lemma popped_holds: "k_pc c = AtReturn \<Longrightarrow> k_defers c = d # ds \<Longrightarrow> holds key c = holds key (popped ds c) + (if d = DPerIP key then 1 else 0)"
  by (simp add: holds_def defers_def)

lemma popped_defers: "k_defers c = d # ds \<Longrightarrow> defers d' c = defers d' (popped ds c) + (if d' = d then 1 else 0)"
  by (simp add: defers_def)

lemma unwind_eq:
  assumes "k_defers (conn w i) = d # ds"
  shows "unwind i w = map_option (\<lambda>w1. put i (popped ds (conn w1 i)) w1) (run_deferred d i w)"
  by (simp add: unwind_def assms popped_def)

text \<open>Every entry of the stack of a connection that returns is one of its own.\<close>

lemma returning_stack:
  assumes "world_inv w" "at w i AtReturn"
  obtains d ds where "i < length (w_conns w)" "k_pc (conn w i) = AtReturn" "k_defers (conn w i) = d # ds"
    "conn_ok (heap w) (conn w i)" "d \<in> set (DUp # held_stack (conn w i))"
    "d = DConnInfo idx \<Longrightarrow> idx = k_index (conn w i)" "distinct (d # ds)"
proof -
  have i: "i < length (w_conns w)" "k_pc (conn w i) = AtReturn" "conn_ok (heap w) (conn w i)" using inv_conn [OF assms] by auto
  then obtain d ds where s: "k_defers (conn w i) = d # ds" "suffix (d # ds) (DUp # held_stack (conn w i))"
    by (auto simp: conn_ok_def neq_Nil_conv)
  then have mem: "d \<in> set (DUp # held_stack (conn w i))" using set_mono_suffix by fastforce
  have "distinct (DUp # held_stack (conn w i))" by (simp add: held_stack_def capped_stack_def base_stack_def)
  then have "distinct (d # ds)" using s(2) by (metis distinct_append suffix_def)
  moreover have "d = DConnInfo idx \<Longrightarrow> idx = k_index (conn w i)"
    using mem by (auto simp: held_stack_def capped_stack_def base_stack_def split: if_splits)
  ultimately show thesis using that i s mem by blast
qed

lemma unwind_socket_inv:
  assumes "world_inv w" "at w i AtReturn" "k_defers (conn w i) = d # ds" "d = DUp \<or> d = DDown" "same_frame (conn w i) c" "k_pc c = AtReturn"
  shows "world_inv (put i (popped ds c) (put i c w))"
proof -
  have i: "i < length (w_conns w)" "k_pc (conn w i) = AtReturn" "conn_ok (heap w) (conn w i)" using inv_conn [OF assms(1,2)] by auto
  have w1: "world_inv (put i c w)" using assms i
    by (intro return_inv [OF assms(1,2)]) auto
  have c: "conn (put i c w) i = c" "k_defers c = d # ds" using i(1) assms(3,5) by (simp_all add: conn_put same_frame_def)
  have "conn_ok (heap w) c" using i by (intro returning_ok [OF i(3)]) (use assms in auto)
  then have "conn_ok (heap w) (popped ds c)" using assms(6) c(2) by (rule popped_ok)
  then show ?thesis using i c assms(4,6) popped_holds [OF assms(6) c(2)] popped_defers [OF c(2)] returning_indexed [OF assms(6)]
    by (intro put_inv [OF w1]) auto
qed

lemma unwind_release_inv:
  assumes "world_inv w" "at w i AtReturn" "k_defers (conn w i) = DRelease p h # ds"
  shows "\<exists>q. release h (heap w ! p) = Inr q \<and> world_inv (put i (popped ds (conn w i)) (put_queue p q w))"
proof -
  have i: "i < length (w_conns w)" "k_pc (conn w i) = AtReturn" "conn_ok (heap w) (conn w i)" using inv_conn [OF assms(1,2)] by auto
  have mem: "DRelease p h \<in> set (k_defers (conn w i))" using assms(3) by simp
  note live = handle_live [OF assms(1) i(1) mem]
  note q0 = inv_queue [OF assms(1) live(1)]
  obtain q where r: "release h (heap w ! p) = Inr q" using aq.leave_law q0 by blast
  have q: "q_reachable q" using q0 r by (blast intro: reachable_from.move q_step.release)
  note kp = release_keeps [OF conjunct2 [OF q0] r]
  have "world_inv (put i (popped ds (conn w i)) (put_queue p q w))"
  proof (rule queue_step_inv [OF assms(1) i(1) live(1) q])
    show "conn_ok ((heap w)[p := q]) (popped ds (conn w i))" using i(3,2) assms(3) by (rule popped_ok)
    show "keeps (heap w ! p) q (k_handle (conn w j))"
      if "j < length (w_conns w)" "j \<noteq> i" "DRelease p (k_handle (conn w j)) \<in> set (k_defers (conn w j))" for j
      using kp(1) handle_unique [OF assms(1) that(1) i(1) that(2) that(3)] mem by metis
    show "defers d (popped ds (conn w i)) = defers d (conn w i)" if "\<forall>p h. d \<noteq> DRelease p h" for d
      using popped_defers [OF assms(3), of d] that by simp
    show "holds key (popped ds (conn w i)) = holds key (conn w i)" for key using popped_holds [OF i(2) assms(3), of key] by simp
    show "defers (DRelease p' h') (popped ds (conn w i)) + (if p' = p \<and> live_handle (heap w ! p) h' then 1 else 0) =
        defers (DRelease p' h') (conn w i) + (if p' = p \<and> live_handle q h' then 1 else 0)" for p' h'
      using popped_defers [OF assms(3), of "DRelease p' h'"] kp(2) live(2) by auto
  qed (simp_all add: returning_indexed i(2))
  with r show ?thesis by blast
qed

lemma unwind_perIP_inv:
  assumes "world_inv w" "at w i AtReturn" "k_defers (conn w i) = DPerIP key # ds"
  shows "world_inv (put i (popped ds (conn w i)) (add_perIP key (-1) w))"
proof -
  have i: "i < length (w_conns w)" "k_pc (conn w i) = AtReturn" "conn_ok (heap w) (conn w i)" using inv_conn [OF assms(1,2)] by auto
  show ?thesis
  proof (rule perIP_inv [OF assms(1) i(1), where a = 1 and b = 0])
    show "conn_ok (heap w) (popped ds (conn w i))" using i(3,2) assms(3) by (rule popped_ok)
    show "defers d (popped ds (conn w i)) = defers d (conn w i)" if "\<forall>k. d \<noteq> DPerIP k" for d
      using popped_defers [OF assms(3), of d] that by (auto simp del: split_paired_All)
    show "holds k (popped ds (conn w i)) + (if k = key then 1 else 0) = holds k (conn w i) + (if k = key then 0 else 0)" for k
      using popped_holds [OF i(2) assms(3), of k] by auto
  qed (simp_all add: returning_indexed i(2))
qed

lemma unwind_active_inv:
  assumes "world_inv w" "at w i AtReturn" "k_defers (conn w i) = DActive # ds"
  shows "world_inv (put i (popped ds (conn w i)) (w\<lparr>w_activeConnCount := w_activeConnCount w - 1\<rparr>))" (is "world_inv (put i ?c ?w1)")
proof -
  have i: "i < length (w_conns w)" "k_pc (conn w i) = AtReturn" "conn_ok (heap w) (conn w i)" using inv_conn [OF assms(1,2)] by auto
  have ok: "conn_ok (heap w) ?c" using i(3,2) assms(3) by (rule popped_ok)
  have t: "tally f (put i ?c ?w1) + f (conn w i) = tally f w + f ?c" for f
    using tally_put [of i ?w1 f ?c] tally_same [of ?w1 w f] i by simp
  have act: "tally (defers DActive) (put i ?c ?w1) + 1 = tally (defers DActive) w"
    using t [of "defers DActive"] popped_defers [OF assms(3), of DActive] by simp
  have same: "tally f (put i ?c ?w1) = tally f w" if "f ?c = f (conn w i)" for f using t [of f] that by simp
  have "defers d ?c = defers d (conn w i)" if "d \<noteq> DActive" for d using popped_defers [OF assms(3), of d] that by simp
  moreover have "holds key ?c = holds key (conn w i)" for key using popped_holds [OF i(2) assms(3), of key] by simp
  ultimately have "handles_ok (put i ?c ?w1)" "perIP_ok (put i ?c ?w1)"
    using assms(1) same by (simp_all add: world_inv_def handles_ok_def perIP_ok_def perIP_count_def)
  moreover have "conns_ok (put i ?c ?w1)" using assms(1) ok i by (auto simp: world_inv_def conns_ok_def conn_put)
  moreover have "index_ok (put i ?c ?w1)"
    using assms(1) i returning_indexed by (intro index_ok_put [of w]) (auto simp: world_inv_def)
  moreover have "info_ok (put i ?c ?w1)" using assms(1,3) i unfolding world_inv_def info_ok_def by (auto simp: conn_put)
  moreover have "w_activeConnCount w - 1 = word_of_nat (tally (defers DActive) (put i ?c ?w1))"
    using assms(1) act unfolding world_inv_def by (metis add_diff_cancel_right' of_nat_1 of_nat_add)
  ultimately show ?thesis using assms(1) by (simp add: world_inv_def)
qed

lemma unwind_info_inv:
  assumes "world_inv w" "at w i AtReturn" "k_defers (conn w i) = DConnInfo idx # ds"
  shows "world_inv (put i (popped ds (conn w i)) (w\<lparr>w_connInfo := AList.delete idx (w_connInfo w)\<rparr>))" (is "world_inv (put i ?c ?w1)")
proof -
  obtain d' ds' where i: "i < length (w_conns w)" "k_pc (conn w i) = AtReturn" "conn_ok (heap w) (conn w i)" and
    idx: "idx = k_index (conn w i)" and dist: "DConnInfo idx \<notin> set ds"
    using returning_stack [OF assms(1,2), of idx] assms(3) by (metis distinct.simps(2) list.inject)
  have ok: "conn_ok (heap w) ?c" using i(3,2) assms(3) by (rule popped_ok)
  have same: "tally f (put i ?c ?w1) = tally f w" if "f ?c = f (conn w i)" for f
    using tally_put_same [of i ?w1 f ?c] tally_same [of ?w1 w f] i that by simp
  have "defers d ?c = defers d (conn w i)" if "d \<noteq> DConnInfo idx" for d using popped_defers [OF assms(3), of d] that by simp
  moreover have "holds key ?c = holds key (conn w i)" for key using popped_holds [OF i(2) assms(3), of key] by simp
  ultimately have "handles_ok (put i ?c ?w1)" "perIP_ok (put i ?c ?w1)" "w_activeConnCount w = word_of_nat (tally (defers DActive) (put i ?c ?w1))"
    using assms(1) same by (simp_all add: world_inv_def handles_ok_def perIP_ok_def perIP_count_def)
  moreover have "conns_ok (put i ?c ?w1)" using assms(1) ok i by (auto simp: world_inv_def conns_ok_def conn_put)
  moreover have "index_ok (put i ?c ?w1)"
    using assms(1) i returning_indexed by (intro index_ok_put [of w]) (auto simp: world_inv_def)
  moreover have "info_ok (put i ?c ?w1)"
  proof (unfold info_ok_def, intro impI allI)
    fix k j assume "length (w_conns (put i ?c ?w1)) < 2 ^ 32"
    then have len: "length (w_conns w) < 2 ^ 32" by simp
    then have old: "map_of (w_connInfo w) k = Some j \<longleftrightarrow>
        j < length (w_conns w) \<and> k = k_index (conn w j) \<and> DConnInfo k \<in> set (k_defers (conn w j))"
      using assms(1) by (simp add: world_inv_def info_ok_def)
    have "i \<in> ticketed w" using i returning_indexed by (simp add: ticketed_def)
    then have inj: "j = i" if "j < length (w_conns w)" "DConnInfo k \<in> set (k_defers (conn w j))" "k_index (conn w j) = k_index (conn w i)"
      using index_inj [OF _ len, of j i] registered_ticketed [OF assms(1) that(1,2)] that(3) assms(1) by (auto simp: world_inv_def)
    have "map_of (w_connInfo ?w1) k = (if k = idx then None else map_of (w_connInfo w) k)" by (simp add: delete_conv)
    then show "map_of (w_connInfo (put i ?c ?w1)) k = Some j \<longleftrightarrow>
        j < length (w_conns (put i ?c ?w1)) \<and> k = k_index (conn (put i ?c ?w1) j) \<and> DConnInfo k \<in> set (k_defers (conn (put i ?c ?w1) j))"
    proof (cases "j = i")
      case True
      then show ?thesis using \<open>map_of (w_connInfo ?w1) k = _\<close> old i idx dist by (cases "k = idx") (simp_all add: conn_put)
    next
      case False
      then have "\<not> (j < length (w_conns w) \<and> k = k_index (conn w j) \<and> DConnInfo k \<in> set (k_defers (conn w j)))" if "k = idx"
        using that inj idx by metis
      then show ?thesis using \<open>map_of (w_connInfo ?w1) k = _\<close> old False by (cases "k = idx") (simp_all add: i(1) conn_put)
    qed
  qed
  ultimately show ?thesis using assms(1) by (simp add: world_inv_def)
qed

text \<open>A connection that returns always gets its next deferred call done.\<close>

lemma unwind_inv:
  assumes "world_inv w" "at w i AtReturn"
  shows "\<exists>w'. unwind i w = Some w' \<and> world_inv w' \<and> k_defers (conn w' i) = tl (k_defers (conn w i)) \<and>
    k_pc (conn w' i) = (if tl (k_defers (conn w i)) = [] then Finished else AtReturn) \<and> i < length (w_conns w')"
proof -
  obtain d ds where i: "i < length (w_conns w)" "k_pc (conn w i) = AtReturn" and s: "k_defers (conn w i) = d # ds"
    using returning_stack [OF assms] by metis
  note eq = unwind_eq [OF s]
  have c: "conn (put i (popped ds c) w1) i = popped ds c" if "i < length (w_conns w1)" for c w1 using that by (simp add: conn_put)
  show ?thesis
  proof (cases d)
    case DActive
    then show ?thesis using unwind_active_inv [OF assms] s i eq by (simp add: run_deferred_def conn_put)
  next
    case DDown
    then show ?thesis using unwind_socket_inv [OF assms s, of "(conn w i)\<lparr>k_downOpen := False\<rparr>"] i eq s
      by (simp add: run_deferred_def conn_put)
  next
    case (DConnInfo idx)
    then show ?thesis using unwind_info_inv [OF assms] s i eq by (simp add: run_deferred_def conn_put)
  next
    case (DPerIP key)
    then show ?thesis using unwind_perIP_inv [OF assms] s i eq by (simp add: run_deferred_def conn_put)
  next
    case (DRelease p h)
    then show ?thesis using unwind_release_inv [OF assms, of p h ds] s i eq by (auto simp: run_deferred_def conn_put)
  next
    case DUp
    then show ?thesis using unwind_socket_inv [OF assms s, of "(conn w i)\<lparr>k_upOpen := False\<rparr>"] i eq s
      by (simp add: run_deferred_def conn_put)
  qed
qed

section \<open>Reloading\<close>

lemma fresh_queues:
  assumes "queues_ok old H" "updateUpstreamQueuesLocked old us H = Inr (queues, H')" "length H \<le> p" "p < length H'"
  shows "\<exists>m n. H' ! p = New m n"
proof -
  let ?P = "\<lambda>st. length H \<le> length (snd st) \<and> (\<forall>p. length H \<le> p \<and> p < length (snd st) \<longrightarrow> (\<exists>m n. snd st ! p = New m n))"
  have "?P (queues, H')"
    using assms(2) unfolding updateUpstreamQueuesLocked_def
  proof (rule foldE_inv [where P = ?P])
    fix u st st'
    assume st: "?P st" and up: "update_queue old u st = Inr st'"
    obtain qs h where qh: "st = (qs, h)" by (cases st)
    show "?P st'"
    proof (cases "map_of old (uc_Name u)")
      case None
      then show ?thesis using st up qh by (fastforce simp: update_queue_def nth_append less_Suc_eq)
    next
      case (Some p')
      then have "p' < length H" using assms(1) map_of_SomeD [OF Some] by (auto simp: queues_ok_def)
      then show ?thesis using st up qh Some by (auto simp: update_queue_def bindE_Inr_iff nth_list_update)
    qed
  qed auto
  then show ?thesis using assms(3,4) by auto
qed

text \<open>A queue that existed before a reload is untouched or resized; the others are new.\<close>

lemma reload_queues:
  assumes "srv_inv s" "gm_wf (c_Upstreams c)" "loadConfig env c openLog s = Inr (s', e)"
  shows "length (s_queue_heap s) \<le> length (s_queue_heap s')"
    and "p < length (s_queue_heap s) \<Longrightarrow>
      s_queue_heap s' ! p = s_queue_heap s ! p \<or> (\<exists>m n. SetMax m n (s_queue_heap s ! p) = Inr (s_queue_heap s' ! p))"
    and "length (s_queue_heap s) \<le> p \<Longrightarrow> p < length (s_queue_heap s') \<Longrightarrow> \<exists>m n. s_queue_heap s' ! p = New m n"
  using assms(1,2)
proof (atomize(full), cases rule: loadConfig_cases [where env = env and openLog = openLog])
  case (failed s'' e')
  with assms(3) have "s_queue_heap s' = s_queue_heap s" by (simp add: routing_state_def)
  then show "length (s_queue_heap s) \<le> length (s_queue_heap s') \<and> (p < length (s_queue_heap s) \<longrightarrow>
      s_queue_heap s' ! p = s_queue_heap s ! p \<or> (\<exists>m n. SetMax m n (s_queue_heap s ! p) = Inr (s_queue_heap s' ! p))) \<and>
      (length (s_queue_heap s) \<le> p \<longrightarrow> p < length (s_queue_heap s') \<longrightarrow> (\<exists>m n. s_queue_heap s' ! p = New m n))" by simp
next
  case (loaded s'' cert us disc queues H')
  let ?us = "resolveUpstreams us disc" and ?old = "s_upstreamQueues s" and ?H = "s_queue_heap s"
  have h: "s_queue_heap s' = H'" using loaded assms(3) by simp
  note a = loaded(6) [unfolded queues_after_def Let_def prod.case]
  have ok: "queues_ok ?old ?H" using assms(1) by (simp add: srv_inv_def)
  have "H' ! p = ?H ! p \<or> (\<exists>m n. SetMax m n (?H ! p) = Inr (H' ! p))" if "p < length ?H"
  proof (cases "p \<in> old_pointers ?old ?us")
    case True
    then obtain u where "u \<in> set ?us" "map_of ?old (uc_Name u) = Some p" by (auto simp: old_pointers_def)
    then have "queue_updated ?old ?H queues H' u" "map_of ?old (uc_Name u) = Some p" using a by blast+
    then show ?thesis by (auto simp: queue_updated_def)
  qed (use a that in blast)
  then show "length ?H \<le> length (s_queue_heap s') \<and> (p < length ?H \<longrightarrow>
      s_queue_heap s' ! p = ?H ! p \<or> (\<exists>m n. SetMax m n (?H ! p) = Inr (s_queue_heap s' ! p))) \<and>
      (length ?H \<le> p \<longrightarrow> p < length (s_queue_heap s') \<longrightarrow> (\<exists>m n. s_queue_heap s' ! p = New m n))"
    using a fresh_queues [OF ok loaded(5)] unfolding h by blast
qed

lemma reload_inv:
  assumes inv: "world_inv w" and "gm_wf (c_Upstreams c)" "loadConfig env c openLog (w_srv w) = Inr (s', e)"
  shows "world_inv (w\<lparr>w_srv := s'\<rparr>)"
proof -
  have srv: "srv_inv (w_srv w)" using inv by (simp add: world_inv_def)
  note r = reload_queues [OF srv assms(2,3)]
  have old: "keeps (heap w ! p) (s_queue_heap s' ! p) h \<and> live_handle (s_queue_heap s' ! p) = live_handle (heap w ! p)" if "p < length (heap w)" for p h
  proof (cases "s_queue_heap s' ! p = heap w ! p")
    case False
    then have "\<exists>m n. SetMax m n (heap w ! p) = Inr (s_queue_heap s' ! p)" using r(2) [OF that] by blast
    then obtain m n where "SetMax m n (heap w ! p) = Inr (s_queue_heap s' ! p)" by blast
    from SetMax_keeps [OF conjunct2 [OF inv_queue [OF inv \<open>p < length (heap w)\<close>]] this] show ?thesis by simp
  qed simp
  have new: "\<not> live_handle (s_queue_heap s' ! p) h" if "length (heap w) \<le> p" "p < length (s_queue_heap s')" for p h
    using r(3) [OF that] by (auto simp: live_handle_def New_def)
  have "conn_ok (s_queue_heap s') (conn w i)" if "i < length (w_conns w)" for i
  proof (rule conn_ok_keeps [where H = "heap w"])
    show "conn_ok (heap w) (conn w i)" using inv that by (simp add: world_inv_def conns_ok_def)
  qed (use r(1) old in blast)+
  moreover have "tally (defers (DRelease p h)) w = (if p < length (s_queue_heap s') \<and> live_handle (s_queue_heap s' ! p) h then 1 else 0)" for p h
  proof -
    have t: "tally (defers (DRelease p h)) w = (if p < length (heap w) \<and> live_handle (heap w ! p) h then 1 else 0)"
      using inv by (simp add: world_inv_def handles_ok_def)
    show ?thesis
    proof (cases "p < length (heap w)")
      case True
      then have "p < length (s_queue_heap s')" using r(1) by linarith
      then show ?thesis using t True old [OF True] by simp
    next
      case False
      then show ?thesis using t new [of p h] by simp
    qed
  qed
  moreover obtain s'' e' where "loadConfig env c openLog (w_srv w) = Inr (s'', e')" "srv_inv s''"
    using loadConfig_total [OF srv assms(2)] by blast
  then have "srv_inv s'" using assms(3) by simp
  moreover have "index_ok (w\<lparr>w_srv := s'\<rparr>)" using inv by (auto simp: world_inv_def ticketed_def intro: index_ok_same [of w])
  ultimately show ?thesis using inv
    by (simp add: world_inv_def conns_ok_def handles_ok_def perIP_ok_def info_ok_def tally_def perIP_count_def)
qed

section \<open>The invariant holds in every run\<close>

lemma world_inv_init: "world_inv NewWorld"
  by (simp add: world_inv_def NewWorld_def srv_inv_NewServer conns_ok_def index_ok_def ticketed_def perIP_ok_def handles_ok_def info_ok_def tally_def
      perIP_count_def) (simp add: NewServer_def)

lemma world_inv_step:
  assumes "world_inv w" "relay_step w w'"
  shows "world_inv w'"
  using assms(2)
proof cases
  case (unwind i)
  then show ?thesis using unwind_inv [OF assms(1)] by fastforce
qed (use assms(1) in \<open>blast intro: accept_inv handle_inv arrive_inv register_inv version_inv module_inv motd_inv list_inv lookup_inv queue_inv limit_inv count_inv
  over_inv acquire_inv status_inv wait_inv remind_inv dial_inv upstream_inv up_version_inv copy_inv tick_inv select_inv finish_inv scrape_inv reload_inv\<close>)+

interpretation relay: transition_system world_init relay_step world_inv
  by unfold_locales (auto simp: world_init_def world_inv_init intro: world_inv_step)

lemmas reachable_world_inv = relay.reachable_inv

section \<open>Slots of the upstream\<close>

text \<open>The connections that talk to the upstream of a queue, or are about to dial it.\<close>

definition upstream_phases :: "phase set" where
  "upstream_phases = insert AtDial up_phases"

definition connected :: "World \<Rightarrow> nat \<Rightarrow> nat list" where
  "connected w p = filter (\<lambda>i. k_pc (conn w i) \<in> upstream_phases \<and> k_queue (conn w i) = p) [0..<length (w_conns w)]"

lemma connected_handle:
  assumes "world_inv w" "i \<in> set (connected w p)"
  shows "i < length (w_conns w)" "p < length (heap w)" "k_handle (conn w i) \<in> set (q_active (heap w ! p))"
    "DRelease p (k_handle (conn w i)) \<in> set (k_defers (conn w i))"
proof -
  have i: "i < length (w_conns w)" "k_pc (conn w i) = AtDial \<or> k_pc (conn w i) \<in> up_phases" "k_queue (conn w i) = p"
    using assms(2) by (auto simp: connected_def upstream_phases_def)
  then have "conn_ok (heap w) (conn w i)" using assms(1) by (simp add: world_inv_def conns_ok_def)
  then have "admitted (heap w) (conn w i) \<and> DRelease p (k_handle (conn w i)) \<in> set (k_defers (conn w i))"
    using i(2,3) up_phase_stack [of "conn w i" "heap w"] by (auto simp: conn_ok_def held_stack_def)
  then show "i < length (w_conns w)" "p < length (heap w)" "k_handle (conn w i) \<in> set (q_active (heap w ! p))"
    "DRelease p (k_handle (conn w i)) \<in> set (k_defers (conn w i))" using i by (auto simp: admitted_def)
qed

lemma connected_bound:
  assumes "world_inv w" "p < length (heap w)"
  shows "length (connected w p) \<le> length (q_active (heap w ! p))"
proof -
  have "inj_on (\<lambda>i. k_handle (conn w i)) (set (connected w p))"
    using connected_handle [OF assms(1)] handle_unique [OF assms(1)] by (intro inj_onI) metis
  then have "card (set (connected w p)) \<le> card (set (q_active (heap w ! p)))"
    using connected_handle(3) [OF assms(1)] by (intro card_inj_on_le) auto
  also have "\<dots> \<le> length (q_active (heap w ! p))" by (rule card_length)
  finally have "card (set (connected w p)) \<le> length (q_active (heap w ! p))" .
  moreover have "distinct (connected w p)" by (simp add: connected_def)
  ultimately show ?thesis by (simp add: distinct_card)
qed

lemma counter_simps [simp]:
  "w_srv (getUpstreamCounters u w) = w_srv w" "w_conns (getUpstreamCounters u w) = w_conns w" "w_srv (add_upstream u f w) = w_srv w" "w_srv (getModuleCounters m u w) = w_srv w" "w_srv (add_module key g w) = w_srv w"
  "w_conns (add_upstream u f w) = w_conns w" "w_conns (getModuleCounters m u w) = w_conns w" "w_conns (add_module key g w) = w_conns w"
  by (simp_all add: add_upstream_def getUpstreamCounters_def getModuleCounters_def add_module_def Let_def)

lemma relay_finish_frame: "w_srv (relay_finish i w) = w_srv w" "w_srv (handleConn i w) = w_srv w"
  by (simp_all add: relay_finish_def handleConn_def Let_def split: phase.split)

lemma nth_update_at: "j < length xs \<Longrightarrow> xs[i := x] ! j = (if i = j then x else xs ! j)"
  by (simp add: nth_list_update)

text \<open>What a step does to an existing queue is one operation of the queue, or nothing.\<close>

lemma step_queue:
  assumes "world_inv w" "relay_step w w'" "p < length (heap w)"
  shows "heap w' ! p = heap w ! p \<or> q_step (heap w ! p) (heap w' ! p)"
  using assms(2)
proof cases
  case (acquire i)
  have "k_queue (conn w i) < length (heap w)" using inv_conn [OF assms(1) acquire(2)] by (auto simp: conn_ok_def)
  then show ?thesis using assms(3) acquire
    by (auto simp: relay_acquire_def Let_def nth_update_at intro: q_step.acquire split: sum.splits prod.splits)
next
  case (status i wr wr')
  then show ?thesis using assms(3)
    by (auto simp: relay_status_def Let_def nth_update_at intro: q_step.receive split: option.splits prod.splits)
next
  case (wait i wr)
  then show ?thesis using assms(3)
    by (auto simp: relay_wait_def Let_def nth_update_at intro: q_step.receive split: option.splits prod.splits)
next
  case (unwind i)
  obtain d ds where s: "k_defers (conn w i) = d # ds" using returning_stack [OF assms(1) unwind(1)] by metis
  then obtain w1 where w1: "run_deferred d i w = Some w1" "heap w' = heap w1" using unwind(2) by (auto simp: unwind_eq)
  show ?thesis
  proof (cases d)
    case (DRelease p' h)
    then obtain q where q: "release h (heap w ! p') = Inr q" "heap w1 = (heap w)[p' := q]" using w1(1) by (auto simp: run_deferred_def split: sum.splits)
    from q_step.release [OF q(1)] show ?thesis using w1(2) q(2) assms(3) by (auto simp: nth_update_at)
  qed (use w1 in \<open>auto simp: run_deferred_def add_perIP_def\<close>)
next
  case (reload c env openLog s' e)
  have "srv_inv (w_srv w)" using assms(1) by (simp add: world_inv_def)
  from reload_queues(2) [OF this reload(2,3)] assms(3) reload(1) show ?thesis by (auto intro: q_step.resize)
qed (auto simp: accept_conn_def relay_register_def relay_lookup_def relay_count_def relay_over_def relay_dial_def relay_tick_def
    relay_finish_frame Let_def split: option.splits sum.splits tick_result.splits)

section \<open>Slots of a client address\<close>

definition holder :: "perIPCountKey \<Rightarrow> World \<Rightarrow> nat \<Rightarrow> bool" where
  "holder key w i \<longleftrightarrow> i < length (w_conns w) \<and> DPerIP key \<in> set (k_defers (conn w i))"

text \<open>No step but the count itself makes a connection a holder or changes the limit a holder was admitted under.\<close>

definition shrinks :: "World \<Rightarrow> World \<Rightarrow> bool" where
  "shrinks w w' \<longleftrightarrow> (\<forall>key j. holder key w' j \<longrightarrow> holder key w j \<and> k_limit (conn w' j) = k_limit (conn w j))"

lemma shrinksD: "shrinks w w' \<Longrightarrow> holder key w' j \<Longrightarrow> holder key w j \<and> k_limit (conn w' j) = k_limit (conn w j)"
  unfolding shrinks_def by blast

lemma put_shrinks:
  assumes "w_conns w1 = w_conns w" "i < length (w_conns w)"
    "\<And>key. DPerIP key \<in> set (k_defers c) \<Longrightarrow> DPerIP key \<in> set (k_defers (conn w i)) \<and> k_limit c = k_limit (conn w i)"
  shows "shrinks w (put i c w1)"
  using assms by (auto simp: shrinks_def holder_def conn_put split: if_splits)

lemma shrinks_refl: "shrinks w w"
  by (simp add: shrinks_def)

lemma base_no_holder: "DPerIP key \<notin> set (base_stack c)"
  by (simp add: base_stack_def)

lemma step_shrinks:
  assumes "world_inv w" "relay_step w w'" "\<forall>i. at w i AtCount \<longrightarrow> w' \<noteq> relay_count i w"
  shows "shrinks w w'"
  using assms(2)
proof cases
  case (accept remote local)
  then show ?thesis by (auto simp: shrinks_def holder_def accept_conn_def nth_append fresh_conn_def split: if_splits)
next
  case (handle i p)
  then show ?thesis by (auto simp: handleConn_def Let_def at_def starting_def intro!: put_shrinks)
next
  case (register i now)
  then show ?thesis 
    by (auto simp: at_def relay_register_def Let_def intro!: put_shrinks shrinks_refl)
next
  case (lookup i wr)
  then show ?thesis
    by (auto simp: relay_lookup_def Let_def at_def intro!: put_shrinks shrinks_refl split: option.splits if_splits)
next
  case (limit i)
  have "k_defers (conn w i) = base_stack (conn w i)" using inv_conn [OF assms(1) limit(2)] by (auto simp: conn_ok_def)
  then show ?thesis using limit base_no_holder
    by (auto simp: at_def relay_limit_def Let_def intro!: put_shrinks shrinks_refl)
next
  case (count i)
  then show ?thesis using assms(3) by blast
next
  case (over i wr)
  then show ?thesis
    by (auto simp: relay_over_def Let_def at_def intro!: put_shrinks shrinks_refl)
next
  case (acquire i)
  then show ?thesis
    by (auto simp: relay_acquire_def Let_def at_def intro!: put_shrinks shrinks_refl split: sum.splits prod.splits)
next
  case (status i wr wr')
  then show ?thesis
    by (auto simp: relay_status_def Let_def at_def intro!: put_shrinks shrinks_refl split: option.splits prod.splits if_splits)
next
  case (wait i wr)
  then show ?thesis
    by (auto simp: relay_wait_def Let_def at_def intro!: put_shrinks shrinks_refl split: option.splits prod.splits if_splits)
next
  case (dial i r)
  then show ?thesis
    by (auto simp: relay_dial_def Let_def at_def intro!: put_shrinks shrinks_refl split: sum.splits)
next
  case (tick i now)
  then show ?thesis
    by (auto simp: relay_tick_def Let_def at_def relaying_def intro!: put_shrinks shrinks_refl split: tick_result.splits)
next
  case (finish i)
  then show ?thesis by (auto simp: relay_finish_def Let_def at_def intro!: put_shrinks shrinks_refl)
next
  case (total i p)
  then show ?thesis by (auto simp: relay_finish_def Let_def at_def totalling_def intro!: put_shrinks)
next
  case (unwind i)
  obtain d ds where i: "i < length (w_conns w)" and s: "k_defers (conn w i) = d # ds" using returning_stack [OF assms(1) unwind(1)] by metis
  then obtain w1 where w1: "run_deferred d i w = Some w1" "w' = put i (popped ds (conn w1 i)) w1" using unwind(2) by (auto simp: unwind_eq)
  have "length (w_conns w1) = length (w_conns w) \<and> (\<forall>k. k_defers (conn w1 k) = k_defers (conn w k) \<and> k_limit (conn w1 k) = k_limit (conn w k))"
    using w1(1) i by (auto simp: run_deferred_def conn_put split: deferred.splits sum.splits)
  then show ?thesis using i s w1(2) by (auto simp: shrinks_def holder_def conn_put split: if_splits)
next
  case (scrape name)
  then show ?thesis by (simp add: shrinks_def holder_def)
next
  case (reload c env openLog s' e)
  then show ?thesis by (simp add: shrinks_def holder_def)
qed (auto simp: at_def relaying_def relay_version_def relay_module_def relay_motd_def relay_list_def relay_queue_def relay_remind_def relay_upstream_def
    relay_up_version_def relay_copy_def relay_copy_end_def relay_select_def Let_def intro!: put_shrinks shrinks_refl
    split: option.splits prod.splits sum.splits if_splits)

text \<open>
  The holders of a key in the order in which they were counted: the \<open>j\<close>-th was admitted under a limit above \<open>j\<close>.
  Fewer than \<open>2^63\<close> connections keep the signed comparison exact.
\<close>

definition ordered_holders :: "World \<Rightarrow> perIPCountKey \<Rightarrow> nat list \<Rightarrow> bool" where
  "ordered_holders w key hs \<longleftrightarrow> distinct hs \<and> set hs = Collect (holder key w) \<and> (\<forall>j<length hs. int j < k_limit (conn w (hs ! j)))"

lemma filter_keeps_bound:
  assumes "\<forall>j<length hs. int j < f (hs ! j)"
  shows "\<forall>j<length (filter P hs). int j < f (filter P hs ! j)"
  using assms
proof (induction hs rule: rev_induct)
  case (snoc h hs)
  have "\<forall>j<length hs. int j < f (hs ! j)"
  proof (intro allI impI)
    fix j assume "j < length hs"
    then show "int j < f (hs ! j)" using snoc.prems [rule_format, of j] by (simp add: nth_append)
  qed
  then have IH: "\<forall>j<length (filter P hs). int j < f (filter P hs ! j)" by (rule snoc.IH)
  have "int (length hs) < f h" using snoc.prems by (metis length_append_singleton lessI nth_append_length)
  moreover have "length (filter P hs) \<le> length hs" by simp
  ultimately have "int (length (filter P hs)) < f h" by linarith
  then show ?case using IH by (auto simp: nth_append less_Suc_eq)
qed simp

lemma shrinks_ordered:
  assumes "shrinks w w'" "ordered_holders w key hs"
  shows "ordered_holders w' key (filter (holder key w') hs)"
proof -
  have "\<forall>j<length (filter (holder key w') hs). int j < k_limit (conn w (filter (holder key w') hs ! j))"
    using filter_keeps_bound [of hs "\<lambda>h. k_limit (conn w h)"] assms(2) by (simp add: ordered_holders_def)
  moreover have "k_limit (conn w' (filter (holder key w') hs ! j)) = k_limit (conn w (filter (holder key w') hs ! j))"
    if "j < length (filter (holder key w') hs)" for j
  proof -
    have "holder key w' (filter (holder key w') hs ! j)" using nth_mem [OF that] by simp
    from shrinksD [OF assms(1) this] show ?thesis by simp
  qed
  moreover have "set (filter (holder key w') hs) = Collect (holder key w')"
    using assms(2) shrinksD [OF assms(1), of key] by (auto simp: ordered_holders_def)
  ultimately show ?thesis using assms(2) by (simp add: ordered_holders_def)
qed

lemma holder_count: "distinct hs \<Longrightarrow> set hs = Collect (holder key w) \<Longrightarrow> length hs \<le> tally (defers (DPerIP key)) w"
proof -
  assume hs: "distinct hs" "set hs = Collect (holder key w)"
  let ?f = "\<lambda>i. if holder key w i then 1 else 0 :: nat"
  have "length hs = card (Collect (holder key w))" using hs by (metis distinct_card)
  also have "\<dots> = card {i \<in> {..<length (w_conns w)}. holder key w i}"
    by (rule arg_cong [where f = card]) (auto simp: holder_def)
  also have "\<dots> = (\<Sum>i<length (w_conns w). ?f i)" by (simp add: sum.If_cases Int_def)
  also have "\<dots> \<le> (\<Sum>i<length (w_conns w). defers (DPerIP key) (conn w i))"
  proof (rule sum_mono)
    fix i show "?f i \<le> defers (DPerIP key) (conn w i)"
      using count_list_0_iff [of "k_defers (conn w i)" "DPerIP key"] by (auto simp: holder_def defers_def)
  qed
  also have "\<dots> = tally (defers (DPerIP key)) w" by (simp add: tally_def sum_list_sum_nth atLeast0LessThan)
  finally show ?thesis .
qed

lemma tally_le: "(\<And>c. f c \<le> g c) \<Longrightarrow> tally f w \<le> tally g w"
  by (simp add: tally_def sum_list_mono)

lemma tally_holds_bound: "world_inv w \<Longrightarrow> tally (holds key) w \<le> length (w_conns w)"
proof -
  assume inv: "world_inv w"
  have "holds key (conn w i) \<le> 1" if "i < length (w_conns w)" for i
  proof (cases "k_pc (conn w i) = AtReturn")
    case True
    then have "suffix (k_defers (conn w i)) (DUp # held_stack (conn w i))" using inv that by (auto simp: world_inv_def conns_ok_def conn_ok_def)
    then obtain zs where "DUp # held_stack (conn w i) = zs @ k_defers (conn w i)" by (auto simp: suffix_def)
    then have "count_list (DUp # held_stack (conn w i)) (DPerIP key) = count_list zs (DPerIP key) + defers (DPerIP key) (conn w i)"
      by (simp only: count_list_append defers_def)
    moreover have "count_list (DUp # held_stack (conn w i)) (DPerIP key) \<le> 1" by (simp add: held_stack_def capped_stack_def base_stack_def)
    ultimately show ?thesis using True by (simp add: holds_def)
  next
    case False
    have "conn_ok (heap w) (conn w i)" using inv that by (simp add: world_inv_def conns_ok_def)
    with False show ?thesis
      by (cases "k_pc (conn w i)") (auto simp: conn_ok_def stack_ok_def base_phases_def holds_def defers_def base_stack_def
          capped_stack_def held_stack_def split: if_splits)
  qed
  then have "(\<Sum>i<length (w_conns w). holds key (conn w i)) \<le> (\<Sum>i<length (w_conns w). 1)" by (intro sum_mono) simp
  then show ?thesis by (simp add: tally_def sum_list_sum_nth atLeast0LessThan)
qed

lemma sint_of_small: "n < 2 ^ 63 \<Longrightarrow> sint (word_of_nat n :: 64 word) = int n"
  by (simp add: signed_of_nat signed_take_bit_int_eq_self)

lemma count_ordered:
  assumes "world_inv w" "at w i AtCount" "length (w_conns w) < 2 ^ 63" "ordered_holders w key hs"
  shows "\<exists>hs'. ordered_holders (relay_count i w) key hs'"
proof -
  let ?c = "conn w i" and ?w1 = "add_perIP (key_of (conn w i)) 1 w" and ?w' = "relay_count i w"
  have i: "i < length (w_conns w)" "k_defers ?c = base_stack ?c" using inv_conn [OF assms(1,2)] by (auto simp: conn_ok_def)
  show ?thesis
  proof (cases "sint (perIP_count (key_of ?c) ?w1) > k_limit ?c \<or> key \<noteq> key_of ?c")
    case True
    have "DPerIP key \<in> set (k_defers (conn ?w' i)) \<Longrightarrow> False"
      using True i base_no_holder by (auto simp: relay_count_def Let_def conn_put split: if_splits)
    moreover have "conn ?w' j = conn w j" if "j \<noteq> i" for j using that i by (simp add: relay_count_def Let_def conn_put)
    ultimately have sub: "holder key w j \<and> k_limit (conn ?w' j) = k_limit (conn w j)" if "holder key ?w' j" for j
      using that i by (cases "j = i") (auto simp: holder_def relay_count_def Let_def split: if_splits)
    have "k_limit (conn ?w' j) = k_limit (conn w j)" for j using i by (simp add: relay_count_def Let_def conn_put)
    moreover have "holder key ?w' j" if "holder key w j" for j
      using that i base_no_holder by (cases "j = i") (auto simp: holder_def relay_count_def Let_def conn_put)
    ultimately have "ordered_holders ?w' key hs" using assms(4) sub by (auto simp: ordered_holders_def)
    then show ?thesis by blast
  next
    case False
    then have key: "key = key_of ?c" and le: "sint (perIP_count key ?w1) \<le> k_limit ?c" by auto
    have w': "?w' = put i (?c\<lparr>k_defers := DPerIP key # k_defers ?c, k_pc := AtAcquire\<rparr>) ?w1"
      using False key by (simp add: relay_count_def Let_def)
    have new: "i \<notin> set hs" using assms(4) i base_no_holder by (simp add: ordered_holders_def holder_def)
    have holders: "holder key ?w' j \<longleftrightarrow> j = i \<or> holder key w j" for j
      unfolding w' using i by (auto simp: holder_def conn_put)
    have set: "set (hs @ [i]) = Collect (holder key ?w')" "distinct (hs @ [i])"
      using assms(4) new holders by (auto simp: ordered_holders_def)
    have inv': "world_inv ?w'" by (rule count_inv [OF assms(1,2)])
    then have "perIP_count key ?w' = word_of_nat (tally (holds key) ?w')" unfolding world_inv_def perIP_ok_def by blast
    moreover have "perIP_count key ?w' = perIP_count key ?w1" by (simp add: w' perIP_count_def)
    moreover have "tally (holds key) ?w' < 2 ^ 63" using tally_holds_bound [OF inv', of key] assms(3) by (simp add: w')
    ultimately have "int (tally (holds key) ?w') \<le> k_limit ?c" using le by (metis sint_of_small)
    moreover have "length (hs @ [i]) \<le> tally (holds key) ?w'"
      using holder_count [OF set(2,1)] tally_le [of "defers (DPerIP key)" "holds key" ?w'] by (simp add: holds_def)
    ultimately have "int (length hs) < k_limit ?c" by simp
    moreover have "k_limit (conn ?w' j) = k_limit (conn w j)" for j unfolding w' using i by (simp add: conn_put)
    ultimately have "\<forall>j<length (hs @ [i]). int j < k_limit (conn ?w' ((hs @ [i]) ! j))"
      using assms(4) by (auto simp: ordered_holders_def nth_append less_Suc_eq)
    then have "ordered_holders ?w' key (hs @ [i])" using set unfolding ordered_holders_def by blast
    then show ?thesis by blast
  qed
qed

lemma step_conns_grow: "relay_step w w' \<Longrightarrow> length (w_conns w) \<le> length (w_conns w')"
proof (induction rule: relay_step.cases)
  case (unwind w i w')
  then show ?case by (auto simp: unwind_def run_deferred_def split: list.splits deferred.splits sum.splits)
qed (auto simp: accept_conn_def handleConn_def relay_register_def relay_lookup_def relay_count_def relay_over_def relay_acquire_def relay_status_def
    relay_wait_def relay_dial_def relay_tick_def relay_finish_def Let_def
    split: option.splits sum.splits prod.splits tick_result.splits phase.splits)

definition holders_inv :: "World \<Rightarrow> bool" where
  "holders_inv w \<longleftrightarrow> world_inv w \<and> (length (w_conns w) < 2 ^ 63 \<longrightarrow> (\<forall>key. \<exists>hs. ordered_holders w key hs))"

interpretation holders: transition_system world_init relay_step holders_inv
proof unfold_locales
  have "ordered_holders NewWorld key []" for key by (simp add: ordered_holders_def holder_def NewWorld_def)
  then show "holders_inv w" if "world_init w" for w
    using that world_inv_init unfolding world_init_def holders_inv_def by blast
  show "holders_inv w'" if inv: "holders_inv w" and step: "relay_step w w'" for w w'
  proof -
    have w: "world_inv w" using inv by (simp add: holders_inv_def)
    have "\<exists>hs. ordered_holders w' key hs" if "length (w_conns w') < 2 ^ 63" for key
    proof -
      have len: "length (w_conns w) < 2 ^ 63" using step_conns_grow [OF step] that by linarith
      obtain hs where hs: "ordered_holders w key hs" using inv len unfolding holders_inv_def by blast
      show ?thesis
      proof (cases "\<exists>i. at w i AtCount \<and> w' = relay_count i w")
        case True
        then show ?thesis using count_ordered [OF w _ len hs] by blast
      next
        case False
        then show ?thesis using shrinks_ordered [OF step_shrinks [OF w step] hs] by blast
      qed
    qed
    then show ?thesis using world_inv_step [OF w step] unfolding holders_inv_def by blast
  qed
qed

lemma per_ip_bound:
  assumes "world_reachable w" "length (w_conns w) < 2 ^ 63" "\<And>i. holder key w i \<Longrightarrow> k_limit (conn w i) \<le> L"
  shows "card (Collect (holder key w)) \<le> nat L"
proof -
  obtain hs where hs: "ordered_holders w key hs" using holders.reachable_inv [OF assms(1)] assms(2) unfolding holders_inv_def by blast
  then have c: "card (Collect (holder key w)) = length hs" by (metis distinct_card ordered_holders_def)
  show ?thesis
  proof (cases hs rule: rev_cases)
    case (snoc hs' h)
    then have "int (length hs') < k_limit (conn w h)" "holder key w h" using hs by (auto simp: ordered_holders_def nth_append)
    with assms(3) [of h] show ?thesis using c snoc by simp
  qed (use c in simp)
qed
end
