(* ===== verification/RelayProperties.thy ===== *)
theory RelayProperties
  imports RelaySafety
begin

text \<open>
  What the invariant of \<open>RelaySafety\<close> gives for runs of the server: nothing leaks, an upstream never
  serves more connections than its queue admits, a client address never holds more slots than its
  limit, a waiting client is told the truth, and a connection that returns finishes.
  \<open>exec\<close> computes the step that an event causes; the sample run is computed with it.
\<close>

section \<open>Runs as functions\<close>

datatype action =
    Accept Addr Addr
  | Arrive nat segment
  | ArriveUp nat segment
  | Step nat int "string option" "string option" "string + Addr"
  | Remind nat "string option"
  | Copy nat bool string "nat option" int
  | CopyEnd nat bool
  | Tick nat int
  | Reload Env Config bool

text \<open>\<open>Step\<close> lets a connection do what its program counter asks for; the other events come from outside.\<close>

definition exec_step :: "nat \<Rightarrow> int \<Rightarrow> string option \<Rightarrow> string option \<Rightarrow> string + Addr \<Rightarrow> World \<Rightarrow> World option" where
  "exec_step i now wr wr' r w =
     (case k_pc (conn w i) of
        AtStart \<Rightarrow> Some (handleConn i w)
      | AtAccepted \<Rightarrow> Some (handleConn i w)
      | AtIndex \<Rightarrow> Some (handleConn i w)
      | AtRegister \<Rightarrow> Some (relay_register now i w)
      | AtVersion \<Rightarrow> Some (put i (relay_version wr (conn w i)) w)
      | AtModule \<Rightarrow> Some (put i (relay_module (conn w i)) w)
      | AtMotd \<Rightarrow> Some (put i (relay_motd (w_srv w) wr (conn w i)) w)
      | AtList \<Rightarrow> Some (put i (relay_list (w_srv w) wr (conn w i)) w)
      | AtLookup \<Rightarrow> Some (relay_lookup wr i w)
      | AtQueue \<Rightarrow> Some (put i (relay_queue (w_srv w) (conn w i)) w)
      | AtLimit \<Rightarrow> Some (put i (relay_limit (w_srv w) (conn w i)) w)
      | AtCount \<Rightarrow> Some (relay_count i w)
      | AtOver \<Rightarrow> Some (relay_over wr i w)
      | AtAcquire \<Rightarrow> Some (relay_acquire i w)
      | AtStatus \<Rightarrow> Some (relay_status wr wr' i w)
      | AtWait \<Rightarrow> Some (relay_wait wr i w)
      | AtDial \<Rightarrow> Some (relay_dial r i w)
      | AtUpstream \<Rightarrow> Some (put i (relay_upstream wr wr' (conn w i)) w)
      | AtUpVersion \<Rightarrow> Some (put i (relay_up_version (w_srv w) now wr wr' (conn w i)) w)
      | AtRelay \<Rightarrow>
          (if k_recvClosed (conn w i) \<or> k_sentClosed (conn w i)
           then Some (put i (relay_select (k_recvClosed (conn w i)) (conn w i)) w) else None)
      | AtDrain \<Rightarrow> (if k_sentClosed (conn w i) \<and> k_recvClosed (conn w i) then Some (relay_finish i w) else None)
      | AtReturn \<Rightarrow> unwind i w
      | Finished \<Rightarrow> None
      | _ \<Rightarrow> Some (relay_finish i w))"

fun exec :: "action \<Rightarrow> World \<Rightarrow> World option" where
  "exec (Accept remote local) w = Some (accept_conn remote local w)"
| "exec (Arrive i seg) w =
     (if i < length (w_conns w) then Some (put i ((conn w i)\<lparr>k_in := k_in (conn w i) @ [seg]\<rparr>) w) else None)"
| "exec (ArriveUp i seg) w =
     (if i < length (w_conns w) then Some (put i ((conn w i)\<lparr>k_upIn := k_upIn (conn w i) @ [seg]\<rparr>) w) else None)"
| "exec (Step i now wr wr' r) w = (if i < length (w_conns w) then exec_step i now wr wr' r w else None)"
| "exec (Remind i wr) w = (if at w i AtWait then Some (put i (relay_remind wr (conn w i)) w) else None)"
| "exec (Copy i up data wr now) w =
     (if relaying w i \<and> reading up (conn w i) then Some (put i (relay_copy up data wr now (conn w i)) w) else None)"
| "exec (CopyEnd i up) w = (if relaying w i then Some (put i (relay_copy_end up (conn w i)) w) else None)"
| "exec (Tick i now) w =
     (if i < length (w_conns w) \<and> \<not> k_killed (conn w i) \<and> watcherEnabled (k_timings (conn w i)) then Some (relay_tick now i w) else None)"
| "exec (Reload env c openLog) w =
     (if gm_wf (c_Upstreams c) then
        (case loadConfig env c openLog (w_srv w) of Inl e \<Rightarrow> None | Inr (s', e) \<Rightarrow> Some (w\<lparr>w_srv := s'\<rparr>))
      else None)"

lemma exec_step_sound: "i < length (w_conns w) \<Longrightarrow> exec_step i now wr wr' r w = Some w' \<Longrightarrow> relay_step w w'"
  by (cases "k_pc (conn w i)")
    (auto simp: exec_step_def at_def starting_def totalling_def intro: relay_step.intros split: if_splits)

lemma exec_sound: "exec a w = Some w' \<Longrightarrow> relay_step w w'"
  by (cases a) (auto intro: relay_step.intros exec_step_sound split: if_splits sum.splits)

fun run :: "action list \<Rightarrow> World \<Rightarrow> World option" where
  "run [] w = Some w"
| "run (a # as) w = Option.bind (exec a w) (run as)"

lemma run_append: "run (as @ bs) w = Option.bind (run as w) (run bs)"
  by (induction as arbitrary: w) (auto simp: bind_eq_Some_conv split: option.splits bind_splits)

lemma run_reachable: "world_reachable w \<Longrightarrow> run as w = Some w' \<Longrightarrow> world_reachable w'"
proof (induction as arbitrary: w)
  case (Cons a as)
  then obtain w1 where "exec a w = Some w1" "run as w1 = Some w'" by (auto simp: bind_eq_Some_conv)
  with Cons show ?case by (blast intro: reachable_from.move exec_sound)
qed simp

lemma NewWorld_reachable: "world_reachable NewWorld"
  by (rule reachable_from.start) (simp add: world_init_def)

section \<open>A sample run\<close>

text \<open>One client of the module \<open>debian\<close>, under a limit of one connection per address, up to a chosen point.\<close>

definition relay_conf :: Config where
  "relay_conf = conf0\<lparr>c_Proxy := (c_Proxy conf0)\<lparr>ps_PerIPMaxActiveConns := 1\<rparr>\<rparr>"

definition line :: "string \<Rightarrow> segment" where
  "line s = (s @ [lineFeed], None)"

definition go :: "nat \<Rightarrow> action" where
  "go i = Step i 0 None None (Inr (TCPAddr [10, 0, 0, 2] 873))"

definition client_script :: "action list" where
  "client_script = [Reload env0 relay_conf False, Accept (TCPAddr [10, 0, 0, 7] 40000) (TCPAddr [10, 0, 0, 1] 873),
     go 0, go 0, go 0, go 0, Arrive 0 (line ''@RSYNCD: 31.0''), go 0, Arrive 0 (line ''debian'')] @ replicate 8 (go 0)"

definition relay_script :: "action list" where
  "relay_script = [go 0, go 0, ArriveUp 0 (line ''@RSYNCD: 31.0''), go 0, Copy 0 True ''list'' None 5,
     Copy 0 False ''data!'' None 6, CopyEnd 0 False]"

definition finish_script :: "action list" where
  "finish_script = client_script @ relay_script @ [go 0, CopyEnd 0 True] @ replicate 13 (go 0)"

lemma finish_script_runs:
  "case run finish_script NewWorld of None \<Rightarrow> False
   | Some w \<Rightarrow> list_all (\<lambda>c. k_pc c = Finished) (w_conns w) \<and> w_completedConnCount w = 1 \<and> w_sentBytesTotal w = 5 \<and> length (w_conns w) = 1"
  by code_simp

lemma client_script_runs:
  "case run client_script NewWorld of None \<Rightarrow> False
   | Some w \<Rightarrow> at w 0 AtDial \<and> DPerIP (''a'', ''10.0.0.7'') \<in> set (k_defers (conn w 0)) \<and> length (w_conns w) = 1 \<and>
       k_limit (conn w 0) = 1 \<and> k_queue (conn w 0) = 0 \<and> length (heap w) = 2"
  by code_simp

lemma status_script_runs:
  "case run (take 16 client_script) NewWorld of None \<Rightarrow> False
   | Some w \<Rightarrow> at w 0 AtStatus \<and> (case recv (k_handle (conn w 0)) (heap w ! k_queue (conn w 0)) of None \<Rightarrow> False | Some (st, q) \<Rightarrow> st_Ok st)"
  by code_simp

lemma script_world:
  assumes "case run as NewWorld of None \<Rightarrow> False | Some w \<Rightarrow> P w"
  shows "\<exists>w. world_reachable w \<and> P w \<and> run as NewWorld = Some w"
  using assms run_reachable [OF NewWorld_reachable] by (cases "run as NewWorld") auto

section \<open>Counting the active connections\<close>

lemma inv_conns: "world_inv w \<Longrightarrow> c \<in> set (w_conns w) \<Longrightarrow> conn_ok (heap w) c"
  by (metis conns_ok_def in_set_conv_nth world_inv_def)

lemma active_iff_running:
  assumes "conn_ok H c"
  shows "defers DActive c = (if k_pc c \<noteq> AtStart \<and> k_pc c \<noteq> Finished then 1 else 0)"
proof (cases "k_pc c = AtReturn")
  case True
  then have "k_defers c \<noteq> []" "suffix (k_defers c) (DUp # held_stack c)" using assms by (auto simp: conn_ok_def)
  then obtain zs where zs: "DUp # held_stack c = zs @ k_defers c" by (auto simp: suffix_def)
  have "last (k_defers c) = DActive" using zs \<open>k_defers c \<noteq> []\<close>
    by (metis base_stack_def capped_stack_def held_stack_def last.simps last_appendR list.distinct(1) append_is_Nil_conv)
  then have "DActive \<in> set (k_defers c)" using \<open>k_defers c \<noteq> []\<close> by (metis last_in_set)
  then have "0 < defers DActive c" using count_list_0_iff [of "k_defers c" DActive] by (simp add: defers_def)
  moreover have "count_list (DUp # held_stack c) DActive = 1" by (simp add: held_stack_def capped_stack_def base_stack_def)
  then have "defers DActive c \<le> 1" unfolding zs by (simp add: defers_def)
  ultimately show ?thesis using True by simp
next
  case False
  then show ?thesis using assms
    by (cases "k_pc c") (auto simp: conn_ok_def stack_ok_def defers_def base_stack_def capped_stack_def held_stack_def split: if_splits)
qed

lemma sum_list_indicator: "sum_list (map (\<lambda>x. if P x then 1 else 0) xs) = length (filter P xs)"
  by (induction xs) simp_all

text \<open>The connections whose goroutine has counted itself and has not finished.\<close>

definition running :: "World \<Rightarrow> nat" where
  "running w = length (filter (\<lambda>c. k_pc c \<noteq> AtStart \<and> k_pc c \<noteq> Finished) (w_conns w))"

lemma active_count:
  assumes "world_inv w"
  shows "tally (defers DActive) w = running w"
proof -
  have "map (defers DActive) (w_conns w) = map (\<lambda>c. if k_pc c \<noteq> AtStart \<and> k_pc c \<noteq> Finished then 1 else 0) (w_conns w)"
    using active_iff_running [OF inv_conns [OF assms]] by simp
  then have "tally (defers DActive) w = sum_list (map (\<lambda>c. if k_pc c \<noteq> AtStart \<and> k_pc c \<noteq> Finished then 1 else 0) (w_conns w))"
    unfolding tally_def by (rule arg_cong)
  also have "\<dots> = running w" unfolding running_def by (rule sum_list_indicator)
  finally show ?thesis .
qed

definition GetActiveConnectionCount :: "World \<Rightarrow> int" where
  "GetActiveConnectionCount w = sint (w_activeConnCount w)"

lemma active_count_exact:
  assumes "world_reachable w" "length (w_conns w) < 2 ^ 63"
  shows "GetActiveConnectionCount w = int (running w)"
proof -
  have inv: "world_inv w" using assms(1) by (rule reachable_world_inv)
  have "running w < 2 ^ 63" using assms(2) by (metis le_less_trans length_filter_le running_def)
  then show ?thesis using inv active_count [OF inv] by (simp add: GetActiveConnectionCount_def world_inv_def sint_of_small)
qed

lemma step_heap_grows:
  assumes "world_inv w" "relay_step w w'"
  shows "length (heap w) \<le> length (heap w')"
  using assms(2)
proof cases
  case (unwind i)
  then show ?thesis by (auto simp: unwind_def run_deferred_def split: list.splits deferred.splits sum.splits)
next
  case (reload c env openLog s' e)
  have "srv_inv (w_srv w)" using assms(1) by (simp add: world_inv_def)
  from reload_queues(1) [OF this reload(2,3)] reload(1) show ?thesis by simp
qed (auto simp: accept_conn_def relay_finish_frame relay_register_def relay_lookup_def relay_count_def relay_over_def relay_acquire_def
    relay_status_def relay_wait_def relay_dial_def relay_tick_def Let_def split: option.splits sum.splits prod.splits tick_result.splits)

section \<open>Properties\<close>

text \<open>C3: Nothing leaks: when the last connection has finished, whatever way each of them took through \<open>relay\<close>, the active count is
  zero, every per-IP counter is zero, no queue has an active or waiting client, and no connection info is listed.\<close>

theorem nothing_leaks:
  assumes "world_reachable w" "\<forall>c\<in>set (w_conns w). k_pc c = Finished"
  shows "w_activeConnCount w = 0 \<and> (\<forall>key. perIP_count key w = 0) \<and>
    (\<forall>q\<in>set (heap w). q_active q = [] \<and> q_queued q = []) \<and> (length (w_conns w) < 2 ^ 32 \<longrightarrow> w_connInfo w = [])"
proof -
  have inv: "world_inv w" using assms(1) by (rule reachable_world_inv)
  have empty: "k_defers c = []" if "c \<in> set (w_conns w)" for c
    using inv_conns [OF inv that] assms(2) that by (simp add: conn_ok_def)
  have zero: "tally f w = 0" if "\<And>c. k_defers c = [] \<Longrightarrow> k_pc c = Finished \<Longrightarrow> f c = 0" for f
    using that empty assms(2) by (simp add: tally_def)
  have "q_active (heap w ! p) = [] \<and> q_queued (heap w ! p) = []" if p: "p < length (heap w)" for p
  proof -
    have "tally (defers (DRelease p h)) w = 0" for h by (rule zero) (simp add: defers_def)
    moreover have "tally (defers (DRelease p h)) w = (if p < length (heap w) \<and> live_handle (heap w ! p) h then 1 else 0)" for h
      using inv by (simp add: world_inv_def handles_ok_def)
    ultimately have "\<not> live_handle (heap w ! p) h" for h using p by (metis zero_neq_one)
    moreover have "live_handle (heap w ! p) h" if "h \<in> set (q_active (heap w ! p) @ q_queued (heap w ! p))" for h
      using inv_queue [OF inv p] that by (auto simp: live_handle_def aq_inv_def aq_pre_def)
    ultimately show ?thesis by (metis Nil_is_append_conv last_in_set)
  qed
  moreover have "w_activeConnCount w = 0" using inv zero [of "defers DActive"] by (simp add: world_inv_def defers_def)
  moreover have "perIP_count key w = 0" for key
  proof -
    have "tally (holds key) w = 0" by (rule zero) (simp add: holds_def defers_def)
    moreover have "perIP_count key w = word_of_nat (tally (holds key) w)" using inv unfolding world_inv_def perIP_ok_def by blast
    ultimately show ?thesis by simp
  qed
  moreover have "w_connInfo w = []" if "length (w_conns w) < 2 ^ 32"
  proof -
    have "map_of (w_connInfo w) idx \<noteq> Some i" for idx i
    proof
      assume "map_of (w_connInfo w) idx = Some i"
      then have "i < length (w_conns w)" "DConnInfo idx \<in> set (k_defers (conn w i))"
        using inv that unfolding world_inv_def info_ok_def by blast+
      then show False using empty [OF nth_mem] by simp
    qed
    then have "map_of (w_connInfo w) = Map.empty" by (metis not_None_eq ext)
    then show ?thesis by (metis map_of_eq_empty_iff)
  qed
  ultimately show ?thesis by (auto simp: in_set_conv_nth)
qed

theorem nothing_leaks_witness:
  "\<exists>w. run finish_script NewWorld = Some w \<and> w_completedConnCount w = 1 \<and> w_activeConnCount w = 0 \<and>
     (\<forall>key. perIP_count key w = 0) \<and> w_connInfo w = []"
proof -
  obtain w where w: "world_reachable w" "run finish_script NewWorld = Some w" "list_all (\<lambda>c. k_pc c = Finished) (w_conns w)"
    "w_completedConnCount w = 1" "length (w_conns w) = 1"
    using script_world [OF finish_script_runs] by blast
  have "\<forall>c\<in>set (w_conns w). k_pc c = Finished" using w(3) by (simp add: list_all_iff)
  from nothing_leaks [OF w(1) this] w(2,4,5) show ?thesis by simp
qed


lemma dial_script_runs:
  "case run client_script NewWorld of None \<Rightarrow> False
   | Some w \<Rightarrow> at w 0 AtDial \<and> 0 < length (heap w) \<and> q_max (heap w ! 0) = 2 \<and> q_active (heap w ! 0) = [0] \<and>
       connected (relay_dial (Inr (TCPAddr [10, 0, 0, 2] 873)) 0 w) 0 = [0]"
  by code_simp


text \<open>C5: A client address never holds more slots of an upstream than its limit: if every connection of the address that passed the
  check did so under a limit of at most \<open>L\<close>, at most \<open>L\<close> of them exist at a time, waiting ones included.\<close>

theorem per_ip_limit_holds:
  assumes "world_reachable w" "length (w_conns w) < 2 ^ 63"
    and "\<forall>i. holder (u, ip) w i \<longrightarrow> k_limit (conn w i) \<le> L"
  shows "card {i. holder (u, ip) w i} \<le> nat L"
  using per_ip_bound [OF assms(1,2), of "(u, ip)" L] assms(3) by blast

theorem per_ip_limit_holds_witness:
  "\<exists>w. run client_script NewWorld = Some w \<and> holder (''a'', ''10.0.0.7'') w 0 \<and> card {i. holder (''a'', ''10.0.0.7'') w i} \<le> 1"
proof -
  obtain w where w: "world_reachable w" "run client_script NewWorld = Some w" "DPerIP (''a'', ''10.0.0.7'') \<in> set (k_defers (conn w 0))"
    "length (w_conns w) = 1" "k_limit (conn w 0) = 1"
    using script_world [OF client_script_runs] by blast
  have "\<forall>i. holder (''a'', ''10.0.0.7'') w i \<longrightarrow> k_limit (conn w i) \<le> 1" using w(4,5) by (simp add: holder_def)
  with per_ip_limit_holds [OF w(1), of "''a''" "''10.0.0.7''" 1] w(4) have "card {i. holder (''a'', ''10.0.0.7'') w i} \<le> 1" by simp
  moreover have "holder (''a'', ''10.0.0.7'') w 0" using w(3,4) unfolding holder_def by (metis zero_less_one)
  ultimately show ?thesis using w(2) by blast
qed

text \<open>C6: A client is told the truth about its place: what its connection receives grants it exactly when it holds a slot, refuses it
  exactly when it is in neither list of the queue, which never happens to a client that was told to wait, and otherwise carries
  its place in the waiting list plus the surplus of running clients over the limit.\<close>

theorem client_is_told_the_truth:
  assumes "world_reachable w" "at w i AtStatus \<or> at w i AtWait"
    and "recv (k_handle (conn w i)) (heap w ! k_queue (conn w i)) = Some (st, q')"
  defines "q \<equiv> heap w ! k_queue (conn w i)"
  shows "(st_Ok st \<longleftrightarrow> k_handle (conn w i) \<in> set (q_active q)) \<and> (st_Full st \<longleftrightarrow> \<not> listed q (k_handle (conn w i))) \<and>
    (at w i AtWait \<longrightarrow> \<not> st_Full st) \<and>
    (\<not> st_Ok st \<and> \<not> st_Full st \<longrightarrow> (\<exists>n<length (q_queued q). q_queued q ! n = k_handle (conn w i) \<and> st_Index st = surplus q + int n))"
proof -
  have inv: "world_inv w" using assms(1) by (rule reachable_world_inv)
  have i: "i < length (w_conns w)" "k_defers (conn w i) = held_stack (conn w i)" "k_queue (conn w i) < length (heap w)" "unread q (k_handle (conn w i))"
    using inv_conn [OF inv, of i AtStatus] inv_conn [OF inv, of i AtWait] assms(2) by (auto simp: conn_ok_def q_def)
  have live: "live_handle q (k_handle (conn w i))"
    unfolding q_def using i by (intro handle_live(2) [OF inv i(1)]) (simp add: held_stack_def)
  have reach: "q_reachable q" "aq_inv q" using inv_queue [OF inv i(3)] by (simp_all add: q_def)
  then have disj: "\<And>c. c \<in> set (q_queued q) \<Longrightarrow> c \<notin> set (q_active q)" by (auto simp: aq_inv_def aq_pre_def)
  from recv_outcome [OF reach(1) live i(4) assms(3) [folded q_def]] show ?thesis
  proof (elim disjE)
    assume "k_handle (conn w i) \<in> set (q_active q) \<and> st = ok_status"
    then show ?thesis by (auto simp: listed_def zero_status_def)
  next
    assume *: "\<exists>n<length (q_queued q). q_queued q ! n = k_handle (conn w i) \<and> \<not> st_Ok st \<and> \<not> st_Full st \<and> st_Index st = surplus q + int n \<and>
      unread q' (k_handle (conn w i))"
    then have "k_handle (conn w i) \<in> set (q_queued q)" by (metis nth_mem)
    then show ?thesis using * disj by (auto simp: listed_def)
  next
    assume *: "k_handle (conn w i) \<notin> set (q_active q) \<and> k_handle (conn w i) \<notin> set (q_queued q) \<and> st = full_status"
    then have "\<not> at w i AtWait" using waiting_not_refused [OF inv _ assms(3)] by auto
    then show ?thesis using * by (auto simp: listed_def zero_status_def)
  qed
qed

theorem client_is_told_the_truth_witness:
  "\<exists>w st q. run (take 16 client_script) NewWorld = Some w \<and> recv (k_handle (conn w 0)) (heap w ! k_queue (conn w 0)) = Some (st, q) \<and>
     st_Ok st \<and> k_handle (conn w 0) \<in> set (q_active (heap w ! k_queue (conn w 0)))"
proof -
  obtain w where w: "world_reachable w" "run (take 16 client_script) NewWorld = Some w" "at w 0 AtStatus"
    "case recv (k_handle (conn w 0)) (heap w ! k_queue (conn w 0)) of None \<Rightarrow> False | Some (st, q) \<Rightarrow> st_Ok st"
    using script_world [OF status_script_runs] by blast
  from w(4) obtain st q where r: "recv (k_handle (conn w 0)) (heap w ! k_queue (conn w 0)) = Some (st, q)" "st_Ok st"
    by (auto split: option.splits)
  from client_is_told_the_truth [OF w(1) disjI1 [OF w(3)] r(1)] r w(2) show ?thesis by blast
qed

lemma unwinding_finishes:
  assumes "n = length (k_defers (conn w i))" "world_inv w" "at w i AtReturn"
  shows "\<exists>w'. run (replicate n (Step i now wr wr' r)) w = Some w' \<and> at w' i Finished"
  using assms
proof (induction n arbitrary: w)
  case 0
  then show ?case using inv_conn [of w i AtReturn] by (auto simp: conn_ok_def)
next
  case (Suc n)
  obtain w1 where w1: "unwind i w = Some w1" "world_inv w1" "k_defers (conn w1 i) = tl (k_defers (conn w i))"
    "k_pc (conn w1 i) = (if tl (k_defers (conn w i)) = [] then Finished else AtReturn)" "i < length (w_conns w1)"
    using unwind_inv [OF Suc.prems(2,3)] by blast
  have ex: "exec (Step i now wr wr' r) w = Some w1" using Suc.prems(3) w1(1) by (simp add: exec_step_def at_def)
  have n: "n = length (k_defers (conn w1 i))" using Suc.prems(1) w1(3) by simp
  show ?case
  proof (cases "tl (k_defers (conn w i)) = []")
    case True
    then have "n = 0" using n w1(3) by simp
    then show ?thesis using ex w1(4,5) True by (simp add: at_def)
  next
    case False
    with Suc.IH [OF n w1(2)] w1(4,5) ex show ?thesis by (simp add: at_def)
  qed
qed

text \<open>Once a copy has ended, the relay closes the connection that the other copy reads, which can only end as well.\<close>

definition relay_ended :: "World \<Rightarrow> nat \<Rightarrow> bool" where
  "relay_ended w i \<longleftrightarrow> at w i AtRelay \<and> (k_recvClosed (conn w i) \<or> k_sentClosed (conn w i))"

lemma ended_relay_drains:
  assumes "relay_ended w i" "exec (Step i now wr wr' r) w = Some w'"
  shows "at w' i AtDrain \<and> \<not> reading (k_recvClosed (conn w i)) (conn w' i)"
  using assms by (auto simp: relay_ended_def at_def exec_step_def relay_select_def reading_def conn_put)

lemma totals_return:
  assumes "at w i AtSentTotal"
  shows "\<exists>w'. run (replicate 6 (Step i now wr wr' r)) w = Some w' \<and> at w' i AtReturn \<and> k_defers (conn w' i) = k_defers (conn w i)"
  using assms by (simp add: numeral_eq_Suc at_def exec_step_def relay_finish_def Let_def conn_put)

lemma ended_relay_returns:
  assumes "relay_ended w i"
  shows "\<exists>w'. run ([Step i now wr wr' r, CopyEnd i True, CopyEnd i False] @ replicate 7 (Step i now wr wr' r)) w = Some w' \<and>
    at w' i AtReturn \<and> k_defers (conn w' i) = k_defers (conn w i)"
proof -
  have "\<exists>w1. run [Step i now wr wr' r, CopyEnd i True, CopyEnd i False] w = Some w1 \<and> at w1 i AtDrain \<and>
      k_sentClosed (conn w1 i) \<and> k_recvClosed (conn w1 i) \<and> k_defers (conn w1 i) = k_defers (conn w i)"
    using assms by (auto simp: relay_ended_def at_def relaying_def exec_step_def relay_select_def relay_copy_end_def conn_put)
  then obtain w1 where w1: "run [Step i now wr wr' r, CopyEnd i True, CopyEnd i False] w = Some w1" "at w1 i AtDrain"
    "k_sentClosed (conn w1 i)" "k_recvClosed (conn w1 i)" "k_defers (conn w1 i) = k_defers (conn w i)" by blast
  obtain w2 where "exec (Step i now wr wr' r) w1 = Some w2" "at w2 i AtSentTotal" "k_defers (conn w2 i) = k_defers (conn w i)"
    using w1(2-5) by (auto simp: at_def exec_step_def relay_finish_def Let_def conn_put)
  then have "\<exists>w'. run (replicate 7 (Step i now wr wr' r)) w1 = Some w' \<and> at w' i AtReturn \<and> k_defers (conn w' i) = k_defers (conn w i)"
    using totals_return [of w2 i now wr wr' r] by (simp add: numeral_eq_Suc)
  then show ?thesis unfolding run_append w1(1) by simp
qed

text \<open>C7: A connection that returns finishes: its deferred calls run one after the other, none of them panics or blocks, and after
  as many steps as there are deferred calls it is gone. A relay one of whose copies has ended does not wait for the other end to
  say more: it closes the connection that the other copy reads, and once that copy has ended it adds to the totals in seven steps, returns
  and finishes.\<close>

theorem returning_connection_finishes:
  fixes i :: nat and now :: int and wr wr' :: "string option" and r :: "string + Addr"
  assumes "world_reachable w"
  defines "step \<equiv> Step i now wr wr' r"
  shows "(at w i AtReturn \<longrightarrow> (\<exists>w'. run (replicate (length (k_defers (conn w i))) step) w = Some w' \<and> at w' i Finished)) \<and>
    (relay_ended w i \<longrightarrow>
      (\<exists>w1. exec step w = Some w1 \<and> \<not> reading (k_recvClosed (conn w i)) (conn w1 i)) \<and>
      (\<exists>w'. run ([step, CopyEnd i True, CopyEnd i False] @ replicate (7 + length (k_defers (conn w i))) step) w = Some w' \<and>
        at w' i Finished))"
proof (intro conjI impI)
  show "\<exists>w'. run (replicate (length (k_defers (conn w i))) step) w = Some w' \<and> at w' i Finished" if "at w i AtReturn"
    unfolding step_def using unwinding_finishes [OF refl reachable_world_inv [OF assms(1)] that] .
  assume ended: "relay_ended w i"
  from ended_relay_returns [OF this] obtain w1 where w1: "run ([step, CopyEnd i True, CopyEnd i False] @ replicate 7 step) w = Some w1"
    "at w1 i AtReturn" "k_defers (conn w1 i) = k_defers (conn w i)" unfolding step_def by blast
  from w1(1) obtain w2 where "exec step w = Some w2" by (cases "exec step w") simp_all
  then show "\<exists>w1. exec step w = Some w1 \<and> \<not> reading (k_recvClosed (conn w i)) (conn w1 i)"
    using ended_relay_drains [OF ended] unfolding step_def by blast
  have "world_inv w1" using run_reachable [OF assms(1) w1(1)] by (rule reachable_world_inv)
  from unwinding_finishes [OF refl this w1(2)] obtain wf where wf: "run (replicate (length (k_defers (conn w i))) step) w1 = Some wf" "at wf i Finished"
    unfolding step_def w1(3) by blast
  have "run (([step, CopyEnd i True, CopyEnd i False] @ replicate 7 step) @ replicate (length (k_defers (conn w i))) step) w = Some wf"
    unfolding run_append [of "[step, CopyEnd i True, CopyEnd i False] @ replicate 7 step"] w1(1) using wf(1) by simp
  then show "\<exists>w'. run ([step, CopyEnd i True, CopyEnd i False] @ replicate (7 + length (k_defers (conn w i))) step) w = Some w' \<and> at w' i Finished"
    using wf(2) unfolding replicate_add append_assoc by blast
qed

lemma return_script_runs:
  "case run (client_script @ relay_script) NewWorld of None \<Rightarrow> False | Some w \<Rightarrow> relay_ended w 0 \<and> length (k_defers (conn w 0)) = 6"
  by code_simp

theorem returning_connection_finishes_witness:
  "\<exists>w w'. run (client_script @ relay_script) NewWorld = Some w \<and>
     run ([go 0, CopyEnd 0 True, CopyEnd 0 False] @ replicate (7 + 6) (go 0)) w = Some w' \<and> at w' 0 Finished"
proof -
  obtain w where w: "world_reachable w" "run (client_script @ relay_script) NewWorld = Some w" "relay_ended w 0" "length (k_defers (conn w 0)) = 6"
    using script_world [OF return_script_runs] by blast
  from returning_connection_finishes [OF w(1), of 0 0 None None "Inr (TCPAddr [10, 0, 0, 2] 873)"] w(2-4)
  show ?thesis unfolding go_def by metis
qed

end
