(* ===== verification/Metrics.thy ===== *)
theory Metrics
  imports RelayProperties "HOL-Library.Product_Lexorder"
begin

text \<open>
  Reporting (\<open>pkg/server/metrics.go\<close>, \<open>ListConnectionInfo\<close> and the snapshots of \<open>ConnInfo\<close> in \<open>server.go\<close>):
  the lines of a Prometheus scrape, computed from the \<open>World\<close> at one instant. The clock \<open>now\<close> counts
  nanoseconds; \<open>fmt3\<close> is the formatting of a floating-point number of seconds with \<open>%.3f\<close>, given a
  number of nanoseconds. Line feeds end the lines and are not part of them.
\<close>

section \<open>Snapshots\<close>

record connInfoSnapshot =
  sn_Index :: "32 word"
  sn_LocalAddr :: string
  sn_RemoteAddr :: string
  sn_ConnectedAt :: int
  sn_Module :: string
  sn_Upstream :: string
  sn_SentBytes :: int
  sn_ReceivedBytes :: int

definition snapshot :: "ConnInfo \<Rightarrow> connInfoSnapshot" where
  "snapshot c = \<lparr>sn_Index = ci_Index c, sn_LocalAddr = ci_LocalAddr c, sn_RemoteAddr = ci_RemoteAddr c, sn_ConnectedAt = ci_ConnectedAt c,
     sn_Module = ci_Module c, sn_Upstream = ci_Upstream c, sn_SentBytes = sint (ci_SentBytes c), sn_ReceivedBytes = sint (ci_ReceivedBytes c)\<rparr>"

definition ListConnectionInfo :: "World \<Rightarrow> ConnInfo list" where
  "ListConnectionInfo w = sort_key ci_Index (map (\<lambda>(idx, i). k_info (conn w i)) (w_connInfo w))"

section \<open>Labels\<close>

abbreviation backslash :: char where
  "backslash \<equiv> CHR 0x5C"

abbreviation dquote :: char where
  "dquote \<equiv> CHR 0x22"

definition prometheusEscapeLabelValue :: "string \<Rightarrow> string" where
  "prometheusEscapeLabelValue s =
     ReplaceByte dquote [backslash, dquote] (ReplaceByte lineFeed [backslash, CHR ''n''] (ReplaceByte backslash [backslash, backslash] s))"

definition label :: "string \<Rightarrow> string \<Rightarrow> string" where
  "label k v = k @ ''='' @ [dquote] @ v @ [dquote]"

definition prometheusLabels :: "32 word \<Rightarrow> string \<Rightarrow> string \<Rightarrow> string" where
  "prometheusLabels index m u =
     label ''index'' (Itoa (uint index)) @ '','' @
     label ''module'' (prometheusEscapeLabelValue (prometheusLabelValueOrUnknown m)) @ '','' @
     label ''upstream'' (prometheusEscapeLabelValue (prometheusLabelValueOrUnknown u))"

section \<open>Lines\<close>

definition help_lines :: "string \<Rightarrow> string \<Rightarrow> string \<Rightarrow> string list" where
  "help_lines name about kind = [''# HELP '' @ name @ '' '' @ about, ''# TYPE '' @ name @ '' '' @ kind]"

definition sample :: "string \<Rightarrow> string \<Rightarrow> string \<Rightarrow> string" where
  "sample name labels v = name @ ''{'' @ labels @ ''} '' @ v"

definition plain :: "string \<Rightarrow> string \<Rightarrow> string" where
  "plain name v = name @ '' '' @ v"

definition upstream_sample :: "string \<Rightarrow> upstreamConfig \<Rightarrow> int \<Rightarrow> string" where
  "upstream_sample name u v = sample name (label ''upstream'' (prometheusEscapeLabelValue (uc_Name u))) (Itoa v)"

definition module_sample :: "string \<Rightarrow> string \<times> string \<Rightarrow> int \<Rightarrow> string" where
  "module_sample name key v = sample name
     (label ''module'' (prometheusEscapeLabelValue (fst key)) @ '','' @ label ''upstream'' (prometheusEscapeLabelValue (snd key))) (Itoa v)"

definition queue_samples :: "World \<Rightarrow> upstreamConfig list \<Rightarrow> string \<Rightarrow> (Queue \<Rightarrow> int) \<Rightarrow> string list" where
  "queue_samples w us name f = concat (map (\<lambda>u.
     case getQueueForUpstream (w_srv w) (uc_Name u) of None \<Rightarrow> [] | Some p \<Rightarrow> [upstream_sample name u (f (heap w ! p))]) us)"

definition counter_samples :: "World \<Rightarrow> upstreamConfig list \<Rightarrow> string \<Rightarrow> (upstreamCounters \<Rightarrow> 64 word) \<Rightarrow> string list" where
  "counter_samples w us name f = map (\<lambda>u. upstream_sample name u (uint (f (upstream_counters (uc_Name u) w)))) us"

text \<open>The first loop over the counters creates those of the upstreams that have none yet.\<close>

definition create_counters :: "World \<Rightarrow> World" where
  "create_counters w = fold (\<lambda>u. getUpstreamCounters (uc_Name u)) (sort_key uc_Name (s_upstreams (w_srv w))) w"

definition upstream_metrics :: "World \<Rightarrow> string list" where
  "upstream_metrics w =
     (let us = sort_key uc_Name (s_upstreams (w_srv w)) in
      help_lines ''rsync_proxy_queued_connections'' ''Current queued rsync proxy connections per upstream.'' ''gauge'' @
      queue_samples w us ''rsync_proxy_queued_connections'' QueuedLen @
      help_lines ''rsync_proxy_queue_active_max'' ''Configured max active connections per upstream.'' ''gauge'' @
      queue_samples w us ''rsync_proxy_queue_active_max'' GetMax @
      help_lines ''rsync_proxy_queue_queued_max'' ''Configured max queued connections per upstream.'' ''gauge'' @
      queue_samples w us ''rsync_proxy_queue_queued_max'' GetMaxQueued @
      help_lines ''rsync_proxy_queue_full_rejected_total'' ''Total connections rejected due to queue full per upstream.'' ''counter'' @
      counter_samples w us ''rsync_proxy_queue_full_rejected_total'' ct_queueFull @
      help_lines ''rsync_proxy_upstream_dial_errors_total'' ''Total upstream dial failures per upstream.'' ''counter'' @
      counter_samples w us ''rsync_proxy_upstream_dial_errors_total'' ct_dialError @
      help_lines ''rsync_proxy_per_ip_rejected_total'' ''Total connections rejected by the per-IP per-upstream concurrency cap.'' ''counter'' @
      counter_samples w us ''rsync_proxy_per_ip_rejected_total'' ct_perIPRejected @
      help_lines ''rsync_proxy_relay_idle_timeout_terminated_total'' ''Total relay connections terminated by the idle timeout watcher per upstream.'' ''counter'' @
      counter_samples w us ''rsync_proxy_relay_idle_timeout_terminated_total'' ct_idleTerminated @
      help_lines ''rsync_proxy_relay_max_duration_terminated_total'' ''Total relay connections terminated for exceeding the max-duration cap per upstream.'' ''counter'' @
      counter_samples w us ''rsync_proxy_relay_max_duration_terminated_total'' ct_maxDurationTerminated @
      help_lines ''rsync_proxy_throughput_floor_terminated_total'' ''Total relay connections terminated for falling below the configured throughput floor per upstream.'' ''counter'' @
      counter_samples w us ''rsync_proxy_throughput_floor_terminated_total'' ct_throughputFloorTerminated)"

section \<open>Connections\<close>

definition conn_group :: "ConnInfo \<Rightarrow> string \<times> string" where
  "conn_group c = (prometheusLabelValueOrUnknown (ci_Module c), prometheusLabelValueOrUnknown (ci_Upstream c))"

definition connectionCounts :: "ConnInfo list \<Rightarrow> (string \<times> string, int) gomap" where
  "connectionCounts cs = fold (\<lambda>c m. AList.update (conn_group c) ((case map_of m (conn_group c) of None \<Rightarrow> 0 | Some n \<Rightarrow> n) + 1) m) cs []"

definition connection_samples :: "World \<Rightarrow> string \<Rightarrow> (connInfoSnapshot \<Rightarrow> string) \<Rightarrow> string list" where
  "connection_samples w name f = map (\<lambda>c. let s = snapshot c in
     sample name (prometheusLabels (sn_Index s) (sn_Module s) (sn_Upstream s)) (f s)) (ListConnectionInfo w)"

text \<open>\<open>time.Time.Sub\<close> saturates; a negative duration is reported as zero.\<close>

definition conn_duration :: "int \<Rightarrow> int \<Rightarrow> int" where
  "conn_duration now connectedAt = max 0 (min (2 ^ 63 - 1) (now - connectedAt))"

definition connection_metrics :: "(int \<Rightarrow> string) \<Rightarrow> int \<Rightarrow> World \<Rightarrow> string list" where
  "connection_metrics fmt3 now w =
     (let counts = connectionCounts (ListConnectionInfo w) in
      help_lines ''rsync_proxy_active_connections_by_module'' ''Current active rsync proxy connections by module and upstream.'' ''gauge'' @
      map (\<lambda>key. module_sample ''rsync_proxy_active_connections_by_module'' key (the (map_of counts key))) (sort (map fst counts)) @
      help_lines ''rsync_proxy_connection_sent_bytes'' ''Bytes sent to clients for active connections.'' ''gauge'' @
      connection_samples w ''rsync_proxy_connection_sent_bytes'' (\<lambda>s. Itoa (sn_SentBytes s)) @
      help_lines ''rsync_proxy_connection_received_bytes'' ''Bytes received from clients for active connections.'' ''gauge'' @
      connection_samples w ''rsync_proxy_connection_received_bytes'' (\<lambda>s. Itoa (sn_ReceivedBytes s)) @
      help_lines ''rsync_proxy_connection_connected_timestamp_seconds'' ''Unix timestamp when active connections were established.'' ''gauge'' @
      connection_samples w ''rsync_proxy_connection_connected_timestamp_seconds'' (\<lambda>s. Itoa (sn_ConnectedAt s div Second)) @
      help_lines ''rsync_proxy_connection_duration_seconds'' ''Current duration of active connections.'' ''gauge'' @
      connection_samples w ''rsync_proxy_connection_duration_seconds'' (\<lambda>s. fmt3 (conn_duration now (sn_ConnectedAt s))))"

section \<open>Totals\<close>

definition module_stats :: "World \<Rightarrow> ((string \<times> string) \<times> moduleCounters) list" where
  "module_stats w = sort_key fst (w_moduleCounters w)"

definition module_samples :: "World \<Rightarrow> string \<Rightarrow> (moduleCounters \<Rightarrow> 64 word) \<Rightarrow> string list" where
  "module_samples w name f = map (\<lambda>(key, c). module_sample name key (uint (f c))) (module_stats w)"

definition total_metrics :: "World \<Rightarrow> string list" where
  "total_metrics w =
     help_lines ''rsync_proxy_accepted_connections_total'' ''Total accepted connections since start.'' ''counter'' @
     [plain ''rsync_proxy_accepted_connections_total'' (Itoa (uint (w_acceptedConnCount w)))] @
     help_lines ''rsync_proxy_completed_connections_total'' ''Total completed connections since start.'' ''counter'' @
     [plain ''rsync_proxy_completed_connections_total'' (Itoa (uint (w_completedConnCount w)))] @
     help_lines ''rsync_proxy_sent_bytes_total'' ''Total bytes sent to clients since start.'' ''counter'' @
     [plain ''rsync_proxy_sent_bytes_total'' (Itoa (uint (w_sentBytesTotal w)))] @
     help_lines ''rsync_proxy_received_bytes_total'' ''Total bytes received from clients since start.'' ''counter'' @
     [plain ''rsync_proxy_received_bytes_total'' (Itoa (uint (w_recvBytesTotal w)))] @
     help_lines ''rsync_proxy_module_completed_connections_total'' ''Total completed connections by module and upstream.'' ''counter'' @
     module_samples w ''rsync_proxy_module_completed_connections_total'' mc_completed @
     help_lines ''rsync_proxy_module_sent_bytes_total'' ''Total bytes sent to clients by module and upstream.'' ''counter'' @
     module_samples w ''rsync_proxy_module_sent_bytes_total'' mc_sentBytes @
     help_lines ''rsync_proxy_module_received_bytes_total'' ''Total bytes received from clients by module and upstream.'' ''counter'' @
     module_samples w ''rsync_proxy_module_received_bytes_total'' mc_recvBytes"

definition writePrometheusMetrics :: "(int \<Rightarrow> string) \<Rightarrow> int \<Rightarrow> World \<Rightarrow> World \<times> string list" where
  "writePrometheusMetrics fmt3 now w0 =
     (let w = create_counters w0 in
     (w, upstream_metrics w @
     help_lines ''rsync_proxy_unknown_module_requests_total'' ''Total requests for unknown modules.'' ''counter'' @
     [plain ''rsync_proxy_unknown_module_requests_total'' (Itoa (uint (w_unknownModuleCount w)))] @
     help_lines ''rsync_proxy_active_connections'' ''Current active rsync proxy connections.'' ''gauge'' @
     [plain ''rsync_proxy_active_connections'' (Itoa (GetActiveConnectionCount w))] @
     connection_metrics fmt3 now w @
     total_metrics w))"

section \<open>Escaping\<close>

text \<open>How a reader of the exposition format reads a label value, from after its opening quote: the value and what follows the closing quote.\<close>

fun read_label :: "string \<Rightarrow> (string \<times> string) option" where
  "read_label [] = None"
| "read_label (c # s) =
     (if c = dquote then Some ([], s)
      else if c = lineFeed then None
      else if c = backslash then
        (case s of
           [] \<Rightarrow> None
         | d # t \<Rightarrow>
             if d = CHR ''n'' then map_option (apfst ((#) lineFeed)) (read_label t)
             else if d = backslash \<or> d = dquote then map_option (apfst ((#) d)) (read_label t)
             else None)
      else map_option (apfst ((#) c)) (read_label s))"

definition escaped :: "char \<Rightarrow> string" where
  "escaped c = (if c = backslash then [backslash, backslash] else if c = lineFeed then [backslash, CHR ''n'']
     else if c = dquote then [backslash, dquote] else [c])"

lemma ReplaceByte_append: "ReplaceByte c r (s @ t) = ReplaceByte c r s @ ReplaceByte c r t"
  by (induction s) simp_all

text \<open>The three passes do not disturb each other: together they escape every byte on its own.\<close>

lemma escape_bytewise: "prometheusEscapeLabelValue s = concat (map escaped s)"
  by (induction s) (simp_all add: prometheusEscapeLabelValue_def escaped_def ReplaceByte_append lineFeed_def)

lemma read_label_escaped: "read_label (escaped c @ s) = map_option (apfst ((#) c)) (read_label s)"
  by (simp add: escaped_def lineFeed_def)

text \<open>C36: A reader of the metrics gets back every label value exactly as it was, whatever bytes a client or a configuration put in it
  and whatever follows: no module name can end its label or forge a line.\<close>

theorem label_value_roundtrip:
  "read_label (prometheusEscapeLabelValue s @ dquote # rest) = Some (s, rest) \<and> lineFeed \<notin> set (prometheusEscapeLabelValue s)"
proof
  show "read_label (prometheusEscapeLabelValue s @ dquote # rest) = Some (s, rest)"
    unfolding escape_bytewise
  proof (induction s)
    case (Cons c s)
    have "read_label (concat (map escaped (c # s)) @ dquote # rest) = read_label (escaped c @ concat (map escaped s) @ dquote # rest)" by simp
    then show ?case unfolding read_label_escaped Cons.IH by simp
  qed simp
  show "lineFeed \<notin> set (prometheusEscapeLabelValue s)"
    unfolding escape_bytewise by (auto simp: escaped_def lineFeed_def split: if_splits)
qed

section \<open>Lifetime totals\<close>

definition module_total :: "(moduleCounters \<Rightarrow> 64 word) \<Rightarrow> World \<Rightarrow> 64 word" where
  "module_total f w = sum_list (map (f \<circ> snd) (w_moduleCounters w))"

text \<open>What a connection has added to a total of the server and not yet to the counter of its module.\<close>

definition owed_completed :: "Conn \<Rightarrow> 64 word" where
  "owed_completed c = (if k_pc c \<in> {AtSentTotal, AtRecvTotal, AtModuleCounters, AtModuleCompleted} then 1 else 0)"

definition owed_sent :: "Conn \<Rightarrow> 64 word" where
  "owed_sent c = (if k_pc c \<in> {AtRecvTotal, AtModuleCounters, AtModuleCompleted, AtModuleSent} then ci_SentBytes (k_info c) else 0)"

definition owed_recv :: "Conn \<Rightarrow> 64 word" where
  "owed_recv c = (if k_pc c \<in> {AtModuleCounters, AtModuleCompleted, AtModuleSent, AtModuleRecv} then ci_ReceivedBytes (k_info c) else 0)"

definition owed :: "(Conn \<Rightarrow> 64 word) \<Rightarrow> World \<Rightarrow> 64 word" where
  "owed f w = sum_list (map f (w_conns w))"

definition totals_inv :: "World \<Rightarrow> bool" where
  "totals_inv w \<longleftrightarrow> gm_wf (w_moduleCounters w) \<and> module_total mc_completed w + owed owed_completed w = w_completedConnCount w \<and>
     module_total mc_sentBytes w + owed owed_sent w = w_sentBytesTotal w \<and> module_total mc_recvBytes w + owed owed_recv w = w_recvBytesTotal w"

lemmas owed_defs = owed_completed_def owed_sent_def owed_recv_def

definition same_owed :: "Conn \<Rightarrow> Conn \<Rightarrow> bool" where
  "same_owed c c' \<longleftrightarrow> owed_completed c' = owed_completed c \<and> owed_sent c' = owed_sent c \<and> owed_recv c' = owed_recv c"

lemma nothing_owed: "\<not> totalling (k_pc c) \<Longrightarrow> owed_completed c = 0 \<and> owed_sent c = 0 \<and> owed_recv c = 0"
  by (auto simp: owed_defs totalling_def)

lemma same_owed_outside: "\<not> totalling (k_pc c) \<Longrightarrow> \<not> totalling (k_pc c') \<Longrightarrow> same_owed c c'"
  using nothing_owed by (simp add: same_owed_def)

lemma sum_list_change: "i < length xs \<Longrightarrow> sum_list (xs[i := x]) = sum_list xs - xs ! i + (x :: 64 word)"
proof (induction xs arbitrary: i)
  case (Cons y ys)
  then show ?case by (cases i) simp_all
qed simp

lemma owed_put: "i < length (w_conns w) \<Longrightarrow> owed f (put i c w) = owed f w - f (conn w i) + f c"
  by (simp add: owed_def put_def map_update sum_list_change)

lemma owed_same: "w_conns w' = w_conns w \<Longrightarrow> owed f w' = owed f w"
  by (simp add: owed_def)

text \<open>The fields that hold the totals.\<close>

definition same_totals :: "World \<Rightarrow> World \<Rightarrow> bool" where
  "same_totals w w' \<longleftrightarrow> w_moduleCounters w' = w_moduleCounters w \<and> w_completedConnCount w' = w_completedConnCount w \<and>
     w_sentBytesTotal w' = w_sentBytesTotal w \<and> w_recvBytesTotal w' = w_recvBytesTotal w"

lemma same_totals_simps [simp]:
  "same_totals w (put i c w') = same_totals w w'" "same_totals w (put_queue p q w') = same_totals w w'"
  "same_totals w (add_upstream u f w') = same_totals w w'" "same_totals w (getUpstreamCounters u w') = same_totals w w'"
  "same_totals w (add_perIP k d w') = same_totals w w'" "same_totals w (getPerIPCounter k w') = same_totals w w'"
  "same_totals w (w'\<lparr>w_srv := s\<rparr>) = same_totals w w'" "same_totals w (w'\<lparr>w_connInfo := m\<rparr>) = same_totals w w'"
  "same_totals w (w'\<lparr>w_activeConnCount := n\<rparr>) = same_totals w w'" "same_totals w (w'\<lparr>w_acceptedConnCount := n\<rparr>) = same_totals w w'"
  "same_totals w (w'\<lparr>w_connIndex := idx\<rparr>) = same_totals w w'" "same_totals w (w'\<lparr>w_unknownModuleCount := n\<rparr>) = same_totals w w'"
  "same_totals w (w'\<lparr>w_conns := cs\<rparr>) = same_totals w w'" "same_totals w w"
  by (simp_all add: same_totals_def put_def put_queue_def add_upstream_def getUpstreamCounters_def getPerIPCounter_def add_perIP_def Let_def)

lemma same_totals_inv:
  "same_totals w w' \<Longrightarrow> (\<And>f. f = owed_completed \<or> f = owed_sent \<or> f = owed_recv \<Longrightarrow> owed f w' = owed f w) \<Longrightarrow> totals_inv w \<Longrightarrow> totals_inv w'"
  by (simp add: same_totals_def totals_inv_def module_total_def)

lemma put_totals:
  assumes "totals_inv w" "i < length (w_conns w)" "same_totals w w1" "w_conns w1 = w_conns w" "same_owed (conn w i) c"
  shows "totals_inv (put i c w1)"
proof (rule same_totals_inv [OF _ _ assms(1)])
  fix f :: "Conn \<Rightarrow> 64 word" assume "f = owed_completed \<or> f = owed_sent \<or> f = owed_recv"
  then have "f c = f (conn w i)" using assms(5) by (auto simp: same_owed_def)
  then show "owed f (put i c w1) = owed f w" using assms(2,4) owed_put [of i w1 f c] owed_same [OF assms(4), of f] by simp
qed (use assms(3) in simp)

lemma sum_update:
  fixes f :: "'v \<Rightarrow> 64 word"
  assumes "gm_wf m"
  shows "sum_list (map (f \<circ> snd) (AList.update k v m)) = sum_list (map (f \<circ> snd) m) + f v - (case map_of m k of None \<Rightarrow> 0 | Some v' \<Rightarrow> f v')"
  using assms
proof (induction m)
  case (Cons x m)
  obtain a b where x: "x = (a, b)" by (cases x)
  then have "map_of m a = None" using Cons.prems by (simp add: map_of_eq_None_iff)
  then show ?case using Cons x by (auto simp: algebra_simps)
qed simp

lemma module_total_add:
  assumes "gm_wf (w_moduleCounters w)" "f zero_module = 0"
  shows "module_total f (add_module key g w) = module_total f w + f (g (module_counters key w)) - f (module_counters key w)"
  using assms(2) unfolding module_total_def add_module_def module_counters_def
  by (simp add: sum_update [OF assms(1)] del: map_map split: option.split)

lemma module_total_get:
  assumes "gm_wf (w_moduleCounters w)" "f zero_module = 0"
  shows "module_total f (getModuleCounters m u w) = module_total f w"
  using assms(2) unfolding module_total_def getModuleCounters_def load_or_store_def
  by (simp add: sum_update [OF assms(1)] split: option.split)

lemma module_wf:
  assumes "gm_wf (w_moduleCounters w)"
  shows "gm_wf (w_moduleCounters (add_module key g w))" "gm_wf (w_moduleCounters (getModuleCounters m u w))"
  using assms by (auto simp: add_module_def getModuleCounters_def load_or_store_def distinct_update split: option.split)

lemma total_fields [simp]:
  "w_moduleCounters (put i c w) = w_moduleCounters w" "w_completedConnCount (put i c w) = w_completedConnCount w"
  "w_sentBytesTotal (put i c w) = w_sentBytesTotal w" "w_recvBytesTotal (put i c w) = w_recvBytesTotal w"
  "w_completedConnCount (add_module key g w) = w_completedConnCount w" "w_sentBytesTotal (add_module key g w) = w_sentBytesTotal w"
  "w_recvBytesTotal (add_module key g w) = w_recvBytesTotal w" "w_completedConnCount (getModuleCounters m u w) = w_completedConnCount w"
  "w_sentBytesTotal (getModuleCounters m u w) = w_sentBytesTotal w" "w_recvBytesTotal (getModuleCounters m u w) = w_recvBytesTotal w"
  "module_total f (put i c w) = module_total f w" "module_total f (w\<lparr>w_completedConnCount := n\<rparr>) = module_total f w"
  "module_total f (w\<lparr>w_sentBytesTotal := n\<rparr>) = module_total f w" "module_total f (w\<lparr>w_recvBytesTotal := n\<rparr>) = module_total f w"
  by (simp_all add: put_def add_module_def getModuleCounters_def module_total_def)

text \<open>Each addition moves its amount from what is owed into the counters, or from the connection into what is owed.\<close>

lemma finish_totals:
  assumes inv: "totals_inv w" and "at w i p" "p = AtDrain \<or> totalling p"
  shows "totals_inv (relay_finish i w)"
proof -
  have i: "i < length (w_conns w)" "k_pc (conn w i) = p" using assms(2) by (simp_all add: at_def)
  have wf: "gm_wf (w_moduleCounters w)" using inv by (simp add: totals_inv_def)
  note mt = module_total_add [OF wf] module_total_get [OF wf]
  have o: "owed f (put i c w1) = owed f w - f (conn w i) + f c" if "w_conns w1 = w_conns w" for f c w1
    using that i(1) owed_put [of i w1 f c] owed_same [OF that, of f] by simp
  consider "p = AtDrain" | "p = AtSentTotal" | "p = AtRecvTotal" | "p = AtModuleCounters" | "p = AtModuleCompleted" | "p = AtModuleSent" |
    "p = AtModuleRecv" using assms(3) by (auto simp: totalling_def)
  then show ?thesis
    by cases (use inv i wf in \<open>simp_all add: relay_finish_def Let_def totals_inv_def o mt module_wf zero_module_def owed_defs returns_def algebra_simps\<close>)
qed

text \<open>All other steps leave the totals alone, and what their connection owes.\<close>

lemma conn_same_owed:
  "k_pc c = AtVersion \<Longrightarrow> same_owed c (relay_version wr c)" "k_pc c = AtModule \<Longrightarrow> same_owed c (relay_module c)"
  "k_pc c = AtMotd \<Longrightarrow> same_owed c (relay_motd s wr c)" "k_pc c = AtList \<Longrightarrow> same_owed c (relay_list s wr c)"
  "k_pc c = AtQueue \<Longrightarrow> same_owed c (relay_queue s c)" "k_pc c = AtLimit \<Longrightarrow> same_owed c (relay_limit s c)"
  "k_pc c = AtWait \<Longrightarrow> same_owed c (relay_remind wr c)" "k_pc c = AtUpstream \<Longrightarrow> same_owed c (relay_upstream wr wr' c)"
  "k_pc c = AtUpVersion \<Longrightarrow> same_owed c (relay_up_version s now wr wr' c)"
  "k_pc c = AtRelay \<or> k_pc c = AtDrain \<Longrightarrow> same_owed c (relay_copy up data k now c)"
  "k_pc c = AtRelay \<or> k_pc c = AtDrain \<Longrightarrow> same_owed c (relay_copy_end up c)"
  "k_pc c = AtRelay \<Longrightarrow> same_owed c (relay_select received c)"
  by (rule same_owed_outside; auto simp: totalling_def relay_version_def relay_module_def relay_motd_def relay_list_def relay_queue_def
      relay_limit_def relay_remind_def relay_upstream_def relay_up_version_def relay_copy_def relay_copy_end_def relay_select_def Let_def
      split: option.split sum.split prod.split)+

lemma unwind_totals:
  assumes "totals_inv w" "at w i AtReturn" "unwind i w = Some w'"
  shows "totals_inv w'"
proof -
  obtain d ds w1 where d: "run_deferred d i w = Some w1"
    "w' = put i ((conn w1 i)\<lparr>k_defers := ds, k_pc := (if ds = [] then Finished else AtReturn)\<rparr>) w1"
    using assms(3) by (auto simp: unwind_def split: list.splits)
  have i: "i < length (w_conns w)" "k_pc (conn w i) = AtReturn" using assms(2) by (simp_all add: at_def)
  have "totals_inv (put i ((conn w i)\<lparr>k_downOpen := False\<rparr>) w)" "totals_inv (put i ((conn w i)\<lparr>k_upOpen := False\<rparr>) w)"
    using i by (auto simp: totalling_def intro!: put_totals [OF assms(1)] same_owed_outside)
  moreover have "totals_inv w2" if "same_totals w w2" "w_conns w2 = w_conns w" for w2
    using that by (intro same_totals_inv [OF _ _ assms(1)] owed_same)
  ultimately have w1: "totals_inv w1" "k_pc (conn w1 i) = AtReturn" "i < length (w_conns w1)"
    using d(1) i by (auto simp: run_deferred_def conn_put split: deferred.splits sum.splits)
  then show ?thesis unfolding d(2) by (intro put_totals [OF w1(1)] same_owed_outside) (simp_all add: totalling_def)
qed

lemma step_totals:
  assumes inv: "totals_inv w" and step: "relay_step w w'"
  shows "totals_inv w'"
  using step
proof cases
  case (accept remote local)
  then show ?thesis using inv
    by (auto simp: accept_conn_def owed_def fresh_conn_def owed_defs intro!: same_totals_inv [OF _ _ inv])
next
  case (handle i p)
  then show ?thesis
    by (auto simp: handleConn_def starting_def at_def totalling_def intro!: put_totals [OF inv] same_owed_outside)
next
  case (tick i now)
  then show ?thesis unfolding relay_tick_def Let_def
    by (auto simp: same_owed_def owed_defs intro!: put_totals [OF inv] split: tick_result.splits)
next
  case (finish i)
  then show ?thesis using finish_totals [OF inv] by blast
next
  case (total i p)
  then show ?thesis using finish_totals [OF inv] by blast
next
  case (unwind i)
  then show ?thesis using unwind_totals [OF inv] by blast
next
  case scrape
  then show ?thesis by (auto intro!: same_totals_inv [OF _ _ inv] owed_same)
next
  case reload
  then show ?thesis by (auto intro!: same_totals_inv [OF _ _ inv] owed_same)
next
  case (arrive i seg)
  then show ?thesis by (auto simp: same_owed_def owed_defs intro!: put_totals [OF inv])
next
  case (arrive_up i seg)
  then show ?thesis by (auto simp: same_owed_def owed_defs intro!: put_totals [OF inv])
next
  case (register i now)
  then show ?thesis by (auto simp: relay_register_def Let_def at_def totalling_def intro!: put_totals [OF inv] same_owed_outside)
next
  case (lookup i wr)
  then show ?thesis
    by (auto simp: relay_lookup_def Let_def at_def totalling_def intro!: put_totals [OF inv] same_owed_outside split: option.splits)
next
  case (count i)
  then show ?thesis by (auto simp: relay_count_def Let_def at_def totalling_def intro!: put_totals [OF inv] same_owed_outside)
next
  case (over i wr)
  then show ?thesis by (auto simp: relay_over_def Let_def at_def totalling_def intro!: put_totals [OF inv] same_owed_outside)
next
  case (acquire i)
  then show ?thesis
    by (auto simp: relay_acquire_def Let_def at_def totalling_def intro!: put_totals [OF inv] same_owed_outside split: sum.splits prod.splits)
next
  case (status i wr wr')
  then show ?thesis using inv
    by (auto simp: relay_status_def Let_def at_def totalling_def intro!: put_totals [OF inv] same_owed_outside split: option.splits prod.splits)
next
  case (wait i wr)
  then show ?thesis using inv
    by (auto simp: relay_wait_def Let_def at_def totalling_def intro!: put_totals [OF inv] same_owed_outside split: option.splits prod.splits)
next
  case (dial i r)
  then show ?thesis
    by (auto simp: relay_dial_def Let_def at_def totalling_def intro!: put_totals [OF inv] same_owed_outside split: sum.splits)
qed (auto simp: at_def relaying_def intro!: put_totals [OF inv] conn_same_owed)

interpretation totals: transition_system world_init relay_step totals_inv
proof unfold_locales
  show "totals_inv w" if "world_init w" for w
    using that by (simp add: world_init_def NewWorld_def totals_inv_def module_total_def owed_def)
qed (rule step_totals)

text \<open>C37: At every moment the per-module counters of completed connections and of bytes add up to the totals of the server, less what the
  connections between the additions have added to a total and not yet to their module. When no connection is in the middle of its
  additions the two groups of counters agree exactly. (A scrape reads the counters one after the other, so its lines may be of different moments.)\<close>

theorem lifetime_totals_agree:
  assumes "world_reachable w"
  shows "w_completedConnCount w = module_total mc_completed w + owed owed_completed w \<and>
    w_sentBytesTotal w = module_total mc_sentBytes w + owed owed_sent w \<and>
    w_recvBytesTotal w = module_total mc_recvBytes w + owed owed_recv w \<and>
    ((\<forall>c\<in>set (w_conns w). \<not> totalling (k_pc c)) \<longrightarrow> w_completedConnCount w = module_total mc_completed w \<and>
      w_sentBytesTotal w = module_total mc_sentBytes w \<and> w_recvBytesTotal w = module_total mc_recvBytes w)"
proof -
  have inv: "totals_inv w" by (rule totals.reachable_inv [OF assms])
  have "owed f w = 0" if "\<forall>c\<in>set (w_conns w). \<not> totalling (k_pc c)" "f = owed_completed \<or> f = owed_sent \<or> f = owed_recv" for f
  proof -
    have "map f (w_conns w) = map (\<lambda>_. 0) (w_conns w)" using that nothing_owed by (auto simp: map_eq_conv)
    then have "owed f w = sum_list (map (\<lambda>_. 0) (w_conns w))" unfolding owed_def by (rule arg_cong)
    then show ?thesis by simp
  qed
  then show ?thesis using inv by (auto simp: totals_inv_def)
qed

lemma total_script_runs:
  "case run (take (length finish_script - 10) finish_script) NewWorld of None \<Rightarrow> False
   | Some w \<Rightarrow> at w 0 AtModuleCounters \<and> owed owed_completed w = 1 \<and> module_total mc_completed w = 0 \<and> w_sentBytesTotal w = 5"
  by code_simp

theorem lifetime_totals_agree_witness:
  "(\<exists>w. run finish_script NewWorld = Some w \<and> module_total mc_completed w = 1 \<and> module_total mc_sentBytes w = 5) \<and>
   (\<exists>w. run (take (length finish_script - 10) finish_script) NewWorld = Some w \<and> w_completedConnCount w = 1 \<and> module_total mc_completed w = 0)"
proof
  obtain w where w: "world_reachable w" "run finish_script NewWorld = Some w" "w_completedConnCount w = 1" "w_sentBytesTotal w = 5"
    "list_all (\<lambda>c. k_pc c = Finished) (w_conns w)" using script_world [OF finish_script_runs] by blast
  have "\<forall>c\<in>set (w_conns w). \<not> totalling (k_pc c)" using w(5) by (auto simp: list_all_iff totalling_def)
  with lifetime_totals_agree [OF w(1)] w show "\<exists>w. run finish_script NewWorld = Some w \<and> module_total mc_completed w = 1 \<and> module_total mc_sentBytes w = 5"
    by auto
  obtain w where "world_reachable w" "run (take (length finish_script - 10) finish_script) NewWorld = Some w" "owed owed_completed w = 1"
    "module_total mc_completed w = 0" using script_world [OF total_script_runs] by blast
  with lifetime_totals_agree [of w]
  show "\<exists>w. run (take (length finish_script - 10) finish_script) NewWorld = Some w \<and> w_completedConnCount w = 1 \<and> module_total mc_completed w = 0"
    by auto
qed

section \<open>Listing the connections\<close>

definition registered :: "Conn \<Rightarrow> bool" where
  "registered c \<longleftrightarrow> DConnInfo (k_index c) \<in> set (k_defers c)"

text \<open>A connection that has registered carries its own index.\<close>

definition unregistered :: "phase \<Rightarrow> bool" where
  "unregistered p \<longleftrightarrow> starting p \<or> p = AtRegister"

definition info_index_ok :: "Conn \<Rightarrow> bool" where
  "info_index_ok c \<longleftrightarrow> (\<not> unregistered (k_pc c) \<longrightarrow> ci_Index (k_info c) = k_index c)"

definition listing_inv :: "World \<Rightarrow> bool" where
  "listing_inv w \<longleftrightarrow> gm_wf (w_connInfo w) \<and> (\<forall>c\<in>set (w_conns w). info_index_ok c)"

lemma put_listing:
  assumes "listing_inv w" "w_conns w1 = w_conns w" "gm_wf (w_connInfo w1)" "info_index_ok c"
  shows "listing_inv (put i c w1)"
  using assms set_update_subset_insert [of "w_conns w" i c] by (auto simp: listing_inv_def put_def)

text \<open>A step that leaves the index of its connection alone.\<close>

definition same_index :: "Conn \<Rightarrow> Conn \<Rightarrow> bool" where
  "same_index c c' \<longleftrightarrow> ci_Index (k_info c') = ci_Index (k_info c) \<and> k_index c' = k_index c \<and> (unregistered (k_pc c) \<longrightarrow> unregistered (k_pc c'))"

lemma move_listing:
  assumes "listing_inv w" "i < length (w_conns w)" "w_conns w1 = w_conns w" "w_connInfo w1 = w_connInfo w" "same_index (conn w i) c"
  shows "listing_inv (put i c w1)"
proof (rule put_listing [OF assms(1,3)])
  show "gm_wf (w_connInfo w1)" using assms(1,4) by (simp add: listing_inv_def)
  have "info_index_ok (conn w i)" using assms(1,2) by (simp add: listing_inv_def)
  then show "info_index_ok c" using assms(5) by (auto simp: info_index_ok_def same_index_def)
qed

lemma conn_same_index:
  assumes "\<not> unregistered (k_pc c)"
  shows "same_index c (relay_version wr c)" "same_index c (relay_module c)" "same_index c (relay_motd s wr c)" "same_index c (relay_list s wr c)"
  "same_index c (relay_queue s c)" "same_index c (relay_limit s c)" "same_index c (relay_remind wr c)" "same_index c (relay_upstream wr wr' c)"
  "same_index c (relay_up_version s now wr wr' c)" "same_index c (relay_copy up data w now c)" "same_index c (relay_copy_end up c)"
  "same_index c (relay_select received c)"
  using assms
  by (auto simp: same_index_def relay_version_def relay_module_def relay_motd_def relay_list_def relay_queue_def
      relay_limit_def relay_remind_def relay_upstream_def relay_up_version_def relay_copy_def relay_copy_end_def relay_select_def returns_def Let_def
      split: option.split sum.split prod.split list.split)

lemma unwind_listing:
  assumes "listing_inv w" "at w i AtReturn" "unwind i w = Some w'"
  shows "listing_inv w'"
proof -
  obtain d ds w1 where d: "k_defers (conn w i) = d # ds" "run_deferred d i w = Some w1"
    "w' = put i ((conn w1 i)\<lparr>k_defers := ds, k_pc := (if ds = [] then Finished else AtReturn)\<rparr>) w1"
    using assms(3) by (auto simp: unwind_def split: list.splits)
  have i: "i < length (w_conns w)" "k_pc (conn w i) = AtReturn" using assms(2) by (simp_all add: at_def)
  have "same_index (conn w i) (conn w1 i) \<and> w_conns w1 = (w_conns w)[i := conn w1 i] \<and> gm_wf (w_connInfo w1)"
    using d(2) i assms(1)
    by (auto simp: run_deferred_def same_index_def put_def listing_inv_def distinct_delete split: deferred.splits sum.splits)
  then have "w' = put i ((conn w1 i)\<lparr>k_defers := ds, k_pc := (if ds = [] then Finished else AtReturn)\<rparr>) (w1\<lparr>w_conns := w_conns w\<rparr>)"
    "same_index (conn w i) (conn w1 i)" "gm_wf (w_connInfo w1)"
    using d(3) by (auto simp: put_def) (metis list_update_overwrite)+
  moreover have "info_index_ok (conn w i)" using assms(1) i by (simp add: listing_inv_def)
  ultimately show ?thesis using put_listing [OF assms(1), of "w1\<lparr>w_conns := w_conns w\<rparr>"] i
    by (auto simp: info_index_ok_def same_index_def unregistered_def starting_def)
qed

lemma counter_infos [simp]:
  "w_connInfo (add_upstream u f w) = w_connInfo w" "w_connInfo (getPerIPCounter k w) = w_connInfo w" "w_connInfo (getModuleCounters m u w) = w_connInfo w"
  "w_connInfo (add_module key g w) = w_connInfo w" "w_conns (getPerIPCounter k w) = w_conns w"
  by (simp_all add: add_upstream_def getUpstreamCounters_def getPerIPCounter_def getModuleCounters_def add_module_def Let_def)

lemma finish_listing:
  assumes "listing_inv w" "at w i p"
  shows "listing_inv (relay_finish i w)"
  using assms unfolding relay_finish_def Let_def
  by (auto simp: at_def same_index_def unregistered_def starting_def returns_def intro!: move_listing split: phase.split)

lemma step_listing:
  assumes inv: "listing_inv w" and step: "relay_step w w'"
  shows "listing_inv w'"
  using step
proof cases
  case accept
  then show ?thesis using inv by (simp add: listing_inv_def accept_conn_def fresh_conn_def info_index_ok_def unregistered_def starting_def)
next
  case (handle i p)
  have "gm_wf (w_connInfo w)" using inv by (simp add: listing_inv_def)
  with handle show ?thesis unfolding handle(1) handleConn_def Let_def
    by (auto simp: at_def starting_def unregistered_def info_index_ok_def intro!: put_listing [OF inv])
next
  case arrived: (arrive i)
  then have "info_index_ok (conn w i)" "gm_wf (w_connInfo w)" using inv by (simp_all add: listing_inv_def)
  then show ?thesis using arrived put_listing [OF inv refl] by (simp add: info_index_ok_def)
next
  case arrived: (arrive_up i)
  then have "info_index_ok (conn w i)" "gm_wf (w_connInfo w)" using inv by (simp_all add: listing_inv_def)
  then show ?thesis using arrived put_listing [OF inv refl] by (simp add: info_index_ok_def)
next
  case (register i now)
  have "gm_wf (AList.update (k_index (conn w i)) i (w_connInfo w))" using inv by (simp add: listing_inv_def distinct_update)
  then show ?thesis unfolding register(1) relay_register_def Let_def
    by (intro put_listing [OF inv]) (simp_all add: info_index_ok_def)
next
  case (unwind i)
  then show ?thesis using unwind_listing inv by blast
next
  case reload
  then show ?thesis using inv by (simp add: listing_inv_def)
next
  case scrape
  then show ?thesis using inv by (simp add: listing_inv_def getUpstreamCounters_def)
next
  case (finish i)
  then show ?thesis using inv finish_listing by blast
next
  case (total i p)
  then show ?thesis using inv finish_listing by blast
qed (use inv in \<open>auto simp: relay_lookup_def relay_count_def relay_over_def relay_acquire_def relay_status_def relay_wait_def relay_dial_def
    relay_tick_def Let_def same_index_def unregistered_def starting_def returns_def writes_def at_def relaying_def
    intro!: move_listing conn_same_index split: option.split sum.split prod.split tick_result.split\<close>)

interpretation listing: transition_system world_init relay_step listing_inv
proof unfold_locales
  show "listing_inv w" if "world_init w" for w
    using that by (simp add: world_init_def NewWorld_def listing_inv_def)
qed (rule step_listing)

lemma registered_started: "conn_ok H c \<Longrightarrow> registered c \<Longrightarrow> \<not> unregistered (k_pc c)"
  by (auto simp: conn_ok_def registered_def unregistered_def starting_def)

lemma connInfo_positions:
  assumes "world_inv w" "listing_inv w" "length (w_conns w) < 2 ^ 32"
  shows "mset (map snd (w_connInfo w)) = mset (filter (\<lambda>i. registered (conn w i)) [0..<length (w_conns w)])"
proof -
  have entry: "(idx, i) \<in> set (w_connInfo w) \<longleftrightarrow> i < length (w_conns w) \<and> idx = k_index (conn w i) \<and> registered (conn w i)" for idx i
  proof -
    have "(idx, i) \<in> set (w_connInfo w) \<longleftrightarrow> map_of (w_connInfo w) idx = Some i"
      using assms(2) unfolding listing_inv_def by (elim conjE) (rule gm_wf_lookup)
    moreover have "map_of (w_connInfo w) idx = Some i \<longleftrightarrow>
        i < length (w_conns w) \<and> idx = k_index (conn w i) \<and> DConnInfo idx \<in> set (k_defers (conn w i))"
      using assms(1,3) unfolding world_inv_def info_ok_def by blast
    ultimately show ?thesis by (auto simp: registered_def)
  qed
  have "inj_on snd (set (w_connInfo w))" by (auto simp: inj_on_def entry)
  moreover have "distinct (w_connInfo w)" using assms(2) unfolding listing_inv_def by (metis distinct_map)
  ultimately have "distinct (map snd (w_connInfo w))" by (simp add: distinct_map)
  moreover have "set (map snd (w_connInfo w)) = set (filter (\<lambda>i. registered (conn w i)) [0..<length (w_conns w)])"
    using entry by force
  ultimately show ?thesis by (intro set_eq_iff_mset_eq_distinct [THEN iffD1]) simp_all
qed

lemma registered_index:
  assumes "world_inv w" "listing_inv w" "c \<in> set (filter registered (w_conns w))"
  shows "ci_Index (k_info c) = k_index c"
  using assms registered_started [of "heap w" c] inv_conns [OF assms(1)] by (auto simp: listing_inv_def info_index_ok_def)

lemma registered_distinct:
  assumes "world_inv w" "length (w_conns w) < 2 ^ 32"
  shows "distinct (map k_index (filter registered (w_conns w)))"
proof -
  let ?is = "filter (\<lambda>i. registered (conn w i)) [0..<length (w_conns w)]"
  have eq: "filter registered (w_conns w) = map (conn w) ?is"
    using filter_map [of registered "conn w" "[0..<length (w_conns w)]"] by (simp add: map_nth comp_def)
  have "inj_on (\<lambda>i. k_index (conn w i)) (set ?is)"
  proof (rule inj_onI)
    fix i j assume ij: "i \<in> set ?is" "j \<in> set ?is" "k_index (conn w i) = k_index (conn w j)"
    have "k \<in> ticketed w" if "k \<in> set ?is" for k using that registered_ticketed [OF assms(1)] by (auto simp: registered_def)
    with ij index_inj [OF _ assms(2)] show "i = j" using assms(1) by (auto simp: world_inv_def)
  qed
  then show ?thesis unfolding eq by (simp add: distinct_map comp_def)
qed

lemma registered_list:
  assumes "world_inv w" "listing_inv w" "length (w_conns w) < 2 ^ 32"
  shows "ListConnectionInfo w = map k_info (sort_key k_index (filter registered (w_conns w)))"
proof -
  let ?cs = "filter registered (w_conns w)" and ?xs = "map (\<lambda>(idx, i). k_info (conn w i)) (w_connInfo w)"
  let ?is = "filter (\<lambda>i. registered (conn w i)) [0..<length (w_conns w)]"
  have eq: "?cs = map (conn w) ?is"
    using filter_map [of registered "conn w" "[0..<length (w_conns w)]"] by (simp add: map_nth comp_def)
  have "mset ?xs = image_mset (\<lambda>i. k_info (conn w i)) (mset (map snd (w_connInfo w)))"
    by (simp add: multiset.map_comp comp_def case_prod_unfold)
  also have "\<dots> = mset (map k_info ?cs)" unfolding connInfo_positions [OF assms] eq by (simp add: multiset.map_comp comp_def)
  finally have m: "mset ?xs = mset (map k_info (sort_key k_index ?cs))" by simp
  have idx: "ci_Index (k_info c) = k_index c" if "c \<in> set ?cs" for c using registered_index [OF assms(1,2) that] .
  have "sorted (map k_index (sort_key k_index ?cs))" by simp
  moreover have "map ci_Index (map k_info (sort_key k_index ?cs)) = map k_index (sort_key k_index ?cs)" using idx by simp
  ultimately have "sorted (map ci_Index (map k_info (sort_key k_index ?cs)))" by (simp only:)
  moreover have "inj_on ci_Index (k_info ` set ?cs)"
    using registered_distinct [OF assms(1,3)] idx by (auto simp: distinct_map inj_on_def)
  then have "inj_on ci_Index (set ?xs)" using mset_eq_setD [OF m] by simp
  ultimately show ?thesis unfolding ListConnectionInfo_def using m by (intro sort_key_inj_key_eq)
qed

lemma connectionCounts_step:
  "fold (\<lambda>c m. AList.update (conn_group c) ((case map_of m (conn_group c) of None \<Rightarrow> 0 | Some n \<Rightarrow> n) + 1) m) cs m0 = m \<Longrightarrow> gm_wf m0 \<Longrightarrow>
   gm_wf m \<and> (case map_of m g of None \<Rightarrow> 0 | Some n \<Rightarrow> n) =
     (case map_of m0 g of None \<Rightarrow> 0 | Some n \<Rightarrow> n) + int (length (filter (\<lambda>c. conn_group c = g) cs))"
proof (induction cs arbitrary: m0)
  case (Cons c cs)
  from Cons.IH [OF Cons.prems(1) [unfolded fold_Cons comp_def]] Cons.prems(2) show ?case
    by (simp add: distinct_update update_conv split: option.split)
qed simp

text \<open>C38: While fewer than \<open>2^32\<close> connections have been accepted, the listing that the status page and the metrics use has exactly the
  connections that registered and have not returned, each once, sorted by the index that their goroutines took when they started (which
  need not be the order of acceptance); no two of them have the same index. A group of the gauge by module counts the listed connections of
  that module and upstream.\<close>

theorem connections_are_listed:
  assumes "world_reachable w" "length (w_conns w) < 2 ^ 32"
  shows "ListConnectionInfo w = map k_info (sort_key k_index (filter registered (w_conns w))) \<and>
    distinct (map k_index (filter registered (w_conns w))) \<and>
    (case map_of (connectionCounts (ListConnectionInfo w)) g of None \<Rightarrow> 0 | Some n \<Rightarrow> n) =
      int (length (filter (\<lambda>c. registered c \<and> conn_group (k_info c) = g) (w_conns w)))"
proof -
  have inv: "world_inv w" "listing_inv w" using assms(1) by (rule reachable_world_inv, rule listing.reachable_inv)
  note l = registered_list [OF inv assms(2)]
  have "(case map_of (connectionCounts (ListConnectionInfo w)) g of None \<Rightarrow> 0 | Some n \<Rightarrow> n) =
      int (length (filter (\<lambda>c. conn_group c = g) (ListConnectionInfo w)))"
    using connectionCounts_step [of "ListConnectionInfo w" "[]" _ g] by (simp add: connectionCounts_def)
  also have "\<dots> = int (size (filter_mset (\<lambda>c. conn_group c = g) (mset (ListConnectionInfo w))))" by (metis mset_filter size_mset)
  also have "mset (ListConnectionInfo w) = mset (map k_info (filter registered (w_conns w)))" unfolding l by simp
  also have "size (filter_mset (\<lambda>c. conn_group c = g) \<dots>) = length (filter (\<lambda>c. conn_group c = g) (map k_info (filter registered (w_conns w))))"
    by (metis mset_filter size_mset)
  finally show ?thesis using l registered_distinct [OF inv(1) assms(2)] by (simp add: filter_map comp_def conj_commute)
qed

lemma list_script_runs:
  "case run (client_script @ relay_script) NewWorld of None \<Rightarrow> False
   | Some w \<Rightarrow> length (w_conns w) = 1 \<and> map snapshot (ListConnectionInfo w) =
       [\<lparr>sn_Index = 1, sn_LocalAddr = ''10.0.0.1:873'', sn_RemoteAddr = ''10.0.0.7:40000'', sn_ConnectedAt = 0, sn_Module = ''debian'',
         sn_Upstream = ''a'', sn_SentBytes = 5, sn_ReceivedBytes = 4\<rparr>] \<and>
       registered (conn w 0)"
  by code_simp

theorem connections_are_listed_witness:
  "\<exists>w. run (client_script @ relay_script) NewWorld = Some w \<and> length (ListConnectionInfo w) = 1 \<and>
     ListConnectionInfo w = map k_info (sort_key k_index (filter registered (w_conns w)))"
proof -
  obtain w where w: "world_reachable w" "run (client_script @ relay_script) NewWorld = Some w" "length (w_conns w) = 1" "registered (conn w 0)"
    using script_world [OF list_script_runs] by blast
  then have l: "ListConnectionInfo w = map k_info (sort_key k_index (filter registered (w_conns w)))" using connections_are_listed [of w] by simp
  have "w_conns w = [conn w 0]" using w(3) by (cases "w_conns w") simp_all
  then have "filter registered (w_conns w) = [conn w 0]" using w(4) by (metis filter.simps)
  then show ?thesis using w(2) l by simp
qed

text \<open>A scrape of that run, without the help lines.\<close>

lemma sample_scrape:
  "map_option (\<lambda>w. filter (\<lambda>l. \<not> HasPrefix l ''#'') (total_metrics w)) (run finish_script NewWorld) = Some
     [''rsync_proxy_accepted_connections_total 1'', ''rsync_proxy_completed_connections_total 1'', ''rsync_proxy_sent_bytes_total 5'',
      ''rsync_proxy_received_bytes_total 4'',
      ''rsync_proxy_module_completed_connections_total{'' @ label ''module'' ''debian'' @ '','' @ label ''upstream'' ''a'' @ ''} 1'',
      ''rsync_proxy_module_sent_bytes_total{'' @ label ''module'' ''debian'' @ '','' @ label ''upstream'' ''a'' @ ''} 5'',
      ''rsync_proxy_module_received_bytes_total{'' @ label ''module'' ''debian'' @ '','' @ label ''upstream'' ''a'' @ ''} 4'']"
  by code_simp

end
