(* ===== verification/Dataplane.thy ===== *)
theory Dataplane
  imports ServerConfig
begin

text \<open>
  The embedded data plane (\<open>internal/dataplane/dataplane.go\<close>) with the listeners of a server
  (\<open>Server.Listen\<close> and \<open>Server.Close\<close> in \<open>server.go\<close>, \<open>listenTCPOrUnix\<close> in \<open>utils.go\<close>).
  The sockets of the process are a ledger of open listeners; \<open>net.Listen\<close> and \<open>os.Chmod\<close> are
  parameters that say what each attempt returns. A data plane is its list of servers.
\<close>

section \<open>Sockets\<close>

record Net =
  net_open :: "nat list"
  net_next :: nat

record NetEnv =
  ne_Listen :: "nat \<Rightarrow> string \<Rightarrow> string \<Rightarrow> string + string"
  ne_Chmod :: "nat \<Rightarrow> string option"

definition net_listen :: "NetEnv \<Rightarrow> string \<Rightarrow> string \<Rightarrow> Net \<Rightarrow> (string + listener) \<times> Net" where
  "net_listen ne network addr net =
     (let i = net_next net; net' = net\<lparr>net_next := Suc i\<rparr> in
      case ne_Listen ne i network addr of
        Inl e \<Rightarrow> (Inl e, net')
      | Inr a \<Rightarrow> (Inr \<lparr>lst_Id = i, lst_Addr = a\<rparr>, net'\<lparr>net_open := net_open net @ [i]\<rparr>))"

text \<open>Closing a listener twice is harmless.\<close>

definition net_close :: "listener \<Rightarrow> Net \<Rightarrow> Net" where
  "net_close l net = net\<lparr>net_open := removeAll (lst_Id l) (net_open net)\<rparr>"

text \<open>\<open>listenTCPOrUnix\<close> returns the listener together with the error when the mode of its socket cannot be set.\<close>

definition listenTCPOrUnix :: "NetEnv \<Rightarrow> string \<Rightarrow> Net \<Rightarrow> ((listener option \<times> string) + listener) \<times> Net" where
  "listenTCPOrUnix ne addr net =
     (if HasPrefix addr ''/'' then
        (case net_listen ne ''unix'' addr net of
           (Inl e, net') \<Rightarrow> (Inl (None, e), net')
         | (Inr l, net') \<Rightarrow> (case ne_Chmod ne (lst_Id l) of Some e \<Rightarrow> (Inl (Some l, e), net') | None \<Rightarrow> (Inr l, net')))
      else
        (case net_listen ne ''tcp'' addr net of
           (Inl e, net') \<Rightarrow> (Inl (None, e), net')
         | (Inr l, net') \<Rightarrow> (Inr l, net')))"

definition bindAddr :: "NetEnv \<Rightarrow> string \<Rightarrow> Net \<Rightarrow> (string + listener) \<times> Net" where
  "bindAddr ne addr net =
     (if HasPrefix addr ''/'' then
        (case net_listen ne ''unix'' addr net of
           (Inl e, net') \<Rightarrow> (Inl e, net')
         | (Inr l, net') \<Rightarrow>
             (case ne_Chmod ne (lst_Id l) of
                Some e \<Rightarrow> (Inl e, net_close l net')
              | None \<Rightarrow> (Inr l, net')))
      else net_listen ne ''tcp'' addr net)"

section \<open>The listeners of a server\<close>

definition close_opt :: "listener option \<Rightarrow> Net \<Rightarrow> Net" where
  "close_opt l net = (case l of None \<Rightarrow> net | Some l \<Rightarrow> net_close l net)"

definition Listen :: "NetEnv \<Rightarrow> Server \<Rightarrow> Net \<Rightarrow> (Server \<times> string option) \<times> Net" where
  "Listen ne s net =
     (case listenTCPOrUnix ne (s_ListenAddr s) net of
        (Inl (_, e), net1) \<Rightarrow> ((s, Some (''create tcp listener: '' @ e)), net1)
      | (Inr l1, net1) \<Rightarrow>
     (let s1 = s\<lparr>s_ListenAddr := lst_Addr l1\<rparr> in
      case (if s_TLSListenAddr s1 \<noteq> '''' then
              (case listenTCPOrUnix ne (s_TLSListenAddr s1) net1 of
                 (Inl (_, e), net2) \<Rightarrow> (Inl e, net2) | (Inr l, net2) \<Rightarrow> (Inr (Some l), net2))
            else (Inr None, net1)) of
        (Inl e, net2) \<Rightarrow> ((s1, Some (''create tls listener: '' @ e)), net_close l1 net2)
      | (Inr lTLS, net2) \<Rightarrow>
     (let s2 = (case lTLS of None \<Rightarrow> s1 | Some l \<Rightarrow> s1\<lparr>s_TLSListenAddr := lst_Addr l\<rparr>) in
      case listenTCPOrUnix ne (s_HTTPListenAddr s2) net2 of
        (Inl (_, e), net3) \<Rightarrow> ((s2, Some (''create http listener: '' @ e)), close_opt lTLS (net_close l1 net3))
      | (Inr l2, net3) \<Rightarrow>
          ((s2\<lparr>s_HTTPListenAddr := lst_Addr l2, s_TCPListener := Some l1, s_TLSListener := lTLS, s_HTTPListener := Some l2\<rparr>, None), net3))))"

definition CloseServer :: "Server \<Rightarrow> Net \<Rightarrow> Net" where
  "CloseServer s net = close_opt (s_HTTPListener s) (close_opt (s_TLSListener s) (close_opt (s_TCPListener s) net))"

section \<open>The data plane\<close>

type_synonym Dataplane = "Server list"

record Options =
  o_BindAddrs :: "string list"
  o_AdminAddr :: string
  o_ReadTimeout :: int
  o_WriteTimeout :: int

definition emptyTableConfig :: Config where
  "emptyTableConfig = \<lparr>c_Proxy = zero_proxy, c_Upstreams = []\<rparr>"

definition CloseAll :: "Dataplane \<Rightarrow> Net \<Rightarrow> Net" where
  "CloseAll d net = fold CloseServer d net"

text \<open>What \<open>New\<close> returns instead of a data plane.\<close>

datatype new_error = NewPanic chan_error | NewError string

text \<open>One server of the loop in \<open>New\<close>: the first one listens itself, the others get a socket and a closed dummy listener.\<close>

definition minute_default :: "int \<Rightarrow> int" where
  "minute_default t = (if t = 0 then 60 * 1000000000 else t)"

definition bind_extra :: "NetEnv \<Rightarrow> string \<Rightarrow> Server \<Rightarrow> Net \<Rightarrow> (new_error + Server) \<times> Net" where
  "bind_extra ne addr srv net =
     (case bindAddr ne addr net of
        (Inl e, net1) \<Rightarrow> (Inl (NewError (''dataplane: listen on '' @ addr @ '': '' @ e)), net1)
      | (Inr l, net1) \<Rightarrow>
          (case net_listen ne ''tcp'' ''127.0.0.1:0'' net1 of
             (Inl e, net2) \<Rightarrow> (Inl (NewError (''dataplane: create dummy http listener: '' @ e)), net_close l net2)
           | (Inr dummy, net2) \<Rightarrow>
               (Inr (srv\<lparr>s_TCPListener := Some l, s_ListenAddr := lst_Addr l, s_HTTPListener := Some dummy\<rparr>), net_close dummy net2)))"

definition new_server :: "Env \<Rightarrow> NetEnv \<Rightarrow> Options \<Rightarrow> bool \<Rightarrow> string \<Rightarrow> Net \<Rightarrow> (new_error + Server) \<times> Net" where
  "new_server env ne opts first addr net =
     (let srv = NewServer\<lparr>s_ReadTimeout := minute_default (o_ReadTimeout opts), s_WriteTimeout := minute_default (o_WriteTimeout opts)\<rparr> in
      case ApplyConfig env emptyTableConfig False srv of
        Inl p \<Rightarrow> (Inl (NewPanic p), net)
      | Inr (srv1, Some e) \<Rightarrow> (Inl (NewError (''dataplane: apply initial config: '' @ e)), net)
      | Inr (srv1, None) \<Rightarrow>
          if first then
            (case Listen ne (srv1\<lparr>s_ListenAddr := addr, s_HTTPListenAddr := o_AdminAddr opts\<rparr>) net of
               ((srv2, Some e), net1) \<Rightarrow> (Inl (NewError (''dataplane: listen on '' @ addr @ '': '' @ e)), net1)
             | ((srv2, None), net1) \<Rightarrow> (Inr srv2, net1))
          else bind_extra ne addr srv1 net)"

fun new_servers :: "Env \<Rightarrow> NetEnv \<Rightarrow> Options \<Rightarrow> Dataplane \<Rightarrow> string list \<Rightarrow> Net \<Rightarrow> (new_error + Dataplane) \<times> Net" where
  "new_servers env ne opts d [] net = (Inr d, net)"
| "new_servers env ne opts d (addr # addrs) net =
     (case new_server env ne opts (d = []) addr net of
        (Inl e, net1) \<Rightarrow> (Inl e, CloseAll d net1)
      | (Inr srv, net1) \<Rightarrow> new_servers env ne opts (d @ [srv]) addrs net1)"

definition NewDataplane :: "Env \<Rightarrow> NetEnv \<Rightarrow> Options \<Rightarrow> Net \<Rightarrow> (new_error + Dataplane) \<times> Net" where
  "NewDataplane env ne opts net =
     (if o_BindAddrs opts = [] then (Inl (NewError ''dataplane: at least one bind address is required''), net)
      else if o_AdminAddr opts = '''' then (Inl (NewError ''dataplane: admin address is required''), net)
      else new_servers env ne opts [] (o_BindAddrs opts) net)"

text \<open>\<open>Apply\<close> stops at the first server that refuses. Each server resolves the addresses anew: \<open>envs i\<close> is what the outside answers
  while the \<open>i\<close>-th server loads the table.\<close>

fun Apply :: "(nat \<Rightarrow> Env) \<Rightarrow> Config \<Rightarrow> Dataplane \<Rightarrow> chan_error + (Dataplane \<times> string option)" where
  "Apply envs cfg [] = Inr ([], None)"
| "Apply envs cfg (srv # rest) =
     bindE (ApplyConfig (envs 0) cfg False srv) (\<lambda>(srv', e).
       case e of
         Some err \<Rightarrow> Inr (srv' # rest, Some (''dataplane: apply config: '' @ err))
       | None \<Rightarrow> bindE (Apply (envs \<circ> Suc) cfg rest) (\<lambda>(rest', e'). Inr (srv' # rest', e')))"

text \<open>\<open>runOne\<close> keeps the first error of a server that stopped: the channel holds one.\<close>

definition runOne :: "string option \<Rightarrow> string option \<Rightarrow> string option" where
  "runOne err errC = (case err of None \<Rightarrow> errC | Some e \<Rightarrow> (case errC of None \<Rightarrow> Some e | Some _ \<Rightarrow> errC))"

text \<open>
  \<open>Start\<close> runs every server in a goroutine of its own. \<open>ended\<close> are the servers whose \<open>Run\<close> has returned, in that order, with what it
  returned; the result is the content of the channel that \<open>Err\<close> exposes.
\<close>

definition Start :: "string option list \<Rightarrow> string option" where
  "Start ended = fold runOne ended None"

definition Err :: "string option \<Rightarrow> string option" where
  "Err errC = errC"

text \<open>The servers are drained one after the other; \<open>drained\<close> is what \<open>Server.Drain\<close> returned for each.\<close>

definition DrainAll :: "int list \<Rightarrow> int" where
  "DrainAll drained = fold (\<lambda>n remaining. if n > remaining then n else remaining) drained 0"

definition Addrs :: "Dataplane \<Rightarrow> string list" where
  "Addrs d = map s_ListenAddr d"

definition AdminAddr :: "Dataplane \<Rightarrow> string" where
  "AdminAddr d = (case d of [] \<Rightarrow> '''' | srv # _ \<Rightarrow> s_HTTPListenAddr srv)"

section \<open>The ledger of sockets\<close>

definition extends :: "nat list \<Rightarrow> Net \<Rightarrow> Net \<Rightarrow> bool" where
  "extends ids net net' \<longleftrightarrow> net_open net' = net_open net @ ids \<and> net_next net \<le> net_next net' \<and>
     (\<forall>i\<in>set ids. net_next net \<le> i \<and> i < net_next net')"

definition net_wf :: "Net \<Rightarrow> bool" where
  "net_wf net \<longleftrightarrow> (\<forall>i\<in>set (net_open net). i < net_next net)"

lemma extends_refl [simp]: "extends [] net net"
  by (simp add: extends_def)

lemma extends_trans: "extends xs a b \<Longrightarrow> extends ys b c \<Longrightarrow> extends (xs @ ys) a c"
  by (auto simp: extends_def)

lemma extends_wf: "extends xs a b \<Longrightarrow> net_wf a \<Longrightarrow> net_wf b"
  by (auto simp: extends_def net_wf_def)

lemma extends_close:
  assumes "net_wf a" "extends xs a b" "net_next a \<le> lst_Id l"
  shows "extends (removeAll (lst_Id l) xs) a (net_close l b)"
  using assms by (auto simp: extends_def net_close_def net_wf_def) (metis leD removeAll_id)

lemma net_listen_extends:
  "net_listen ne n a net = (Inl e, net') \<Longrightarrow> extends [] net net'"
  "net_listen ne n a net = (Inr l, net') \<Longrightarrow> extends [lst_Id l] net net'"
  by (auto simp: net_listen_def extends_def Let_def split: sum.splits)

lemma listenTCPOrUnix_extends:
  assumes "\<forall>i. ne_Chmod ne i = None"
  shows "listenTCPOrUnix ne a net = (Inl e, net') \<Longrightarrow> extends [] net net'"
    and "listenTCPOrUnix ne a net = (Inr l, net') \<Longrightarrow> extends [lst_Id l] net net'"
  using assms net_listen_extends [of ne _ a net]
  by (auto simp: listenTCPOrUnix_def split: if_splits prod.splits sum.splits option.splits)

lemma bindAddr_extends:
  assumes "\<forall>i. ne_Chmod ne i = None"
  shows "bindAddr ne a net = (Inl e, net') \<Longrightarrow> extends [] net net'"
    and "bindAddr ne a net = (Inr l, net') \<Longrightarrow> extends [lst_Id l] net net'"
  using assms net_listen_extends [of ne _ a net]
  by (auto simp: bindAddr_def split: if_splits prod.splits sum.splits option.splits)

text \<open>The listeners a server holds, by identity.\<close>

definition server_ids :: "Server \<Rightarrow> nat set" where
  "server_ids s = lst_Id ` (set_option (s_TCPListener s) \<union> set_option (s_TLSListener s) \<union> set_option (s_HTTPListener s))"

lemma close_opt_open: "net_open (close_opt l net) = filter (\<lambda>i. i \<notin> lst_Id ` set_option l) (net_open net)"
  by (cases l) (auto simp: close_opt_def net_close_def removeAll_filter_not_eq intro: filter_cong)

lemma CloseServer_open: "net_open (CloseServer s net) = filter (\<lambda>i. i \<notin> server_ids s) (net_open net)"
  by (auto simp: CloseServer_def close_opt_open server_ids_def image_Un intro!: filter_cong)

lemma CloseAll_open: "net_open (CloseAll d net) = filter (\<lambda>i. i \<notin> \<Union> (server_ids ` set d)) (net_open net)"
  by (induction d arbitrary: net) (auto simp: CloseAll_def CloseServer_open conj_commute intro!: filter_cong)

text \<open>A server without TLS either listens on both sockets or gives back the one it opened.\<close>

lemma Listen_extends:
  assumes ok: "\<forall>i. ne_Chmod ne i = None" and net: "net_wf net" and tls: "s_TLSListenAddr s = ''''"
  shows "Listen ne s net = ((s', Some e), net') \<Longrightarrow> extends [] net net'"
    and "Listen ne s net = ((s', None), net') \<Longrightarrow>
      \<exists>l1 l2. extends [lst_Id l1, lst_Id l2] net net' \<and> s' = s\<lparr>s_ListenAddr := lst_Addr l1, s_HTTPListenAddr := lst_Addr l2,
        s_TCPListener := Some l1, s_TLSListener := None, s_HTTPListener := Some l2\<rparr>"
proof -
  obtain r1 net1 where 1: "listenTCPOrUnix ne (s_ListenAddr s) net = (r1, net1)" by fastforce
  obtain r2 net2 where 2: "listenTCPOrUnix ne (s_HTTPListenAddr s) net1 = (r2, net2)" by fastforce
  note ext = listenTCPOrUnix_extends [OF ok]
  { assume "Listen ne s net = ((s', Some e), net')"
    then show "extends [] net net'"
    proof (cases r1)
      case (Inl x)
      then show ?thesis using 1 ext(1) [of "s_ListenAddr s" net] \<open>Listen ne s net = _\<close> by (auto simp: Listen_def split: prod.splits)
    next
      case (Inr l1)
      then have e1: "extends [lst_Id l1] net net1" using 1 ext(2) by blast
      moreover obtain x where "r2 = Inl x" "net' = net_close l1 net2"
        using 1 2 Inr tls \<open>Listen ne s net = _\<close> by (cases r2) (auto simp: Listen_def Let_def close_opt_def split: prod.splits)
      moreover from this have "extends [] net1 net2" using 2 ext(1) by blast
      ultimately show ?thesis using extends_close [OF net, of "[lst_Id l1]" net2 l1] extends_trans [of "[lst_Id l1]" net net1 "[]" net2]
        by (auto simp: extends_def)
    qed }
  { assume l: "Listen ne s net = ((s', None), net')"
    then obtain l1 l2 where "r1 = Inr l1" "r2 = Inr l2" "net' = net2"
      "s' = s\<lparr>s_ListenAddr := lst_Addr l1, s_HTTPListenAddr := lst_Addr l2, s_TCPListener := Some l1, s_TLSListener := None, s_HTTPListener := Some l2\<rparr>"
      using 1 2 tls by (cases r1; cases r2) (auto simp: Listen_def Let_def split: prod.splits)
    moreover from this have "extends [lst_Id l1] net net1" "extends [lst_Id l2] net1 net2" using 1 2 ext(2) by blast+
    ultimately show "\<exists>l1 l2. extends [lst_Id l1, lst_Id l2] net net' \<and> s' = s\<lparr>s_ListenAddr := lst_Addr l1, s_HTTPListenAddr := lst_Addr l2,
        s_TCPListener := Some l1, s_TLSListener := None, s_HTTPListener := Some l2\<rparr>"
      using extends_trans by fastforce }
qed

section \<open>Servers that are ready\<close>

text \<open>A server of the data plane: it serves no module yet, and its rsync socket is open.\<close>

definition ready :: "Net \<Rightarrow> Server \<Rightarrow> bool" where
  "ready net s \<longleftrightarrow> srv_inv s \<and> s_TLSListener s = None \<and> s_modules s = [] \<and>
     (\<exists>l. s_TCPListener s = Some l \<and> s_ListenAddr s = lst_Addr l \<and> lst_Id l \<in> set (net_open net))"

lemma initial_config:
  obtains srv where "ApplyConfig env emptyTableConfig False (NewServer\<lparr>s_ReadTimeout := r, s_WriteTimeout := t\<rparr>) = Inr (srv, None)"
    "srv_inv srv" "s_modules srv = []" "s_TLSListenAddr srv = ''''" "s_TCPListener srv = None" "s_TLSListener srv = None"
    "s_HTTPListener srv = None"
proof -
  let ?s = "NewServer\<lparr>s_ReadTimeout := r, s_WriteTimeout := t\<rparr>"
  have c: "check_config env emptyTableConfig ?s = Inr (None, [])"
    by (simp add: check_config_def check_tls_def check_proxy_def emptyTableConfig_def zero_proxy_def sorted_upstreams_def non_negative_def
        NewServer_def Let_def)
  have "\<exists>srv. ApplyConfig env emptyTableConfig False ?s = Inr (srv, None) \<and> srv_inv srv \<and> s_modules srv = [] \<and> s_TLSListenAddr srv = '''' \<and>
      s_TCPListener srv = None \<and> s_TLSListener srv = None \<and> s_HTTPListener srv = None"
    using c by (simp add: ApplyConfig_def loadConfig_def Let_def emptyTableConfig_def zero_proxy_def resolveUpstreams_def
        buildModuleTargets_def updateUpstreamQueuesLocked_def set_addrs_def set_timings_def NewServer_def srv_inv_def queues_ok_def)
  then show thesis using that by blast
qed

lemma bind_extra_extends:
  assumes ok: "\<forall>i. ne_Chmod ne i = None" and net: "net_wf net"
  shows "bind_extra ne addr s net = (Inl e, net') \<Longrightarrow> extends [] net net' \<and> (\<exists>msg. e = NewError msg)"
    and "bind_extra ne addr s net = (Inr s', net') \<Longrightarrow>
      \<exists>l dummy. extends [lst_Id l] net net' \<and> net_next net \<le> lst_Id dummy \<and> s' = s\<lparr>s_TCPListener := Some l, s_ListenAddr := lst_Addr l, s_HTTPListener := Some dummy\<rparr>"
proof -
  obtain rb net1 where b: "bindAddr ne addr net = (rb, net1)" by fastforce
  obtain rd net2 where d: "net_listen ne ''tcp'' ''127.0.0.1:0'' net1 = (rd, net2)" by fastforce
  have b1: "extends [lst_Id l] net net1" if "rb = Inr l" for l using bindAddr_extends(2) [OF ok] b that by blast
  { assume r: "bind_extra ne addr s net = (Inl e, net')"
    show "extends [] net net' \<and> (\<exists>msg. e = NewError msg)"
    proof (cases rb)
      case Inl
      then show ?thesis using r b bindAddr_extends(1) [OF ok] by (auto simp: bind_extra_def)
    next
      case (Inr l)
      then obtain x where x: "rd = Inl x" "net' = net_close l net2" "\<exists>msg. e = NewError msg"
        using r b d by (cases rd) (auto simp: bind_extra_def)
      then have "extends [lst_Id l] net net2"
        using extends_trans [OF b1 [OF Inr], of "[]" net2] net_listen_extends(1) d by simp
      then show ?thesis using extends_close [OF net, of "[lst_Id l]" net2 l] x by (simp add: extends_def)
    qed }
  { assume r: "bind_extra ne addr s net = (Inr s', net')"
    then obtain l dummy where l: "rb = Inr l" "rd = Inr dummy" "net' = net_close dummy net2"
      "s' = s\<lparr>s_TCPListener := Some l, s_ListenAddr := lst_Addr l, s_HTTPListener := Some dummy\<rparr>"
      using b d by (cases rb; cases rd) (auto simp: bind_extra_def)
    then have 1: "extends [lst_Id l] net net1" and 2: "extends [lst_Id dummy] net1 net2" using b1 d net_listen_extends(2) by blast+
    then have "extends (removeAll (lst_Id dummy) [lst_Id l, lst_Id dummy]) net net'"
      using extends_close [OF net, of "[lst_Id l, lst_Id dummy]" net2 dummy] extends_trans [OF 1 2] l(3) by (simp add: extends_def)
    moreover have "lst_Id l \<noteq> lst_Id dummy" "net_next net \<le> lst_Id dummy" using 1 2 by (auto simp: extends_def)
    ultimately show "\<exists>l dummy. extends [lst_Id l] net net' \<and> net_next net \<le> lst_Id dummy \<and>
        s' = s\<lparr>s_TCPListener := Some l, s_ListenAddr := lst_Addr l, s_HTTPListener := Some dummy\<rparr>" using l(4) by auto }
qed

lemma new_server_extends:
  assumes ok: "\<forall>i. ne_Chmod ne i = None" and net: "net_wf net"
  shows "new_server env ne opts first addr net = (Inl e, net') \<Longrightarrow> extends [] net net' \<and> (\<exists>msg. e = NewError msg)"
    and "new_server env ne opts first addr net = (Inr s, net') \<Longrightarrow>
      (\<exists>ids. extends ids net net' \<and> set ids \<subseteq> server_ids s) \<and> (\<forall>i\<in>server_ids s. net_next net \<le> i) \<and> ready net' s"
proof -
  let ?r = "minute_default (o_ReadTimeout opts)" and ?t = "minute_default (o_WriteTimeout opts)"
  obtain srv where srv: "ApplyConfig env emptyTableConfig False (NewServer\<lparr>s_ReadTimeout := ?r, s_WriteTimeout := ?t\<rparr>) = Inr (srv, None)"
    "srv_inv srv" "s_modules srv = []" "s_TLSListenAddr srv = ''''" "s_TCPListener srv = None" "s_TLSListener srv = None" "s_HTTPListener srv = None"
    by (rule initial_config)
  let ?s = "srv\<lparr>s_ListenAddr := addr, s_HTTPListenAddr := o_AdminAddr opts\<rparr>"
  have tls: "s_TLSListenAddr ?s = ''''" using srv(4) by simp
  note L = Listen_extends [OF ok net tls] and B = bind_extra_extends [OF ok net, of addr srv]
  have first: "new_server env ne opts True addr net = (case Listen ne ?s net of
       ((srv2, Some e), net1) \<Rightarrow> (Inl (NewError (''dataplane: listen on '' @ addr @ '': '' @ e)), net1) | ((srv2, None), net1) \<Rightarrow> (Inr srv2, net1))"
    and other: "new_server env ne opts False addr net = bind_extra ne addr srv net"
    using srv(1) by (simp_all add: new_server_def split: prod.split option.split)
  { assume r: "new_server env ne opts first addr net = (Inl e, net')"
    show "extends [] net net' \<and> (\<exists>msg. e = NewError msg)"
      using r L(1) B(1) by (cases first) (auto simp: first other split: prod.splits option.splits) }
  { assume r: "new_server env ne opts first addr net = (Inr s, net')"
    show "(\<exists>ids. extends ids net net' \<and> set ids \<subseteq> server_ids s) \<and> (\<forall>i\<in>server_ids s. net_next net \<le> i) \<and> ready net' s"
    proof (cases first)
      case True
      then obtain l1 l2 where "extends [lst_Id l1, lst_Id l2] net net'" "s = ?s\<lparr>s_ListenAddr := lst_Addr l1, s_HTTPListenAddr := lst_Addr l2,
          s_TCPListener := Some l1, s_TLSListener := None, s_HTTPListener := Some l2\<rparr>"
        using r L(2) by (auto simp: first split: prod.splits option.splits)
      then show ?thesis using srv by (auto simp: server_ids_def ready_def srv_inv_def extends_def intro!: exI [of _ "[lst_Id l1, lst_Id l2]"])
    next
      case False
      then obtain l dummy where "extends [lst_Id l] net net'" "net_next net \<le> lst_Id dummy"
          "s = srv\<lparr>s_TCPListener := Some l, s_ListenAddr := lst_Addr l, s_HTTPListener := Some dummy\<rparr>"
        using r B(2) by (auto simp: other)
      then show ?thesis using srv by (auto simp: server_ids_def ready_def srv_inv_def extends_def intro!: exI [of _ "[lst_Id l]"])
    qed }
qed

text \<open>The loop of \<open>New\<close>: closing the servers made so far always gives back the sockets that were open before.\<close>

definition made :: "Net \<Rightarrow> Dataplane \<Rightarrow> Net \<Rightarrow> bool" where
  "made net0 d net \<longleftrightarrow> (\<exists>ids. extends ids net0 net \<and> set ids \<subseteq> \<Union> (server_ids ` set d)) \<and>
     (\<forall>s\<in>set d. ready net s \<and> (\<forall>i\<in>server_ids s. net_next net0 \<le> i))"

lemma made_close: "net_wf net0 \<Longrightarrow> made net0 d net \<Longrightarrow> net_open (CloseAll d net) = net_open net0"
proof -
  assume wf: "net_wf net0" and m: "made net0 d net"
  then obtain ids where ids: "net_open net = net_open net0 @ ids" "set ids \<subseteq> \<Union> (server_ids ` set d)" by (auto simp: made_def extends_def)
  have "i \<notin> \<Union> (server_ids ` set d)" if "i \<in> set (net_open net0)" for i
  proof -
    have "i < net_next net0" using wf that by (simp add: net_wf_def)
    then show ?thesis using m by (auto simp: made_def dest!: leD)
  qed
  then have "filter (\<lambda>i. i \<notin> \<Union> (server_ids ` set d)) (net_open net0) = net_open net0" by (auto simp: filter_id_conv)
  moreover have "filter (\<lambda>i. i \<notin> \<Union> (server_ids ` set d)) ids = []" using ids(2) by (auto simp: filter_empty_conv)
  ultimately show ?thesis using ids(1) by (simp add: CloseAll_open)
qed

lemma ready_extends: "ready net s \<Longrightarrow> extends ids net net' \<Longrightarrow> ready net' s"
  by (auto simp: ready_def extends_def)

lemma new_servers_made:
  assumes "\<forall>i. ne_Chmod ne i = None" "net_wf net0" "made net0 d net"
  shows "(\<exists>msg net'. new_servers env ne opts d addrs net = (Inl (NewError msg), net') \<and> net_open net' = net_open net0) \<or>
     (\<exists>d' net'. new_servers env ne opts d addrs net = (Inr (d @ d'), net') \<and> made net0 (d @ d') net' \<and> length d' = length addrs)"
  using assms(3)
proof (induction addrs arbitrary: d net)
  case (Cons addr addrs)
  obtain ids where ids: "extends ids net0 net" "set ids \<subseteq> \<Union> (server_ids ` set d)" using Cons.prems by (auto simp: made_def)
  have wf: "net_wf net" using extends_wf [OF ids(1) assms(2)] .
  note N = new_server_extends [OF assms(1) wf, of env opts "d = []" addr]
  obtain r net1 where r: "new_server env ne opts (d = []) addr net = (r, net1)" by fastforce
  show ?case
  proof (cases r)
    case (Inl e)
    then have e: "extends [] net net1" "\<exists>msg. e = NewError msg" using N(1) r by blast+
    then have "made net0 d net1" using Cons.prems ready_extends [OF _ e(1)] extends_trans [OF ids(1) e(1)] ids(2)
      by (auto simp: made_def)
    then show ?thesis using made_close [OF assms(2)] e(2) r Inl by auto
  next
    case (Inr s)
    then obtain ids' where s: "extends ids' net net1" "set ids' \<subseteq> server_ids s" "\<forall>i\<in>server_ids s. net_next net \<le> i" "ready net1 s"
      using N(2) r by blast
    have "extends (ids @ ids') net0 net1" using extends_trans ids(1) s(1) by blast
    moreover have "net_next net0 \<le> net_next net" using ids(1) by (simp add: extends_def)
    ultimately have "made net0 (d @ [s]) net1"
      using Cons.prems ready_extends [OF _ s(1)] ids(2) s by (fastforce simp: made_def)
    from Cons.IH [OF this] show ?thesis using r Inr by auto
  qed
qed simp

lemma NewDataplane_result:
  assumes "\<forall>i. ne_Chmod ne i = None" "net_wf net"
  obtains msg net' where "NewDataplane env ne opts net = (Inl (NewError msg), net')" "net_open net' = net_open net"
  | d net' where "NewDataplane env ne opts net = (Inr d, net')" "length d = length (o_BindAddrs opts)" "\<forall>s\<in>set d. ready net' s"
      "net_open (CloseAll d net') = net_open net"
proof -
  have "made net [] net" by (auto simp: made_def)
  note loop = new_servers_made [OF assms this, of env opts "o_BindAddrs opts"]
  show thesis
  proof (cases "o_BindAddrs opts = [] \<or> o_AdminAddr opts = ''''")
    case False
    then have "NewDataplane env ne opts net = new_servers env ne opts [] (o_BindAddrs opts) net" by (simp add: NewDataplane_def)
    then show thesis using that loop made_close [OF assms(2)] unfolding made_def by (metis append_Nil)
  next
    case True
    then obtain msg where "NewDataplane env ne opts net = (Inl (NewError msg), net)" by (cases "o_BindAddrs opts = []") (simp_all add: NewDataplane_def)
    then show thesis using that(1) by blast
  qed
qed

lemma CloseAll_again: "net_open (CloseAll d (CloseAll d net)) = net_open (CloseAll d net)"
  by (simp add: CloseAll_open)

text \<open>C23: \<open>New\<close> either fails with an error, leaving exactly the sockets open that were open before, or returns one server per bind
  address, each consistent, without TLS, serving no module and listening on an open socket; closing that data plane gives back all its
  sockets. (The mode of UNIX sockets can be set.)\<close>

theorem NewDataplane_owns_its_sockets:
  assumes "\<forall>i. ne_Chmod ne i = None" "net_wf net"
  shows "(\<exists>msg net'. NewDataplane env ne opts net = (Inl (NewError msg), net') \<and> net_open net' = net_open net) \<or>
    (\<exists>d net'. NewDataplane env ne opts net = (Inr d, net') \<and> length d = length (o_BindAddrs opts) \<and>
       (\<forall>s\<in>set d. ready net' s) \<and> net_open (CloseAll d net') = net_open net)"
  by (rule NewDataplane_result [OF assms, of env opts]) blast+

section \<open>Applying a table\<close>

text \<open>Whether a configuration is accepted, for a server that has no TLS listener and is asked for none.\<close>

definition config_verdict :: "Env \<Rightarrow> Config \<Rightarrow> string option" where
  "config_verdict env cfg =
     (case check_config env cfg NewServer of
        Inl e \<Rightarrow> Some e
      | Inr _ \<Rightarrow> if ps_RelayIdleTimeoutSecs (c_Proxy cfg) < 0
          then Some (''relay_idle_timeout must be non-negative, got '' @ Itoa (ps_RelayIdleTimeoutSecs (c_Proxy cfg))) else None)"

definition plain_server :: "Server \<Rightarrow> bool" where
  "plain_server s \<longleftrightarrow> srv_inv s \<and> s_TLSListener s = None"

lemma check_config_plain:
  "s_TLSListener s = None \<Longrightarrow> ps_ListenTLS (c_Proxy cfg) = '''' \<Longrightarrow> check_config env cfg s = check_config env cfg NewServer"
  by (simp add: check_config_def check_tls_def NewServer_def)

lemma loadConfig_listeners:
  assumes "loadConfig env cfg False s = Inr (s', e)"
  shows "s_TCPListener s' = s_TCPListener s" "s_TLSListener s' = s_TLSListener s" "s_HTTPListener s' = s_HTTPListener s"
  using assms by (auto simp: loadConfig_def Let_def set_addrs_def set_timings_def resultE split: sum.splits prod.splits if_splits)

lemma loadConfig_plain:
  assumes "plain_server s" "gm_wf (c_Upstreams cfg)" "ps_ListenTLS (c_Proxy cfg) = ''''"
  shows "\<exists>s'. loadConfig env cfg False s = Inr (s', config_verdict env cfg) \<and> plain_server s' \<and>
    (config_verdict env cfg \<noteq> None \<longrightarrow> routing_state s' = routing_state s)"
proof -
  obtain s' e where l: "loadConfig env cfg False s = Inr (s', e)" "srv_inv s'"
    using loadConfig_total assms(1,2) unfolding plain_server_def by blast
  have chk: "check_config env cfg s = check_config env cfg NewServer"
    using assms by (intro check_config_plain) (simp_all add: plain_server_def)
  have "e = config_verdict env cfg"
  proof (cases "check_config env cfg NewServer")
    case (Inl x)
    then show ?thesis using l(1) chk by (simp add: loadConfig_def config_verdict_def)
  next
    case (Inr r)
    then show ?thesis using l(1) chk by (cases r) (auto simp: loadConfig_def config_verdict_def Let_def resultE split: if_splits)
  qed
  moreover have "routing_state s' = routing_state s" if "e \<noteq> None"
  proof -
    have "srv_inv s" using assms(1) by (simp add: plain_server_def)
    from this assms(2) show ?thesis by (rule loadConfig_cases [where env = env and openLog = False]) (use l that in auto)
  qed
  ultimately show ?thesis using l loadConfig_listeners [OF l(1)] assms(1) by (auto simp: plain_server_def)
qed

text \<open>What an accepted configuration installs does not depend on the server.\<close>

definition served_table :: "Server \<Rightarrow> (string, Target list) gomap \<times> upstreamConfig list \<times> relayTimings \<times> (int \<times> int) \<times> string" where
  "served_table s = (s_modules s, s_upstreams s, getRelayTimings s, getDialer s, s_Motd s)"

lemma loaded_table_same:
  assumes "plain_server s" "plain_server t" "ps_ListenTLS (c_Proxy cfg) = ''''"
    and "loadConfig env cfg False s = Inr (s', None)" "loadConfig env cfg False t = Inr (t', None)"
  shows "served_table s' = served_table t'"
proof -
  have "check_config env cfg s = check_config env cfg t"
    using assms(1-3) check_config_plain [of s cfg env] check_config_plain [of t cfg env] by (simp add: plain_server_def)
  then show ?thesis using assms(4,5)
    by (auto simp: loadConfig_def Let_def served_table_def set_timings_def getRelayTimings_def getDialer_def resultE
        split: sum.splits prod.splits if_splits)
qed

text \<open>
  In general a push reaches a prefix of the servers: those before the first one for which the configuration is refused. Each server
  is given its own answers of the outside (\<open>envs i\<close>).
\<close>

lemma Apply_prefix:
  assumes "gm_wf (c_Upstreams cfg)" "ps_ListenTLS (c_Proxy cfg) = ''''" "\<forall>s\<in>set d. plain_server s"
  shows "\<exists>d' e n. Apply envs cfg d = Inr (d', e) \<and> length d' = length d \<and> (\<forall>s\<in>set d'. plain_server s) \<and> n \<le> length d \<and>
     (e = None \<longleftrightarrow> n = length d) \<and> (\<forall>i<n. loadConfig (envs i) cfg False (d ! i) = Inr (d' ! i, None)) \<and>
     (\<forall>i<length d. n \<le> i \<longrightarrow> routing_state (d' ! i) = routing_state (d ! i)) \<and>
     (\<forall>i<n. config_verdict (envs i) cfg = None) \<and> (n < length d \<longrightarrow> config_verdict (envs n) cfg \<noteq> None)"
  using assms(3)
proof (induction d arbitrary: envs)
  case (Cons s d)
  let ?v = "config_verdict (envs 0) cfg"
  obtain s' where s': "loadConfig (envs 0) cfg False s = Inr (s', ?v)" "plain_server s'" "?v \<noteq> None \<longrightarrow> routing_state s' = routing_state s"
    using loadConfig_plain [OF _ assms(1,2)] Cons.prems by (meson list.set_intros(1))
  show ?case
  proof (cases ?v)
    case (Some e)
    have "Apply envs cfg (s # d) = Inr (s' # d, Some (''dataplane: apply config: '' @ e))" using s'(1) Some by (simp add: ApplyConfig_def)
    moreover have "routing_state ((s' # d) ! i) = routing_state ((s # d) ! i)" for i using s'(3) Some by (cases i) simp_all
    ultimately show ?thesis using s'(2) Some Cons.prems by (intro exI [of _ "s' # d"] exI [of _ "Some _"] exI [of _ 0]) auto
  next
    case None
    have "\<forall>s\<in>set d. plain_server s" using Cons.prems by simp
    from Cons.IH [OF this, of "envs \<circ> Suc"] obtain d' e n where d': "Apply (envs \<circ> Suc) cfg d = Inr (d', e)" "length d' = length d"
      "\<forall>s\<in>set d'. plain_server s" "n \<le> length d" "e = None \<longleftrightarrow> n = length d"
      and l: "\<forall>i<n. loadConfig (envs (Suc i)) cfg False (d ! i) = Inr (d' ! i, None)"
      and r: "\<forall>i<length d. n \<le> i \<longrightarrow> routing_state (d' ! i) = routing_state (d ! i)"
      and v: "\<forall>i<n. config_verdict (envs (Suc i)) cfg = None" "n < length d \<longrightarrow> config_verdict (envs (Suc n)) cfg \<noteq> None"
      unfolding comp_def by blast
    have "Apply envs cfg (s # d) = Inr (s' # d', e)" using s'(1) None d'(1) by (simp add: ApplyConfig_def)
    moreover have "loadConfig (envs i) cfg False ((s # d) ! i) = Inr ((s' # d') ! i, None)" "config_verdict (envs i) cfg = None"
      if "i < Suc n" for i using that l v(1) s'(1) None by (cases i; simp)+
    moreover have "routing_state ((s' # d') ! i) = routing_state ((s # d) ! i)" if "i < length (s # d)" "Suc n \<le> i" for i
      using that r by (cases i) simp_all
    ultimately show ?thesis using s'(2) d'(2-5) v(2)
      by (intro exI [of _ "s' # d'"] exI [of _ e] exI [of _ "Suc n"]) auto
  qed
qed simp

text \<open>C22: Pushing a table to the data plane never panics. It reaches the servers in order up to the first one that refuses it: the servers
  before that one have loaded it, that one and those behind it keep the routing state they had, and there is an error exactly when there
  is such a server. When the lookups of addresses (and discoveries of modules) made for the servers give the same answers, it is all or
  nothing: after an error every server has the routing state it had, otherwise every server serves the same table with the same
  settings. (The servers are consistent, have no TLS listener and the table asks for none.)\<close>

theorem Apply_all_or_nothing:
  assumes "gm_wf (c_Upstreams cfg)" "ps_ListenTLS (c_Proxy cfg) = ''''" "\<forall>s\<in>set d. plain_server s"
  shows "\<exists>d' e n. Apply envs cfg d = Inr (d', e) \<and> length d' = length d \<and> (\<forall>s\<in>set d'. plain_server s) \<and>
    n \<le> length d \<and> (e = None \<longleftrightarrow> n = length d) \<and>
    (\<forall>i<n. loadConfig (envs i) cfg False (d ! i) = Inr (d' ! i, None)) \<and>
    (\<forall>i<length d. n \<le> i \<longrightarrow> routing_state (d' ! i) = routing_state (d ! i)) \<and>
    ((\<forall>i<length d. envs i = envs 0) \<longrightarrow>
      (case e of Some msg \<Rightarrow> map routing_state d' = map routing_state d
               | None \<Rightarrow> \<forall>s\<in>set d'. \<forall>t\<in>set d'. served_table s = served_table t))"
proof -
  obtain d' e n where d': "Apply envs cfg d = Inr (d', e)" "length d' = length d" "\<forall>s\<in>set d'. plain_server s" "n \<le> length d"
      "e = None \<longleftrightarrow> n = length d" and l: "\<forall>i<n. loadConfig (envs i) cfg False (d ! i) = Inr (d' ! i, None)"
      and r: "\<forall>i<length d. n \<le> i \<longrightarrow> routing_state (d' ! i) = routing_state (d ! i)"
      and v: "\<forall>i<n. config_verdict (envs i) cfg = None" "n < length d \<longrightarrow> config_verdict (envs n) cfg \<noteq> None"
    using Apply_prefix [OF assms, of envs] by blast
  have all: "case e of Some msg \<Rightarrow> map routing_state d' = map routing_state d | None \<Rightarrow> \<forall>s\<in>set d'. \<forall>t\<in>set d'. served_table s = served_table t"
    if same: "\<forall>i<length d. envs i = envs 0"
  proof (cases e)
    case None
    have eq: "served_table s = served_table t" if s: "s \<in> set d'" and t: "t \<in> set d'" for s t
    proof -
      obtain i j where ij: "i < length d" "j < length d" "s = d' ! i" "t = d' ! j" using s t d'(2) by (metis in_set_conv_nth)
      then have "loadConfig (envs 0) cfg False (d ! i) = Inr (d' ! i, None)" "loadConfig (envs 0) cfg False (d ! j) = Inr (d' ! j, None)"
        using l same None d'(5) by metis+
      moreover have "plain_server (d ! i)" "plain_server (d ! j)" using ij assms(3) by simp_all
      ultimately show ?thesis using ij(3,4) loaded_table_same [OF _ _ assms(2)] by blast
    qed
    show ?thesis unfolding None option.case by (intro ballI eq)
  next
    case (Some msg)
    then have "n < length d" using d'(4,5) by (cases "n = length d") simp_all
    moreover have "n = 0"
    proof (rule ccontr)
      assume "n \<noteq> 0"
      then have "config_verdict (envs 0) cfg = None" using v(1) by simp
      then show False using v(2) \<open>n < length d\<close> same by metis
    qed
    ultimately have "routing_state (d' ! i) = routing_state (d ! i)" if "i < length d" for i using r that by simp
    then have "map routing_state d' = map routing_state d" using d'(2) by (intro nth_equalityI) simp_all
    then show ?thesis unfolding Some option.case .
  qed
  show ?thesis by (intro exI [of _ d'] exI [of _ e] exI [of _ n] conjI impI d' l r all)
qed

text \<open>A name that stops resolving between two servers leaves the first one with the new table and the second one with the old one.\<close>

definition flaky :: "nat \<Rightarrow> Env" where
  "flaky i = (if i = 0 then env0 else env0\<lparr>e_ResolveTCPAddr := (\<lambda>addr. Some ''no such host'')\<rparr>)"

lemma flaky_lookup_splits_dataplane:
  "case Apply flaky conf0 [NewServer, NewServer] of
     Inr ([s, t], Some e) \<Rightarrow> s_modules s \<noteq> [] \<and> s_modules t = [] | _ \<Rightarrow> False"
  by code_simp

text \<open>\<open>Err\<close> yields the first error of a server that stopped, and keeps it whatever happens to the others.\<close>

lemma Start_first_error:
  "Err (Start (ended @ [e])) = (case Err (Start ended) of None \<Rightarrow> e | Some first \<Rightarrow> Some first)"
  "Err (Start ended) = None \<longleftrightarrow> (\<forall>e\<in>set ended. e = None)"
proof -
  have step: "runOne e c = (case c of None \<Rightarrow> e | Some first \<Rightarrow> Some first)" for e c
    by (simp add: runOne_def split: option.split)
  show "Err (Start (ended @ [e])) = (case Err (Start ended) of None \<Rightarrow> e | Some first \<Rightarrow> Some first)"
    by (simp add: Err_def Start_def step)
  have "fold runOne ended c = None \<longleftrightarrow> c = None \<and> (\<forall>e\<in>set ended. e = None)" for c
    by (induction ended arbitrary: c) (auto simp: step split: option.splits)
  then show "Err (Start ended) = None \<longleftrightarrow> (\<forall>e\<in>set ended. e = None)" by (simp add: Err_def Start_def)
qed

text \<open>A data plane drains to the largest number of connections that a server was left with.\<close>

lemma DrainAll_is_max: "\<forall>n\<in>set ns. 0 \<le> n \<Longrightarrow> DrainAll ns = Max (set (0 # ns))"
proof -
  have "(\<lambda>n remaining. if n > remaining then n else remaining) = (max :: int \<Rightarrow> int \<Rightarrow> int)" by (auto simp: max_def fun_eq_iff)
  then show ?thesis by (simp add: DrainAll_def Max.set_eq_fold del: set_simps)
qed

section \<open>Witnesses\<close>

text \<open>The mode of the first UNIX socket cannot be set: the error leaves the socket open, although \<open>New\<close> promises to close
  every listener it created.\<close>

definition ne0 :: NetEnv where
  "ne0 = \<lparr>ne_Listen = (\<lambda>i network addr. if addr = ''bad'' then Inl ''in use'' else Inr addr), ne_Chmod = (\<lambda>_. None)\<rparr>"

definition opts0 :: "string list \<Rightarrow> Options" where
  "opts0 addrs = \<lparr>o_BindAddrs = addrs, o_AdminAddr = '':9528'', o_ReadTimeout = 0, o_WriteTimeout = 0\<rparr>"

theorem chmod_failure_leaks_listener:
  "net_open (snd (NewDataplane env0 (ne0\<lparr>ne_Chmod := (\<lambda>_. Some ''denied'')\<rparr>) (opts0 [''/run/rsync.sock'']) \<lparr>net_open = [], net_next = 0\<rparr>)) = [0]"
  by code_simp

theorem NewDataplane_owns_its_sockets_witness:
  "\<exists>d net'. NewDataplane env0 ne0 (opts0 ['':873'', '':1873'']) \<lparr>net_open = [7], net_next = 8\<rparr> = (Inr d, net') \<and>
     net_open net' = [7, 8, 9, 10] \<and> length d = 2 \<and> (\<forall>s\<in>set d. ready net' s) \<and> net_open (CloseAll d net') = [7]"
proof -
  let ?n = "NewDataplane env0 ne0 (opts0 ['':873'', '':1873'']) \<lparr>net_open = [7], net_next = 8\<rparr>"
  have "case ?n of (Inl e, net') \<Rightarrow> False | (Inr d, net') \<Rightarrow> net_open net' = [7, 8, 9, 10]" by code_simp
  then obtain d net' where d: "?n = (Inr d, net')" "net_open net' = [7, 8, 9, 10]"
    by (cases ?n; cases "fst ?n") (auto simp del: split_paired_All)
  have "\<forall>i. ne_Chmod ne0 i = None" "net_wf \<lparr>net_open = [7], net_next = 8\<rparr>" by (simp_all add: ne0_def net_wf_def)
  from NewDataplane_owns_its_sockets [OF this, of env0 "opts0 ['':873'', '':1873'']"] d show ?thesis by (auto simp: opts0_def)
qed

theorem Apply_all_or_nothing_witness:
  "\<exists>d' e. Apply (\<lambda>_. env0) conf0 [NewServer, NewServer] = Inr (d', e) \<and> length d' = 2 \<and> (\<forall>s\<in>set d'. plain_server s) \<and>
    (case e of Some msg \<Rightarrow> map routing_state d' = map routing_state [NewServer, NewServer]
             | None \<Rightarrow> \<forall>s\<in>set d'. \<forall>t\<in>set d'. served_table s = served_table t)"
proof -
  have "plain_server NewServer" using srv_inv_NewServer by (simp add: plain_server_def NewServer_def)
  then have p: "\<forall>s\<in>set [NewServer, NewServer]. plain_server s" by simp
  have "ps_ListenTLS (c_Proxy conf0) = ''''" by (simp add: conf0_def zero_proxy_def)
  from Apply_all_or_nothing [OF conf0_wf this p, of "\<lambda>_. env0"] show ?thesis
  proof (elim exE conjE)
    fix d' n and e :: "string option"
    let ?all = "case e of Some msg \<Rightarrow> map routing_state d' = map routing_state [NewServer, NewServer]
      | None \<Rightarrow> \<forall>s\<in>set d'. \<forall>t\<in>set d'. served_table s = served_table t"
    assume "Apply (\<lambda>_. env0) conf0 [NewServer, NewServer] = Inr (d', e)" "\<forall>s\<in>set d'. plain_server s"
      and len: "length d' = length [NewServer, NewServer]" and all: "(\<forall>i<length [NewServer, NewServer]. env0 = env0) \<longrightarrow> ?all"
    moreover have "length d' = 2" using len by simp
    moreover have ?all using all by blast
    ultimately show ?thesis by (intro exI conjI)
  qed
qed

end
