(* ===== verification/Admin.thy ===== *)
theory Admin
  imports Metrics Dataplane
begin

text \<open>
  Serving (\<open>runRsyncServer\<close>, \<open>Run\<close>, \<open>Drain\<close> and the admin endpoints of \<open>runHTTPServer\<close> in \<open>server.go\<close>, and
  \<open>ReadConfig\<close>, \<open>ReadConfigFromFile\<close> in \<open>config.go\<close>). A request is its method, path and parsed
  query; the body of a response is the value that is encoded as JSON, or text. Reading the
  configuration file and the TOML decoder are the parameters \<open>cs_Open\<close> and \<open>cs_Decode\<close>.
\<close>

section \<open>Configuration files\<close>

record ConfigSource =
  cs_Open :: "string + string"
  cs_Decode :: "string \<Rightarrow> string + Config"

definition ReadConfig :: "ConfigSource \<Rightarrow> Env \<Rightarrow> string \<Rightarrow> bool \<Rightarrow> Server \<Rightarrow> chan_error + (Server \<times> string option)" where
  "ReadConfig src env r openLog s =
     (case cs_Decode src r of Inl err \<Rightarrow> Inr (s, Some err) | Inr c \<Rightarrow> loadConfig env c openLog s)"

definition ReadConfigFromFile :: "ConfigSource \<Rightarrow> Env \<Rightarrow> bool \<Rightarrow> Server \<Rightarrow> chan_error + (Server \<times> string option)" where
  "ReadConfigFromFile src env openLog s =
     (case cs_Open src of Inl err \<Rightarrow> Inr (s, Some err) | Inr f \<Rightarrow> ReadConfig src env f openLog s)"

section \<open>Accepting connections\<close>

datatype accepted = Accepted Addr Addr | AcceptClosed | AcceptError string

text \<open>
  The accept loop over what \<open>Accept\<close> returns: the world after starting the connections, and
  \<open>None\<close> while the loop waits for the next one.
\<close>

fun runRsyncServer :: "string \<Rightarrow> accepted list \<Rightarrow> World \<Rightarrow> World \<times> string option option" where
  "runRsyncServer acceptErr [] w = (w, None)"
| "runRsyncServer acceptErr (Accepted remote local # rest) w = runRsyncServer acceptErr rest (accept_conn remote local w)"
| "runRsyncServer acceptErr (AcceptClosed # rest) w = (w, Some None)"
| "runRsyncServer acceptErr (AcceptError e # rest) w = (w, Some (Some (acceptErr @ '': '' @ e)))"

text \<open>How the HTTP server ended; a closed listener is no error.\<close>

datatype http_end = HTTPClosed | HTTPError string

definition http_result :: "http_end \<Rightarrow> string option" where
  "http_result e = (case e of HTTPClosed \<Rightarrow> None | HTTPError err \<Rightarrow> Some (''start http server: '' @ err))"

text \<open>
  \<open>Run\<close> waits for the first error of the HTTP server and the accept loops, given in the order they
  end; \<open>None\<close> while it waits. A loop that ends without an error sends nothing.
\<close>

fun Run :: "string option list \<Rightarrow> string option" where
  "Run [] = None"
| "Run (None # rest) = Run rest"
| "Run (Some err # rest) = Some err"

text \<open>
  \<open>Drain\<close> closes the listeners, then checks the active count at every tick. The loop runs over the worlds it sees at its checks, each with
  the world at the moment \<open>ctx\<close> was found done, if it was; \<open>None\<close> while it still waits.
\<close>

fun drain_loop :: "(World \<times> World option) list \<Rightarrow> int option" where
  "drain_loop [] = None"
| "drain_loop ((w, expired) # rest) =
     (if GetActiveConnectionCount w = 0 then Some 0
      else case expired of Some w' \<Rightarrow> Some (GetActiveConnectionCount w') | None \<Rightarrow> drain_loop rest)"

definition Drain :: "(World \<times> World option) list \<Rightarrow> Server \<Rightarrow> Net \<Rightarrow> Net \<times> int option" where
  "Drain obs s net = (CloseServer s net, drain_loop obs)"

section \<open>Requests\<close>

record Request =
  rq_Method :: string
  rq_Path :: string
  rq_Query :: "(string, string list) gomap"

datatype body = NoBody | Message string | Modules "string list" | Status int "connInfoSnapshot list" | Text "string list"

record Response =
  rs_Code :: int
  rs_Body :: body

definition respond :: "int \<Rightarrow> body \<Rightarrow> Response" where
  "respond code b = \<lparr>rs_Code = code, rs_Body = b\<rparr>"

definition Query_Get :: "Request \<Rightarrow> string \<Rightarrow> string" where
  "Query_Get rq k = (case map_of (rq_Query rq) k of Some (v # _) \<Rightarrow> v | _ \<Rightarrow> '''')"

definition ParseBool :: "string \<Rightarrow> bool option" where
  "ParseBool s =
     (if s \<in> {''1'', ''t'', ''T'', ''true'', ''TRUE'', ''True''} then Some True
      else if s \<in> {''0'', ''f'', ''F'', ''false'', ''FALSE'', ''False''} then Some False
      else None)"

fun Contains :: "string \<Rightarrow> string \<Rightarrow> bool" where
  "Contains [] sub = (sub = [])"
| "Contains (c # s) sub = (HasPrefix (c # s) sub \<or> Contains s sub)"

definition handleUpstreamModules :: "Env \<Rightarrow> Server \<Rightarrow> Request \<Rightarrow> Response" where
  "handleUpstreamModules env s rq =
     (if rq_Method rq \<noteq> ''GET'' then respond 405 NoBody
      else let name = Query_Get rq ''name'' in
        if name = '''' then respond 400 (Message ''missing upstream name'')
        else
          (case (case map_of (rq_Query rq) ''force_discover'' of Some (v # _) \<Rightarrow> ParseBool v | _ \<Rightarrow> Some False) of
             None \<Rightarrow> respond 400 (Message ''invalid force_discover value'')
           | Some forceDiscover \<Rightarrow>
               (case ListUpstreamModules env s name forceDiscover of
                  Inl err \<Rightarrow> respond (if Contains err ''unknown upstream'' then 404 else 500) (Message err)
                | Inr modules \<Rightarrow> respond 200 (Modules modules))))"

definition handleReload :: "ConfigSource \<Rightarrow> Env \<Rightarrow> Server \<Rightarrow> Request \<Rightarrow> chan_error + (Server \<times> Response)" where
  "handleReload src env s rq =
     (if rq_Method rq \<noteq> ''POST'' then Inr (s, respond 405 NoBody)
      else bindE (ReadConfigFromFile src env True s) (\<lambda>(s', err).
        case err of
          Some e \<Rightarrow> Inr (s', respond 500 (Message ''Failed to reload config''))
        | None \<Rightarrow> Inr (s', respond 200 (Message ''Successfully reloaded''))))"

definition handleStatus :: "World \<Rightarrow> Request \<Rightarrow> Response" where
  "handleStatus w rq =
     (if rq_Method rq \<noteq> ''GET'' then respond 405 NoBody
      else let cs = ListConnectionInfo w in respond 200 (Status (int (length cs)) (map snapshot cs)))"

definition handleTelegraf :: "string \<Rightarrow> int \<Rightarrow> World \<Rightarrow> Request \<Rightarrow> Response" where
  "handleTelegraf hostname timestamp w rq =
     (if rq_Method rq \<noteq> ''GET'' then respond 405 NoBody
      else respond 200 (Text [''rsync-proxy,host='' @ hostname @ '' count='' @ Itoa (GetActiveConnectionCount w) @ '' '' @ Itoa timestamp]))"

definition handleMetrics :: "string list \<Rightarrow> (int \<Rightarrow> string) \<Rightarrow> int \<Rightarrow> World \<Rightarrow> Request \<Rightarrow> World \<times> Response" where
  "handleMetrics process_metrics fmt3 now w rq =
     (if rq_Method rq \<noteq> ''GET'' then (w, respond 405 NoBody)
      else let (w', lines) = writePrometheusMetrics fmt3 now w in (w', respond 200 (Text (process_metrics @ lines))))"

text \<open>What the handlers get from outside: the host name, the clock, the metrics of the process and the formatting of seconds.\<close>

record Host =
  h_hostname :: string
  h_now :: int
  h_process :: "string list"
  h_fmt3 :: "int \<Rightarrow> string"

definition runHTTPServer :: "ConfigSource \<Rightarrow> Env \<Rightarrow> Host \<Rightarrow> World \<Rightarrow> Request \<Rightarrow> chan_error + (World \<times> Response)" where
  "runHTTPServer src env h w rq =
     (if rq_Path rq = ''/upstream-modules'' then Inr (w, handleUpstreamModules env (w_srv w) rq)
      else if rq_Path rq = ''/reload'' then
        bindE (handleReload src env (w_srv w) rq) (\<lambda>(s', rs). Inr (w\<lparr>w_srv := s'\<rparr>, rs))
      else if rq_Path rq = ''/status'' then Inr (w, handleStatus w rq)
      else if rq_Path rq = ''/telegraf'' then Inr (w, handleTelegraf (h_hostname h) (h_now h div Second * Second) w rq)
      else if rq_Path rq = ''/metrics'' then Inr (handleMetrics (h_process h) (h_fmt3 h) (h_now h) w rq)
      else Inr (w, respond 404 (Text [''404 page not found''])))"

section \<open>What the loops promise\<close>

lemma runRsyncServer_reachable:
  "world_reachable w \<Longrightarrow> world_reachable (fst (runRsyncServer acceptErr as w))"
  by (induction acceptErr as w rule: runRsyncServer.induct) (auto intro: reachable_from.move relay_step.accept)

text \<open>\<open>Run\<close> returns exactly when some loop failed: closing the listeners alone never makes it return.\<close>

lemma Run_returns_iff: "(\<exists>e. Run rs = Some e) \<longleftrightarrow> (\<exists>e. Some e \<in> set rs)"
  by (induction rs rule: Run.induct) auto

text \<open>C40: \<open>Drain\<close> closes every listener of the server, and the count it reads is the number of connections whose goroutine has counted itself
  and has not finished. So it returns 0 only at a moment when every accepted connection has finished or has not begun to run, and otherwise the
  number of running connections that it leaves behind. (A connection that was accepted just before the listeners closed may begin to
  run after that moment: it counts itself only when its goroutine runs. Fewer than \<open>2^63\<close> connections keep the signed count exact.)\<close>

theorem Drain_counts_connections:
  assumes "\<forall>(w, expired)\<in>set obs. world_reachable w \<and> length (w_conns w) < 2 ^ 63 \<and>
      (\<forall>w'. expired = Some w' \<longrightarrow> world_reachable w' \<and> length (w_conns w') < 2 ^ 63)"
    and "Drain obs s net = (net', Some n)"
  shows "net_open net' = filter (\<lambda>l. l \<notin> server_ids s) (net_open net) \<and>
    (\<exists>(w, expired)\<in>set obs. (n = 0 \<and> (\<forall>c\<in>set (w_conns w). k_pc c = AtStart \<or> k_pc c = Finished)) \<or>
      (running w > 0 \<and> (\<exists>w'. expired = Some w' \<and> n = int (running w'))))"
proof
  show "net_open net' = filter (\<lambda>l. l \<notin> server_ids s) (net_open net)" using assms(2) by (auto simp: Drain_def CloseServer_open)
  have idle: "running w = 0 \<Longrightarrow> \<forall>c\<in>set (w_conns w). k_pc c = AtStart \<or> k_pc c = Finished" for w by (auto simp: running_def filter_empty_conv)
  have "drain_loop obs = Some n" using assms(2) by (simp add: Drain_def)
  with assms(1) show "\<exists>(w, expired)\<in>set obs. (n = 0 \<and> (\<forall>c\<in>set (w_conns w). k_pc c = AtStart \<or> k_pc c = Finished)) \<or>
      (running w > 0 \<and> (\<exists>w'. expired = Some w' \<and> n = int (running w')))"
  proof (induction obs rule: drain_loop.induct)
    case (2 w expired rest)
    have w: "GetActiveConnectionCount w = int (running w)" using "2.prems"(1) by (intro active_count_exact) auto
    show ?case
    proof (cases expired)
      case None
      then show ?thesis using "2.IH" "2.prems" w idle [of w] by (cases "running w = 0") auto
    next
      case (Some w')
      have "GetActiveConnectionCount w' = int (running w')" using "2.prems"(1) Some by (intro active_count_exact) auto
      then show ?thesis using Some "2.prems"(2) w idle [of w] by (cases "running w = 0") auto
    qed
  qed simp
qed

theorem Drain_counts_connections_witness:
  "\<exists>w net'. run finish_script NewWorld = Some w \<and>
     Drain [(w, None)] (NewServer\<lparr>s_TCPListener := Some \<lparr>lst_Id = 3, lst_Addr = '':873''\<rparr>\<rparr>) \<lparr>net_open = [3, 7], net_next = 8\<rparr> = (net', Some 0) \<and>
     net_open net' = [7] \<and> (\<forall>c\<in>set (w_conns w). k_pc c = AtStart \<or> k_pc c = Finished)"
proof -
  let ?s = "NewServer\<lparr>s_TCPListener := Some \<lparr>lst_Id = 3, lst_Addr = '':873''\<rparr>\<rparr>" and ?net = "\<lparr>net_open = [3, 7], net_next = 8\<rparr>"
  obtain w where w: "world_reachable w" "run finish_script NewWorld = Some w" "list_all (\<lambda>c. k_pc c = Finished) (w_conns w)" "length (w_conns w) = 1"
    using script_world [OF finish_script_runs] by blast
  have "running w = 0" using w(3) by (auto simp: running_def list_all_iff filter_empty_conv)
  then have d: "Drain [(w, None)] ?s ?net = (CloseServer ?s ?net, Some 0)"
    using active_count_exact [OF w(1)] w(4) by (simp add: Drain_def)
  have ids: "server_ids ?s = {3}" by (simp add: server_ids_def NewServer_def)
  from Drain_counts_connections [OF _ d] w(1,4) have "net_open (CloseServer ?s ?net) = [7] \<and> (\<forall>c\<in>set (w_conns w). k_pc c = AtStart \<or> k_pc c = Finished)"
    unfolding ids by auto
  with d w(2) show ?thesis by blast
qed

text \<open>A run in which \<open>Drain\<close> returns 0 and the accepted connection goes on to dial its upstream.\<close>

lemma Drain_misses_accepted_connection:
  "case run (take 2 client_script) NewWorld of None \<Rightarrow> False
   | Some w \<Rightarrow> drain_loop [(w, None)] = Some 0 \<and> (case run (drop 2 client_script) w of None \<Rightarrow> False | Some w' \<Rightarrow> at w' 0 AtDial)"
  by code_simp

section \<open>What the endpoints promise\<close>

definition is_reload :: "Request \<Rightarrow> bool" where
  "is_reload rq \<longleftrightarrow> rq_Method rq = ''POST'' \<and> rq_Path rq = ''/reload''"

text \<open>The configuration of the file, and that a server accepts it.\<close>

definition config_of :: "ConfigSource \<Rightarrow> Config option" where
  "config_of src = (case cs_Open src of Inl _ \<Rightarrow> None | Inr f \<Rightarrow> (case cs_Decode src f of Inl _ \<Rightarrow> None | Inr c \<Rightarrow> Some c))"

text \<open>The tables of a server that has loaded a configuration.\<close>

definition serves :: "Env \<Rightarrow> Config \<Rightarrow> Server \<Rightarrow> Server \<Rightarrow> bool" where
  "serves env c s s' \<longleftrightarrow> (\<exists>cert us disc. check_config env c s = Inr (cert, us) \<and> discoverConfiguredModules env us [] = Inr disc \<and>
     s_upstreams s' = resolveUpstreams us disc \<and> s_modules s' = buildModuleTargets (resolveUpstreams us disc) \<and> s_tlsCertificate s' = cert)"

lemma ReadConfigFromFile_cases:
  assumes "srv_inv s" "\<forall>f c. cs_Decode src f = Inr c \<longrightarrow> gm_wf (c_Upstreams c)"
  obtains (unread) e where "config_of src = None" "ReadConfigFromFile src env True s = Inr (s, Some e)"
  | (refused) c s' e where "config_of src = Some c" "gm_wf (c_Upstreams c)" "loadConfig env c True s = Inr (s', Some e)"
      "ReadConfigFromFile src env True s = Inr (s', Some e)" "routing_state s' = routing_state s"
  | (loaded) c s' where "config_of src = Some c" "gm_wf (c_Upstreams c)" "loadConfig env c True s = Inr (s', None)"
      "ReadConfigFromFile src env True s = Inr (s', None)" "serves env c s s'"
proof (cases "config_of src")
  case None
  then have "\<exists>e. ReadConfigFromFile src env True s = Inr (s, Some e)"
    by (auto simp: config_of_def ReadConfigFromFile_def ReadConfig_def split: sum.splits)
  then show ?thesis using unread [OF None] by blast
next
  case (Some c)
  then have wf: "gm_wf (c_Upstreams c)" and rd: "ReadConfigFromFile src env True s = loadConfig env c True s"
    using assms(2) by (auto simp: config_of_def ReadConfigFromFile_def ReadConfig_def split: sum.splits)
  from assms(1) wf show ?thesis
  proof (cases rule: loadConfig_cases [where env = env and openLog = True])
    case (failed s' e)
    then show ?thesis using refused [OF Some wf] rd by simp
  next
    case (loaded s' cert us disc queues heap)
    have "serves env c s s'" using loaded(2,4,7,8,11) unfolding serves_def by auto
    then show ?thesis using that(3) [OF Some wf loaded(1)] rd loaded(1) by simp
  qed
qed

lemma reload_request:
  assumes "world_reachable w" "\<forall>f c. cs_Decode src f = Inr c \<longrightarrow> gm_wf (c_Upstreams c)" "is_reload rq"
  shows "\<exists>s' rs. runHTTPServer src env h w rq = Inr (w\<lparr>w_srv := s'\<rparr>, rs) \<and> world_reachable (w\<lparr>w_srv := s'\<rparr>) \<and>
    (case config_of src of
       None \<Rightarrow> rs_Code rs = 500 \<and> s' = w_srv w
     | Some c \<Rightarrow> (\<exists>err. loadConfig env c True (w_srv w) = Inr (s', err) \<and>
         (if err = None then rs_Code rs = 200 \<and> serves env c (w_srv w) s' else rs_Code rs = 500 \<and> routing_state s' = routing_state (w_srv w))))"
proof -
  have srv: "srv_inv (w_srv w)" using reachable_world_inv [OF assms(1)] by (simp add: world_inv_def)
  have http: "runHTTPServer src env h w rq = Inr (w\<lparr>w_srv := s'\<rparr>, respond (if e = None then 200 else 500)
      (Message (if e = None then ''Successfully reloaded'' else ''Failed to reload config'')))"
    if "ReadConfigFromFile src env True (w_srv w) = Inr (s', e)" for s' e
    using that assms(3) by (cases e) (simp_all add: runHTTPServer_def handleReload_def is_reload_def)
  from srv assms(2) show ?thesis
  proof (cases rule: ReadConfigFromFile_cases [where env = env])
    case (unread e)
    then show ?thesis using http [OF unread(2)] assms(1) by (simp add: respond_def)
  next
    case (refused c s' e)
    have "world_reachable (w\<lparr>w_srv := s'\<rparr>)" by (rule reachable_from.move [OF assms(1) relay_step.reload [OF refused(2,3)]])
    then show ?thesis using http [OF refused(4)] refused(1,3,5) by (simp add: respond_def)
  next
    case (loaded c s')
    have "world_reachable (w\<lparr>w_srv := s'\<rparr>)" by (rule reachable_from.move [OF assms(1) relay_step.reload [OF loaded(2,3)]])
    then show ?thesis using http [OF loaded(4)] loaded(1,3,5) by (simp add: respond_def)
  qed
qed

text \<open>The counters that a scrape creates are zero, so nobody who reads them sees a difference.\<close>

lemma created_counters_read: "upstream_counters u (getUpstreamCounters v w) = upstream_counters u w"
  by (auto simp: upstream_counters_def getUpstreamCounters_def load_or_store_def update_conv split: option.splits)

lemma create_counters_frame:
  "\<exists>m. create_counters w = w\<lparr>w_upstreamCounters := m\<rparr> \<and> (\<forall>u. upstream_counters u (create_counters w) = upstream_counters u w) \<and>
     (world_reachable w \<longrightarrow> world_reachable (create_counters w))"
proof -
  have "\<exists>m. fold (\<lambda>u. getUpstreamCounters (uc_Name u)) us w = w\<lparr>w_upstreamCounters := m\<rparr> \<and>
      (\<forall>u. upstream_counters u (fold (\<lambda>u. getUpstreamCounters (uc_Name u)) us w) = upstream_counters u w) \<and>
      (world_reachable w \<longrightarrow> world_reachable (fold (\<lambda>u. getUpstreamCounters (uc_Name u)) us w))" for us
  proof (induction us arbitrary: w)
    case Nil
    have "w = w\<lparr>w_upstreamCounters := w_upstreamCounters w\<rparr>" by simp
    then show ?case unfolding fold_simps by blast
  next
    case (Cons v us)
    let ?w1 = "getUpstreamCounters (uc_Name v) w"
    from Cons.IH [of ?w1] obtain m where m: "fold (\<lambda>u. getUpstreamCounters (uc_Name u)) us ?w1 = ?w1\<lparr>w_upstreamCounters := m\<rparr>"
      "\<And>u. upstream_counters u (fold (\<lambda>u. getUpstreamCounters (uc_Name u)) us ?w1) = upstream_counters u ?w1"
      "world_reachable ?w1 \<longrightarrow> world_reachable (fold (\<lambda>u. getUpstreamCounters (uc_Name u)) us ?w1)" by blast
    have "?w1\<lparr>w_upstreamCounters := m\<rparr> = w\<lparr>w_upstreamCounters := m\<rparr>" by (simp add: getUpstreamCounters_def)
    moreover have "world_reachable w \<longrightarrow> world_reachable ?w1" by (blast intro: reachable_from.move relay_step.scrape)
    ultimately show ?case using m created_counters_read by auto
  qed
  then show ?thesis unfolding create_counters_def .
qed

text \<open>C35: An admin request never panics and leaves the server in a state it can reach anyway. A POST to \<open>/reload\<close> answers 200 exactly when the
  file was read and decoded and its configuration was loaded, and the server then has the tables of that configuration; otherwise it answers 500
  and the routing state is the old one. Every other request changes nothing, except that a GET of \<open>/metrics\<close> creates the counters of
  upstreams that had none, which does not change what is read from any counter. (The decoder returns a table without duplicate keys.)\<close>

theorem admin_requests_are_safe:
  assumes "world_reachable w" "\<forall>f c. cs_Decode src f = Inr c \<longrightarrow> gm_wf (c_Upstreams c)"
  shows "\<exists>w' rs. runHTTPServer src env h w rq = Inr (w', rs) \<and> world_reachable w' \<and>
    (if is_reload rq then
       \<exists>s'. w' = w\<lparr>w_srv := s'\<rparr> \<and>
         (case config_of src of
            None \<Rightarrow> rs_Code rs = 500 \<and> s' = w_srv w
          | Some c \<Rightarrow> (\<exists>err. loadConfig env c True (w_srv w) = Inr (s', err) \<and>
              (if err = None then rs_Code rs = 200 \<and> serves env c (w_srv w) s'
               else rs_Code rs = 500 \<and> routing_state s' = routing_state (w_srv w))))
     else if rq_Method rq = ''GET'' \<and> rq_Path rq = ''/metrics'' then
       (\<exists>m. w' = w\<lparr>w_upstreamCounters := m\<rparr>) \<and> (\<forall>u. upstream_counters u w' = upstream_counters u w)
     else w' = w)"
proof (cases "is_reload rq")
  case True
  from reload_request [OF assms True, of env h] show ?thesis by (simp only: True if_True) blast
next
  case False
  obtain m where m: "create_counters w = w\<lparr>w_upstreamCounters := m\<rparr>" "\<And>u. upstream_counters u (create_counters w) = upstream_counters u w"
    "world_reachable (create_counters w)" using create_counters_frame [of w] assms(1) by blast
  show ?thesis
  proof (cases "rq_Method rq = ''GET'' \<and> rq_Path rq = ''/metrics''")
    case True
    then have "\<exists>rs. runHTTPServer src env h w rq = Inr (create_counters w, rs)"
      by (simp add: runHTTPServer_def handleMetrics_def writePrometheusMetrics_def Let_def)
    then show ?thesis using True False m by auto
  next
    case other: False
    then have "\<exists>rs. runHTTPServer src env h w rq = Inr (w, rs)"
      using False by (auto simp: runHTTPServer_def handleReload_def handleMetrics_def is_reload_def)
    then show ?thesis using False other assms(1) by auto
  qed
qed

definition src0 :: ConfigSource where
  "src0 = \<lparr>cs_Open = Inr ''config'', cs_Decode = (\<lambda>f. if f = ''config'' then Inr conf0 else Inl ''syntax'')\<rparr>"

definition host0 :: Host where
  "host0 = \<lparr>h_hostname = ''mirror'', h_now = 1700000000123456789, h_process = [], h_fmt3 = (\<lambda>_. ''0.000'')\<rparr>"

definition reload0 :: Request where
  "reload0 = \<lparr>rq_Method = ''POST'', rq_Path = ''/reload'', rq_Query = []\<rparr>"

lemma reload0_loads: "case loadConfig env0 conf0 True NewServer of Inr (s', None) \<Rightarrow> True | _ \<Rightarrow> False"
  by code_simp

theorem admin_requests_are_safe_witness:
  "(\<exists>w' rs. runHTTPServer src0 env0 host0 NewWorld reload0 = Inr (w', rs) \<and> rs_Code rs = 200 \<and> serves env0 conf0 NewServer (w_srv w')) \<and>
   (\<exists>w' rs. runHTTPServer (src0\<lparr>cs_Open := Inl ''missing''\<rparr>) env0 host0 NewWorld reload0 = Inr (w', rs) \<and> rs_Code rs = 500 \<and> w' = NewWorld)"
proof
  have dec: "\<forall>f c. cs_Decode src0 f = Inr c \<longrightarrow> gm_wf (c_Upstreams c)" by (simp add: src0_def conf0_def)
  have rl: "is_reload reload0" by (simp add: is_reload_def reload0_def)
  have srv: "w_srv NewWorld = NewServer" by (simp add: NewWorld_def)
  from admin_requests_are_safe [OF NewWorld_reachable dec, of env0 host0 reload0] reload0_loads
  show "\<exists>w' rs. runHTTPServer src0 env0 host0 NewWorld reload0 = Inr (w', rs) \<and> rs_Code rs = 200 \<and> serves env0 conf0 NewServer (w_srv w')"
    using rl srv by (auto simp: config_of_def src0_def split: sum.splits prod.splits option.splits)
  have "\<forall>f c. cs_Decode (src0\<lparr>cs_Open := Inl ''missing''\<rparr>) f = Inr c \<longrightarrow> gm_wf (c_Upstreams c)" using dec by simp
  from admin_requests_are_safe [OF NewWorld_reachable this, of env0 host0 reload0]
  show "\<exists>w' rs. runHTTPServer (src0\<lparr>cs_Open := Inl ''missing''\<rparr>) env0 host0 NewWorld reload0 = Inr (w', rs) \<and> rs_Code rs = 500 \<and> w' = NewWorld"
    using rl by (auto simp: config_of_def)
qed

end
