(* ===== verification/Cli.thy ===== *)
theory Cli
  imports Admin
begin

text \<open>
  The command line (\<open>cmd/cmd.go\<close>) and the process of the gateway (\<open>cmd/rsync-gateway/main.go\<close>). A
  request is answered by \<open>string + Response\<close> (a failed connection, or the response); a command
  leaves what it wrote to both outputs and its error. A JSON body is the value it encodes;
  \<open>json_error\<close> is the message of the decoder on a body that is no JSON object. Coloured text is a
  list of coloured pieces.
\<close>

section \<open>Sizes\<close>

datatype colour = Muted | Red | Green | Cyan | Uncoloured

type_synonym coloured = "(colour \<times> string) list"

text \<open>Division and remainder of signed integers truncate towards zero.\<close>

definition quot :: "int \<Rightarrow> int \<Rightarrow> int" where
  "quot a b = (if a \<ge> 0 then a div b else - ((- a) div b))"

definition rem :: "int \<Rightarrow> int \<Rightarrow> int" where
  "rem a b = a - b * quot a b"

text \<open>The verb \<open>%0wd\<close> for a number that is not negative.\<close>

definition pad_zero :: "nat \<Rightarrow> int \<Rightarrow> string" where
  "pad_zero width n = (let d = dec_digits (nat n) in replicate (width - length d) CHR ''0'' @ d)"

definition formatSizeColored :: "int \<Rightarrow> coloured" where
  "formatSizeColored sz =
     (let MB = 1000000; GB = 1000 * MB; TB = 1000 * GB in
      if sz = 0 then [(Muted, ''0'')]
      else
        (let tb = quot sz TB; gb = rem (quot sz GB) 1000; mb = rem (quot sz MB) 1000; remainder = rem sz MB;
             padGB = (tb > 0); padMB = (padGB \<or> gb > 0); padRemainder = (padMB \<or> mb > 0) in
         (if tb > 0 then [(Red, Itoa tb)] else []) @
         (if gb > 0 \<or> padGB then (if padGB then [(Green, pad_zero 3 gb)] else [(Green, Itoa gb)]) else []) @
         (if mb > 0 \<or> padMB then (if padMB then [(Cyan, pad_zero 3 mb)] else [(Cyan, Itoa mb)]) else []) @
         (if remainder > 0 \<or> padRemainder then [(Uncoloured, pad_zero 6 remainder)] else [])))"

definition coloured_text :: "coloured \<Rightarrow> string" where
  "coloured_text ps = concat (map snd ps)"

section \<open>Requests to the daemon\<close>

record Output =
  ou_stdout :: "string list"
  ou_stderr :: "body option"
  ou_err :: "string option"

definition SendReloadRequest :: "string + Response \<Rightarrow> body option \<times> body option \<times> string option" where
  "SendReloadRequest resp =
     (case resp of
        Inl err \<Rightarrow> (None, None, Some err)
      | Inr r \<Rightarrow> if rs_Code r < 300 then (Some (rs_Body r), None, None) else (None, Some (rs_Body r), Some ''failed to reload''))"

definition modulesQuery :: "string \<Rightarrow> bool \<Rightarrow> Request" where
  "modulesQuery upstream forceDiscover =
     \<lparr>rq_Method = ''GET'', rq_Path = ''/upstream-modules'',
      rq_Query = (''name'', [upstream]) # (if forceDiscover then [(''force_discover'', [''true''])] else [])\<rparr>"

definition decode_modules :: "string \<Rightarrow> body \<Rightarrow> string + string list" where
  "decode_modules json_error b =
     (case b of Modules ms \<Rightarrow> Inr ms | Message m \<Rightarrow> Inr [] | Status n cs \<Rightarrow> Inr [] | NoBody \<Rightarrow> Inl json_error | Text t \<Rightarrow> Inl json_error)"

definition SendUpstreamModulesRequest :: "string \<Rightarrow> string + Response \<Rightarrow> Output" where
  "SendUpstreamModulesRequest json_error resp =
     (case resp of
        Inl err \<Rightarrow> \<lparr>ou_stdout = [], ou_stderr = None, ou_err = Some err\<rparr>
      | Inr r \<Rightarrow>
          if rs_Code r \<noteq> 200 then \<lparr>ou_stdout = [], ou_stderr = Some (rs_Body r), ou_err = Some ''failed to get upstream modules''\<rparr>
          else (case decode_modules json_error (rs_Body r) of
                  Inl err \<Rightarrow> \<lparr>ou_stdout = [], ou_stderr = None, ou_err = Some (''failed to decode response: '' @ err)\<rparr>
                | Inr ms \<Rightarrow> \<lparr>ou_stdout = sort ms, ou_stderr = None, ou_err = None\<rparr>))"

text \<open>
  The command \<open>upstream-modules\<close>: an rsync URL is asked directly, a name is asked of the daemon. \<open>parse\<close> is
  \<open>url.Parse\<close> (host and path), \<open>send\<close> the request to the daemon.
\<close>

definition upstream_modules_cmd :: "(string \<Rightarrow> string + (string \<times> string)) \<Rightarrow> Env \<Rightarrow> (Request \<Rightarrow> string + Response) \<Rightarrow> string \<Rightarrow>
    bool \<Rightarrow> bool \<Rightarrow> string \<Rightarrow> Output" where
  "upstream_modules_cmd parse env send json_error useProxyProtocol forceDiscover upstreamModules =
     (let failed = (\<lambda>err. \<lparr>ou_stdout = [], ou_stderr = None, ou_err = Some err\<rparr>) in
      if upstreamModules = '''' then failed ''empty upstream spec''
      else if HasPrefix upstreamModules ''rsync://'' then
        (case parse upstreamModules of
           Inl err \<Rightarrow> failed (''parse rsync url: '' @ err)
         | Inr (host, path) \<Rightarrow>
             if host \<noteq> '''' \<and> path \<noteq> '''' \<and> path \<noteq> ''/'' then failed ''invalid rsync url: path is not allowed''
             else (case DiscoverModulesWithProxyProtocol env (if host = '''' then path else host) useProxyProtocol of
                     Inl err \<Rightarrow> failed err
                   | Inr modules \<Rightarrow> \<lparr>ou_stdout = modules, ou_stderr = None, ou_err = None\<rparr>))
      else SendUpstreamModulesRequest json_error (send (modulesQuery upstreamModules forceDiscover)))"

text \<open>A row of the table of connections; \<open>date\<close> formats a point in time.\<close>

definition connection_row :: "(int \<Rightarrow> string) \<Rightarrow> connInfoSnapshot \<Rightarrow> coloured list" where
  "connection_row date s =
     [[(Uncoloured, Itoa (uint (sn_Index s)))], [(Uncoloured, sn_RemoteAddr s)], [(Uncoloured, sn_Module s)],
      [(Uncoloured, sn_Upstream s)], [(Uncoloured, date (sn_ConnectedAt s))],
      formatSizeColored (sn_ReceivedBytes s), formatSizeColored (sn_SentBytes s)]"

datatype connections_output = NoConnections | Rows "coloured list list"

definition SendConnectionsRequest :: "(int \<Rightarrow> string) \<Rightarrow> string \<Rightarrow> string + Response \<Rightarrow>
    connections_output option \<times> body option \<times> string option" where
  "SendConnectionsRequest date json_error resp =
     (case resp of
        Inl err \<Rightarrow> (None, None, Some err)
      | Inr r \<Rightarrow>
          if rs_Code r \<noteq> 200 then (None, Some (rs_Body r), Some ''failed to get connections'')
          else (case rs_Body r of
                  Status n cs \<Rightarrow> (Some (if n = 0 then NoConnections else Rows (map (connection_row date) cs)), None, None)
                | Message m \<Rightarrow> (Some NoConnections, None, None)
                | Modules ms \<Rightarrow> (Some NoConnections, None, None)
                | NoBody \<Rightarrow> (None, None, Some (''failed to decode response: '' @ json_error))
                | Text t \<Rightarrow> (None, None, Some (''failed to decode response: '' @ json_error))))"

section \<open>Starting the proxy\<close>

text \<open>The root command up to \<open>Run\<close>: load the configuration, then listen.\<close>

definition start_proxy :: "ConfigSource \<Rightarrow> Env \<Rightarrow> NetEnv \<Rightarrow> Net \<Rightarrow> chan_error + ((Server \<times> string option) \<times> Net)" where
  "start_proxy src env ne net =
     (let s = NewServer\<lparr>s_WriteTimeout := 60 * Second, s_ReadTimeout := 60 * Second\<rparr> in
      bindE (ReadConfigFromFile src env True s) (\<lambda>(s1, err).
        case err of
          Some e \<Rightarrow> Inr ((s1, Some (''load config: '' @ e)), net)
        | None \<Rightarrow>
            (case Listen ne s1 net of
               ((s2, Some e), net') \<Rightarrow> Inr ((s2, Some (''server listen: '' @ e)), net')
             | ((s2, None), net') \<Rightarrow> Inr ((s2, None), net'))))"

section \<open>Repeatable flags\<close>

record stringArray =
  sa_vals :: "string list"
  sa_changed :: bool

definition Set_flag :: "string \<Rightarrow> stringArray \<Rightarrow> stringArray" where
  "Set_flag v a = (if \<not> sa_changed a then \<lparr>sa_vals = [v], sa_changed = True\<rparr> else a\<lparr>sa_vals := sa_vals a @ [v]\<rparr>)"

fun string_loop :: "nat \<Rightarrow> string list \<Rightarrow> string \<Rightarrow> string" where
  "string_loop i [] out = out"
| "string_loop i (s # ss) out = string_loop (Suc i) ss ((if i > 0 then out @ '','' else out) @ s)"

definition stringArray_String :: "stringArray \<Rightarrow> string" where
  "stringArray_String a = string_loop 0 (sa_vals a) ''''"

section \<open>The gateway process\<close>

text \<open>
  What the calls into the cluster libraries returned, in the order in which \<open>run\<close> makes them: the registrations
  of the scheme, the manager and its checks, the controller, and at last the manager's own run.
\<close>

record Manager =
  mg_Scheme :: "string option list"
  mg_New :: "string option"
  mg_Healthz :: "string option"
  mg_Readyz :: "string option"
  mg_Setup :: "string option"
  mg_Start :: "string option"

definition manager_setup :: "Manager \<Rightarrow> string option" where
  "manager_setup m =
     (case [e. Some e \<leftarrow> mg_Scheme m @ [map_option ((@) ''create manager: '') (mg_New m),
         map_option ((@) ''add healthz check: '') (mg_Healthz m), map_option ((@) ''add readyz check: '') (mg_Readyz m),
         map_option ((@) ''setup controller: '') (mg_Setup m)]] of
        [] \<Rightarrow> None | e # _ \<Rightarrow> Some e)"

text \<open>
  \<open>run\<close>: the data plane is built from the flags and closed on every return; a manager that has ended is followed
  by \<open>Drain\<close>, which closes the listeners first. The result is the error of \<open>run\<close>.
\<close>

definition gateway_run :: "Env \<Rightarrow> NetEnv \<Rightarrow> Manager \<Rightarrow> string list \<Rightarrow> string \<Rightarrow> Net \<Rightarrow> new_error option \<times> Net" where
  "gateway_run env ne m bindFlags adminAddr net =
     (let bindAddrs = fold Set_flag bindFlags \<lparr>sa_vals = ['':873''], sa_changed = False\<rparr> in
      case NewDataplane env ne \<lparr>o_BindAddrs = sa_vals bindAddrs, o_AdminAddr = adminAddr, o_ReadTimeout = 0, o_WriteTimeout = 0\<rparr> net of
        (Inl e, net1) \<Rightarrow> (Some e, net1)
      | (Inr dp, net1) \<Rightarrow>
          (case manager_setup m of
             Some e \<Rightarrow> (Some (NewError e), CloseAll dp net1)
           | None \<Rightarrow>
               (let net2 = CloseAll dp net1 in
                (map_option (\<lambda>e. NewError (''manager exited: '' @ e)) (mg_Start m), CloseAll dp net2))))"

text \<open>The goroutine of \<open>run\<close> that waits for the data plane cancels the context of the manager on the first error.\<close>

definition cancels_manager :: "string option list \<Rightarrow> bool" where
  "cancels_manager ended = (case Err (Start ended) of None \<Rightarrow> False | Some err \<Rightarrow> True)"

text \<open>\<open>main\<close>: the exit status of the process.\<close>

definition gateway_main :: "Env \<Rightarrow> NetEnv \<Rightarrow> Manager \<Rightarrow> string list \<Rightarrow> string \<Rightarrow> Net \<Rightarrow> nat" where
  "gateway_main env ne m bindFlags adminAddr net =
     (case fst (gateway_run env ne m bindFlags adminAddr net) of None \<Rightarrow> 0 | Some err \<Rightarrow> 1)"

section \<open>Sizes are shown exactly\<close>

lemma dec_val_append: "dec_val (s @ t) = dec_val s * 10 ^ length t + dec_val t"
proof (induction t rule: rev_induct)
  case (snoc c t)
  have "dec_val (s @ t @ [c]) = 10 * dec_val (s @ t) + digit_val c" using dec_val_snoc [of "s @ t" c] by simp
  then show ?case using snoc dec_val_snoc [of t c] by simp
qed (simp add: dec_val_def)

lemma dec_val_zeros: "dec_val (replicate n CHR ''0'' @ s) = dec_val s"
proof -
  have "dec_val (replicate n CHR ''0'') = 0"
    by (induction n) (simp_all add: dec_val_append [of "[CHR ''0'']", simplified] dec_val_def digit_val_def)
  then show ?thesis by (simp add: dec_val_append)
qed

lemma dec_digits_short: "n < 10 ^ k \<Longrightarrow> 0 < k \<Longrightarrow> length (dec_digits n) \<le> k"
proof (induction n arbitrary: k rule: dec_digits.induct)
  case (1 n)
  show ?case
  proof (cases "n < 10")
    case False
    then obtain j where k: "k = Suc j" "0 < j" using "1.prems" by (cases k; cases "k - 1") auto
    then have "n div 10 < 10 ^ j" using "1.prems"(1) by (simp add: less_mult_imp_div_less mult.commute)
    then have "length (dec_digits (n div 10)) \<le> j" using "1.IH" False k(2) by simp
    then show ?thesis using False k by (subst dec_digits.simps) simp
  next
    case True
    then show ?thesis using "1.prems" by (subst dec_digits.simps) simp
  qed
qed

lemma dec_val_pad: "0 \<le> n \<Longrightarrow> dec_val (pad_zero width n) = nat n"
  by (simp add: pad_zero_def Let_def dec_val_zeros dec_val_digits)

lemma length_pad: "n < 10 ^ width \<Longrightarrow> 0 < width \<Longrightarrow> length (pad_zero width n) = width"
  using dec_digits_short [of "nat n" width] by (simp add: pad_zero_def Let_def nat_less_iff)

lemma quot_rem_nat: "0 \<le> a \<Longrightarrow> quot a b = a div b" "0 \<le> a \<Longrightarrow> rem a b = a mod b"
  by (simp_all add: quot_def rem_def minus_mult_div_eq_mod)

lemma dec_val_Itoa: "0 \<le> n \<Longrightarrow> dec_val (Itoa n) = nat n"
  by (simp add: Itoa_def dec_val_digits)

lemma size_groups:
  fixes n :: int
  assumes "0 \<le> n"
  obtains tb gb mb r where "n div 1000000000000 = tb" "n div 1000000000 mod 1000 = gb" "n div 1000000 mod 1000 = mb" "n mod 1000000 = r"
    "n = ((tb * 1000 + gb) * 1000 + mb) * 1000000 + r" "0 \<le> tb" "0 \<le> gb" "gb < 1000" "0 \<le> mb" "mb < 1000" "0 \<le> r" "r < 1000000"
proof -
  define m where "m = n div 1000000"
  have d: "n div 1000000000 = m div 1000" "n div 1000000000000 = m div 1000 div 1000"
    using zdiv_zmult2_eq [of 1000 n 1000000] zdiv_zmult2_eq [of 1000000 n 1000000] zdiv_zmult2_eq [of 1000 m 1000] by (simp_all add: m_def)
  have "n = m * 1000000 + n mod 1000000" "m = m div 1000 * 1000 + m mod 1000"
    "m div 1000 = m div 1000 div 1000 * 1000 + m div 1000 mod 1000" unfolding m_def by (rule div_mult_mod_eq [symmetric])+
  then have "n = ((m div 1000 div 1000 * 1000 + m div 1000 mod 1000) * 1000 + m mod 1000) * 1000000 + n mod 1000000" by metis
  moreover have "0 \<le> m" using assms by (simp add: m_def)
  then have "0 \<le> m div 1000 div 1000" by (simp add: pos_imp_zdiv_nonneg_iff)
  ultimately show thesis
    by (intro that [of "m div 1000 div 1000" "m div 1000 mod 1000" "m mod 1000" "n mod 1000000"]) (simp_all only: d m_def [symmetric], simp_all)
qed

text \<open>The size of a transfer is shown exactly: read as one decimal number, the coloured groups of digits are the number of bytes.\<close>

theorem sizes_are_shown_exactly:
  assumes "0 \<le> n"
  shows "dec_val (coloured_text (formatSizeColored n)) = nat n"
proof (cases "n = 0")
  case True
  then show ?thesis by (simp add: formatSizeColored_def coloured_text_def Let_def dec_val_def digit_val_def)
next
  case False
  obtain tb gb mb r where g: "n div 1000000000000 = tb" "n div 1000000000 mod 1000 = gb" "n div 1000000 mod 1000 = mb" "n mod 1000000 = r"
    "n = ((tb * 1000 + gb) * 1000 + mb) * 1000000 + r" "0 \<le> tb" "0 \<le> gb" "gb < 1000" "0 \<le> mb" "mb < 1000" "0 \<le> r" "r < 1000000"
    using size_groups [OF assms] .
  have len: "length (pad_zero 3 gb) = 3" "length (pad_zero 3 mb) = 3" "length (pad_zero 6 r) = 6" using g(8,10,12) by (simp_all add: length_pad)
  have q: "quot n 1000000000000 = tb" "rem (quot n 1000000000) 1000 = gb" "rem (quot n 1000000) 1000 = mb" "rem n 1000000 = r"
    using assms g(1-4) by (simp_all add: quot_rem_nat pos_imp_zdiv_nonneg_iff)
  have nz: "tb > 0 \<or> gb > 0 \<or> mb > 0 \<or> r > 0" using False g(5,6,7,9,11) by (cases "tb = 0 \<and> gb = 0 \<and> mb = 0") auto
  have shown: "coloured_text (formatSizeColored n) =
      (if tb > 0 then Itoa tb @ pad_zero 3 gb @ pad_zero 3 mb @ pad_zero 6 r
       else if gb > 0 then Itoa gb @ pad_zero 3 mb @ pad_zero 6 r
       else if mb > 0 then Itoa mb @ pad_zero 6 r else pad_zero 6 r)"
    using False nz g(6,7,9,11) by (auto simp: formatSizeColored_def coloured_text_def Let_def q)
  have "dec_val (coloured_text (formatSizeColored n)) = ((nat tb * 1000 + nat gb) * 1000 + nat mb) * 1000000 + nat r"
    unfolding shown using g(6-) by (auto simp: dec_val_append dec_val_pad dec_val_Itoa len)
  also have "\<dots> = nat n" using g(5-) by simp
  finally show ?thesis .
qed

theorem sizes_are_shown_exactly_witness:
  "formatSizeColored 1234567890123 = [(Red, ''1''), (Green, ''234''), (Cyan, ''567''), (Uncoloured, ''890123'')] \<and>
   dec_val (coloured_text (formatSizeColored 1234567890123)) = 1234567890123"
proof
  show "formatSizeColored 1234567890123 = [(Red, ''1''), (Green, ''234''), (Cyan, ''567''), (Uncoloured, ''890123'')]" by code_simp
  show "dec_val (coloured_text (formatSizeColored 1234567890123)) = 1234567890123"
    using sizes_are_shown_exactly [of 1234567890123] by simp
qed

text \<open>A size below a megabyte is padded with zeros although nothing stands before it.\<close>

lemma small_size_padded: "formatSizeColored 5 = [(Uncoloured, ''000005'')]"
  by code_simp

section \<open>Flags\<close>

lemma string_loop_Join: "string_loop i ss out = out @ (if i > 0 \<and> ss \<noteq> [] then '','' else '''') @ Join ss '',''"
proof (induction ss arbitrary: i out)
  case (Cons s ss)
  have "Join (s # ss) '','' = s @ (if ss = [] then '''' else '','' @ Join ss '','')" by (cases ss) simp_all
  then show ?case using Cons.IH by simp
qed simp

lemma stringArray_String_Join: "stringArray_String a = Join (sa_vals a) '',''"
  by (simp add: stringArray_String_def string_loop_Join)

text \<open>Flags replace the default; without flags it stays.\<close>

lemma flags_replace_default:
  "sa_vals (fold Set_flag vs \<lparr>sa_vals = def, sa_changed = False\<rparr>) = (if vs = [] then def else vs)"
proof -
  have more: "sa_vals (fold Set_flag us \<lparr>sa_vals = xs, sa_changed = True\<rparr>) = xs @ us" for xs us
    by (induction us arbitrary: xs) (simp_all add: Set_flag_def)
  show ?thesis
  proof (cases vs)
    case (Cons v us)
    then show ?thesis using more [of us "[v]"] by (simp add: Set_flag_def)
  qed simp
qed

section \<open>The modules of an upstream\<close>

text \<open>The command that prints the modules of an upstream, run against the admin endpoint: for a configured upstream it prints
  exactly its modules, sorted, and with \<open>--force-discover\<close> what the upstream reports; for any other name it prints nothing and
  fails with the message of the server.\<close>

theorem modules_command_prints_modules:
  assumes "name \<noteq> ''''" "runHTTPServer src env h w (modulesQuery name force) = Inr (w', rs)"
  shows "SendUpstreamModulesRequest json_error (Inr rs) =
    (case ListUpstreamModules env (w_srv w) name force of
       Inr ms \<Rightarrow> \<lparr>ou_stdout = sort ms, ou_stderr = None, ou_err = None\<rparr>
     | Inl err \<Rightarrow> \<lparr>ou_stdout = [], ou_stderr = Some (Message err), ou_err = Some ''failed to get upstream modules''\<rparr>) \<and>
    (find (\<lambda>u. uc_Name u = name) (s_upstreams (w_srv w)) = None \<longrightarrow>
       rs_Code rs = 404 \<and> rs_Body rs = Message (''unknown upstream: '' @ name)) \<and>
    (\<forall>u. \<not> force \<and> find (\<lambda>u. uc_Name u = name) (s_upstreams (w_srv w)) = Some u \<longrightarrow>
       ListUpstreamModules env (w_srv w) name force = Inr (sort (uc_Modules u)))"
proof -
  have "ParseBool ''true'' = Some True" by (simp add: ParseBool_def)
  then have rs: "rs = (case ListUpstreamModules env (w_srv w) name force of
       Inl err \<Rightarrow> respond (if Contains err ''unknown upstream'' then 404 else 500) (Message err) | Inr ms \<Rightarrow> respond 200 (Modules ms))"
    using assms by (auto simp: runHTTPServer_def modulesQuery_def handleUpstreamModules_def Query_Get_def split: sum.split)
  have "Contains (''unknown upstream: '' @ name) ''unknown upstream''" by (simp add: HasPrefix_def)
  then show ?thesis unfolding rs
    by (auto simp: SendUpstreamModulesRequest_def respond_def decode_modules_def ListUpstreamModules_def split: sum.split)
qed

theorem modules_command_prints_modules_witness:
  "\<exists>w' rs. runHTTPServer src0 env0 host0 NewWorld (modulesQuery ''a'' False) = Inr (w', rs) \<and> rs_Code rs = 404 \<and>
     ou_err (SendUpstreamModulesRequest ''EOF'' (Inr rs)) = Some ''failed to get upstream modules''"
proof -
  obtain w' rs where r: "runHTTPServer src0 env0 host0 NewWorld (modulesQuery ''a'' False) = Inr (w', rs)"
    by (simp add: runHTTPServer_def modulesQuery_def)
  have "ListUpstreamModules env0 (w_srv NewWorld) ''a'' False = Inl ''unknown upstream: a''"
    "find (\<lambda>u. uc_Name u = ''a'') (s_upstreams (w_srv NewWorld)) = None"
    by (simp_all add: ListUpstreamModules_def NewWorld_def NewServer_def)
  with modules_command_prints_modules [OF _ r, of "''EOF''"] r show ?thesis by simp
qed

section \<open>A proxy that starts\<close>

lemma Listen_result:
  assumes "Listen ne s net = ((s', None), net')"
  shows "s_modules s' = s_modules s \<and> s_upstreamQueues s' = s_upstreamQueues s \<and> s_queue_heap s' = s_queue_heap s \<and>
    s_TCPListener s' \<noteq> None \<and> s_HTTPListener s' \<noteq> None"
  using assms by (auto simp: Listen_def Let_def split: prod.splits sum.splits if_splits option.splits)

text \<open>The proxy runs only with a configuration that was loaded and with its listeners open.\<close>

lemma start_proxy_consistent:
  assumes "start_proxy src env ne net = Inr ((s, None), net')" "\<forall>f c. cs_Decode src f = Inr c \<longrightarrow> gm_wf (c_Upstreams c)"
  shows "srv_inv s \<and> s_TCPListener s \<noteq> None \<and> s_HTTPListener s \<noteq> None"
proof -
  let ?s = "NewServer\<lparr>s_WriteTimeout := 60 * Second, s_ReadTimeout := 60 * Second\<rparr>"
  have new: "srv_inv ?s" using srv_inv_NewServer by (simp add: srv_inv_def)
  obtain s1 e where r: "ReadConfigFromFile src env True ?s = Inr (s1, e)" "srv_inv s1"
    using new assms(2)
  proof (cases rule: ReadConfigFromFile_cases [where env = env])
    case (unread e)
    then show ?thesis using that new by blast
  next
    case (refused c s' e)
    then show ?thesis using that loadConfig_total [OF new, of c env True] by auto
  next
    case (loaded c s')
    then show ?thesis using that loadConfig_total [OF new, of c env True] by auto
  qed
  have "Listen ne s1 net = ((s, None), net')"
    using assms(1) r(1) by (auto simp: start_proxy_def Let_def split: option.splits prod.splits)
  then show ?thesis using r(2) Listen_result [of ne s1 net s net'] by (auto simp: srv_inv_def)
qed

lemma request_sorted:
  "sorted (ou_stdout (SendUpstreamModulesRequest json_error resp)) \<and>
   (ou_err (SendUpstreamModulesRequest json_error resp) \<noteq> None \<longrightarrow> ou_stdout (SendUpstreamModulesRequest json_error resp) = [])"
  by (simp add: SendUpstreamModulesRequest_def split: sum.split)

text \<open>Wherever the modules come from, the command lists them in order; a failed command lists none.\<close>

lemma modules_command_sorted:
  assumes out: "out = upstream_modules_cmd parse env send json_error proxy force arg"
  shows "sorted (ou_stdout out) \<and> (ou_err out \<noteq> None \<longrightarrow> ou_stdout out = [])"
proof (cases "arg = '''' \<or> \<not> HasPrefix arg ''rsync://''")
  case True
  then show ?thesis using request_sorted by (auto simp: out upstream_modules_cmd_def Let_def)
next
  case False
  have "sorted ms" if "DiscoverModulesWithProxyProtocol env addr proxy = Inr ms" for addr ms
    using that discovered_sorted unfolding DiscoverModulesWithProxyProtocol_def by blast
  then show ?thesis using False
    by (cases "parse arg") (auto simp: out upstream_modules_cmd_def Let_def split: sum.split)
qed

text \<open>However the gateway ends, it does not panic and leaves no socket open that it opened.\<close>

theorem gateway_run_closes_its_sockets:
  assumes "\<forall>i. ne_Chmod ne i = None" "net_wf net"
  shows "\<exists>e net'. gateway_run env ne m flags admin net = (e, net') \<and> net_open net' = net_open net \<and> (\<forall>p. e \<noteq> Some (NewPanic p)) \<and>
    (e = None \<longrightarrow> admin \<noteq> '''' \<and> manager_setup m = None \<and> mg_Start m = None)"
proof -
  let ?opts = "\<lparr>o_BindAddrs = sa_vals (fold Set_flag flags \<lparr>sa_vals = ['':873''], sa_changed = False\<rparr>), o_AdminAddr = admin,
    o_ReadTimeout = 0, o_WriteTimeout = 0\<rparr>"
  show ?thesis
  proof (rule NewDataplane_result [OF assms, of env ?opts])
    fix msg net' assume "NewDataplane env ne ?opts net = (Inl (NewError msg), net')" "net_open net' = net_open net"
    then show ?thesis by (simp add: gateway_run_def Let_def)
  next
    fix d net' assume d: "NewDataplane env ne ?opts net = (Inr d, net')" "net_open (CloseAll d net') = net_open net"
    then have "admin \<noteq> ''''" by (auto simp: NewDataplane_def split: if_splits)
    with d show ?thesis by (auto simp: gateway_run_def Let_def CloseAll_again split: option.splits)
  qed
qed

text \<open>
  One failing server is enough to stop the manager, and nothing else is. A manager whose context is cancelled returns without an error
  (\<open>mg_Start m = None\<close>), and then the process exits with status 0: the failure of the data plane is only logged.
\<close>

lemma cancels_manager_iff: "cancels_manager ended \<longleftrightarrow> (\<exists>err. Some err \<in> set ended)"
proof -
  have "cancels_manager ended \<longleftrightarrow> Err (Start ended) \<noteq> None" by (simp add: cancels_manager_def split: option.split)
  also have "\<dots> \<longleftrightarrow> (\<exists>err. Some err \<in> set ended)" unfolding Start_first_error(2) by (metis not_None_eq)
  finally show ?thesis .
qed

lemma stopped_manager_exits_zero:
  assumes "manager_setup m = None" "mg_Start m = None"
    "fst (NewDataplane env ne \<lparr>o_BindAddrs = sa_vals (fold Set_flag flags \<lparr>sa_vals = ['':873''], sa_changed = False\<rparr>),
       o_AdminAddr = admin, o_ReadTimeout = 0, o_WriteTimeout = 0\<rparr> net) = Inr dp"
  shows "gateway_main env ne m flags admin net = 0"
  using assms by (auto simp: gateway_main_def gateway_run_def Let_def split: prod.split)

end
