(* ===== verification/Spec2Isabelle.thy ===== *)
theory Spec2Isabelle
  imports ControlLoop DeepCopy Denial Cli
begin

text \<open>
  A verification development of \<open>rsync-gateway\<close>, the Kubernetes gateway for rsync with the embedded rsync proxy.

  \<^bold>\<open>The program.\<close> One process holds a control plane and a data plane. The control plane
  (\<open>internal/controller\<close>) lists the Gateway API objects of the cluster, decides which classes it
  claims, which routes are bound to which Gateways and which backends they may use
  (\<open>internal/gateway\<close>), translates the result into a proxy configuration (\<open>internal/translate\<close>), hands it
  to the data plane (\<open>internal/dataplane\<close>) and writes statuses. The data plane is one proxy server per
  bind address (\<open>pkg/server\<close>): a server accepts rsync clients, looks the requested module up in its
  table, chooses a target by the client address, enforces a limit per address, queues the client per
  upstream (\<open>pkg/queue\<close>), and relays bytes while a watcher enforces time and throughput limits. An
  admin HTTP server reports on it and reloads it; \<open>cmd\<close> holds the command line.

  \<^bold>\<open>The theories.\<close>
  \<^item> \<open>Prelude\<close>: results of fallible code (\<open>bindE\<close>, \<open>mapE\<close>, \<open>foldE\<close>), Go maps as association lists, the
    locale \<open>transition_system\<close> with its invariant rule. \<open>GoStd\<close>: what the code uses of \<open>strings\<close>, \<open>strconv\<close>,
    \<open>net\<close> and \<open>time\<close> (decimal numbers, host and port, \<open>ParseDuration\<close> with its float arithmetic).
  \<^item> \<open>AdmissionQueue\<close> (\<open>queue.go\<close>): the queue with its channels and handles as a store. Locales state what a
    bounded FIFO admission queue promises; they are interpreted on the model. The queue never panics
    or blocks, refines the abstract queue, keeps its limits and delivers every promotion.
    \<open>QueueClient\<close>: what one client sees of it.
  \<^item> \<open>ApiTypes\<close>, \<open>Claims\<close>, \<open>Binding\<close>, \<open>Backends\<close>, \<open>Statuses\<close> (\<open>api/v1alpha1\<close>, \<open>internal/gateway\<close>): validation, class
    claims, route binding with conflict resolution, backend references and grants, conditions.
    \<open>Translate\<close> and \<open>Controller\<close>: the table and the reconcile with all its status writes; the orders in which the table is built from the maps of
    the snapshot are a parameter (\<open>RangeOrder\<close>), and with distinct upstream names the contents do not depend on it. \<open>Quiescence\<close>: claims, binding and
    table do not depend on statuses, so that a second reconcile writes nothing. \<open>ControlLoop\<close> (\<open>SetupWithManager\<close>, \<open>rebuildHandler\<close>): the watches,
    the work queue with its one request and the worker as the step relation \<open>control_step\<close>; an idle loop has applied the present cluster,
    and two rounds of work make it idle.
  \<^item> \<open>DeepCopy\<close> (\<open>zz_generated.deepcopy.go\<close>): the API objects with their pointers and slices in a memory of cells; the locale
    \<open>deep_copier\<close> says what a deep copy promises, and every generated function keeps it. The rest of the control plane may
    therefore treat objects as values, although the reconciler assigns statuses in place.
  \<^item> \<open>Logging\<close> (\<open>file.go\<close>), \<open>ServerConfig\<close> (\<open>config.go\<close> and the configuration half of \<open>server.go\<close>): loading and
    reloading a configuration, module discovery, the module table and the queues behind it.
  \<^item> \<open>Routing\<close> (\<open>utils.go\<close>): client addresses, the choice of a target, the PROXY header, reading a line.
    \<open>Watcher\<close>: the watcher of a relay. \<open>Relay\<close>: \<open>handleConn\<close> and \<open>relay\<close>, cut between their accesses to shared state
    (accept, the start of the goroutine, each of its first counters, the index and each lifetime total are steps of their own; an increment of
    a counter per upstream that only the metrics read shares a step with the access before it),
    and the run of a whole server as the step relation \<open>relay_step\<close> with any number of connections,
    metrics requests and reloads interleaved. \<open>RelaySafety\<close>: its invariant, one lemma per step. \<open>RelayProperties\<close>: what follows.
  \<^item> \<open>Metrics\<close> (\<open>metrics.go\<close>), \<open>Dataplane\<close> (\<open>dataplane.go\<close>, listeners), \<open>Admin\<close> (the accept loops, \<open>Drain\<close> and HTTP
    endpoints), \<open>Cli\<close> (\<open>cmd.go\<close>, and \<open>run\<close> of the gateway), \<open>Denial\<close> (\<open>contrib/rsync-403\<close>).
  \<^item> This theory: from the objects in the cluster to the bytes a client reads.

  \<^bold>\<open>How code becomes definitions.\<close> Structs are records, sum types stand for errors and for panics
  (a panic is a value of its own, so that its absence is proved), pointers to queues and connections are
  indices into lists, counters are words of the width of the code, durations are nanoseconds. Code
  outside the repository is a parameter: the API server, the system calls behind files and sockets, name resolution,
  certificate loading, the TOML decoder, label selectors, the formatting of namespaced names and of
  floating-point seconds, the deep copies of the structs of other API packages. Locks are not state: each definition is the code of one critical section or
  between two accesses to shared state.

  \<^bold>\<open>Termination and bounds.\<close> Every definition is total; the loops that are not structural have a measure
  (\<open>release\<close> and \<open>SetMax\<close> promote while there are waiters, \<open>read_modules\<close> and \<open>ParseDuration\<close> consume their input,
  \<open>parse6\<close> consumes the address). Loops that wait for the outside (the accept loop, \<open>Run\<close>, \<open>Drain\<close>, \<open>readLine\<close>, the watcher)
  are functions of the finite history of events so far, with a value for \<open>still waiting\<close>; no fuel is used.
  Theorems about counters at their width state how many connections they allow
  (\<open>2^32\<close> for the connection index, \<open>2^63\<close> for the signed counts).

  \<^bold>\<open>Time and the outside.\<close> Name resolution is asked anew by every server that loads a table, so \<open>Apply\<close> takes one environment per server and
  may stop halfway. A response of the admin server is computed from the state at one instant, although the code reads the counters one after the
  other. Indices are taken by the goroutines, not by the accept loop, so that their order need not be the order of acceptance.

  \<^bold>\<open>Not modelled.\<close> Entries \<open>nil\<close> in the map of upstreams of a configuration (the translation and the decoder make none); zones of IPv6
  addresses (\<open>%eth0\<close> after a link-local address in a listing); half-closing (\<open>closeRead\<close> acts on a connection that was read to its end, and is closed on
  return); TCP keep-alive and deadlines on sockets (a deadline is an outcome of a read or write); log lines; the JSON
  encoding of bodies; the caches and workers of controller-runtime beyond the order of requests (a reconcile is one step of the
  control loop, its updates are accepted, and a change during it counts as one after it);
  flag parsing except the repeatable flag, signals and \<open>GetConfigOrDie\<close>; the command tree of \<open>cmd.go\<close>;
  the registration of \<open>api/v1alpha1\<close> with a scheme; \<open>main.go\<close> and the standard logger.
\<close>

section \<open>From a reconcile to the data plane\<close>

text \<open>The data plane as the \<open>Applier\<close> of the reconciler; \<open>Apply\<close> does not panic, see \<open>apply_table\<close>.\<close>

definition dataplane_Applier :: "(nat \<Rightarrow> Env) \<Rightarrow> Config \<Rightarrow> Dataplane \<Rightarrow> Dataplane \<times> string option" where
  "dataplane_Applier envs table d = (case Apply envs table d of Inl p \<Rightarrow> (d, Some ''panic'') | Inr r \<Rightarrow> r)"

text \<open>A route is bound when some Gateway accepted it; its addresses are those of the backends that resolved.\<close>

definition route_bound :: "Results \<Rightarrow> NamespacedName \<Rightarrow> bool" where
  "route_bound results key \<longleftrightarrow> (\<exists>ps p. map_of results key = Some ps \<and> p \<in> set ps \<and> pres_Accepted p)"

definition resolved_addresses :: "Ext \<Rightarrow> Snapshot \<Rightarrow> NamespacedName \<Rightarrow> RsyncRoute \<Rightarrow> string set" where
  "resolved_addresses x snap key route =
     (\<lambda>b. snd (rb_Service b) @ ''.'' @ fst (rb_Service b) @ ''.svc:'' @ Itoa (rb_Port b)) ` set (fst (ResolveBackends x snap key route))"

lemma upstream_entry_input:
  assumes "(n, v) \<in> set (upstream_entries primary inputs)" "\<forall>inp\<in>set inputs. valid_input primary inp"
  obtains inp b spec where "inp \<in> set inputs" "b \<in> set (ri_Backends inp)" "Validate spec = None" "v = route_upstream inp spec b"
proof -
  from assms(1) obtain inp i b where inp: "inp \<in> set inputs" "(i, b) \<in> set (enumerate 0 (ri_Backends inp))"
    "v = route_upstream inp (the (route_spec primary inp)) b"
    by (auto simp: upstream_entries_def route_entries_def)
  moreover have "b \<in> set (ri_Backends inp)" using inp(2) by (auto simp: in_set_enumerate_eq)
  moreover have "Validate (the (route_spec primary inp)) = None" using assms(2) inp(1) by (auto simp: valid_input_def)
  ultimately show thesis using that by blast
qed

lemma input_upstream_entry:
  assumes "inp \<in> set inputs" "b \<in> set (ri_Backends inp)"
  shows "\<exists>n spec. (n, route_upstream inp spec b) \<in> set (upstream_entries primary inputs)"
proof -
  obtain i where "i < length (ri_Backends inp)" "b = ri_Backends inp ! i" using assms(2) by (metis in_set_conv_nth)
  then have "(UpstreamName (ri_Route inp) (int i), route_upstream inp (the (route_spec primary inp)) b) \<in> set (route_entries primary inp)"
    by (force simp: route_entries_def in_set_enumerate_eq)
  then show ?thesis using assms(1) by (auto simp: upstream_entries_def)
qed

lemma table_input:
  "inp \<in> set (bound_inputs x snap claims results) \<longleftrightarrow>
     (\<exists>kr\<in>set (sn_RsyncRoutes snap). route_input x snap claims results kr = Some inp)"
  by (auto simp: bound_inputs_def map_filter_def) force

lemma boundGateways_empty: "boundGatewaysFor x (or_default (map_of results key) []) = [] \<longleftrightarrow> \<not> route_bound results key"
proof -
  have "boundGatewaysFor x ps = [] \<longleftrightarrow> {g. bound_to g ps} = {}" for ps using boundGatewaysFor_set [of x ps] set_empty by metis
  moreover have "{g. bound_to g ps} = {} \<longleftrightarrow> \<not> (\<exists>p\<in>set ps. pres_Accepted p)" for ps unfolding bound_to_def by blast
  ultimately show ?thesis by (cases "map_of results key") (auto simp: route_bound_def simp del: split_paired_All split_paired_Ex)
qed

lemma input_modules_nonempty: "route_input x snap claims results kr = Some inp \<Longrightarrow> ri_Modules inp \<noteq> []"
  by (auto simp: route_input_def Let_def EffectiveModules_def split: if_splits)

text \<open>The proxy settings of the table pass the checks of the data plane.\<close>

lemma primary_settings_pass:
  assumes "ProxySettings primary = Inr p" "case primary of None \<Rightarrow> True | Some spec \<Rightarrow> Validate spec = None"
  shows "check_proxy p = None" "ps_ListenTLS p = ''''" "0 \<le> ps_RelayIdleTimeoutSecs p"
proof -
  have "(ps_ListenTLS p = '''' \<and> 0 \<le> ps_RelayIdleTimeoutSecs p \<and> 0 \<le> ps_RelayMaxDurationSecs p \<and> 0 \<le> ps_TCPKeepAliveSecs p \<and>
      0 \<le> ps_DialTimeoutSecs p \<and> 0 \<le> ps_MinThroughputWindowSecs p \<and> 0 \<le> ps_MinThroughputGraceSecs p) \<and>
      0 \<le> ps_PerIPMaxActiveConns p \<and> 0 \<le> ps_MinThroughputBytes p"
  proof (cases primary)
    case None
    then show ?thesis using assms(1) by (auto simp: ProxySettings_def zero_proxy_def)
  next
    case (Some spec)
    then have "Validate spec = None" using assms(2) by simp
    then show ?thesis using ProxySettings_valid_lemma [of spec] assms(1) Some by (auto simp: within_def)
  qed
  then show "check_proxy p = None" "ps_ListenTLS p = ''''" "0 \<le> ps_RelayIdleTimeoutSecs p"
    by (simp_all add: check_proxy_def non_negative_def)
qed

text \<open>The table that a reconcile builds, with what it holds.\<close>

lemma reconciled_table:
  assumes "snap_wf snap" "BindRoutes x snap (ClaimClasses snap) = Inr results" "distinct (table_names x snap results)" "visits_all ro"
  obtains table where "buildTable x ro snap (ClaimClasses snap) results = Inr table" "gm_wf (c_Upstreams table)"
    "check_proxy (c_Proxy table) = None" "ps_ListenTLS (c_Proxy table) = ''''" "0 \<le> ps_RelayIdleTimeoutSecs (c_Proxy table)"
    "\<And>n v. map_of (c_Upstreams table) n = Some v \<Longrightarrow> \<exists>inp b spec. inp \<in> set (bound_inputs x snap (ClaimClasses snap) results) \<and>
       b \<in> set (ri_Backends inp) \<and> Validate spec = None \<and> v = route_upstream inp spec b"
    "\<And>inp b. inp \<in> set (bound_inputs x snap (ClaimClasses snap) results) \<Longrightarrow> b \<in> set (ri_Backends inp) \<Longrightarrow>
       \<exists>n spec. map_of (c_Upstreams table) n = Some (route_upstream inp spec b)"
proof -
  let ?p = "primary_config x ro (ClaimClasses snap) snap" and ?is = "bound_inputs x snap (ClaimClasses snap) results"
  obtain table where t: "buildTable x ro snap (ClaimClasses snap) results = Inr table" "gm_wf (c_Upstreams table)"
    "ProxySettings ?p = Inr (c_Proxy table)"
    using buildTable_entries [OF assms(1,2)] by blast
  have lookup: "map_of (c_Upstreams table) n = Some v \<longleftrightarrow> (n, v) \<in> set (upstream_entries ?p ?is)" for n v
    by (rule buildTable_lookup [OF assms(1,2,4,3) t(1)])
  have "case ?p of None \<Rightarrow> True | Some spec \<Rightarrow> Validate spec = None"
    using primary_config_valid [OF assms(1)] by (auto split: option.split)
  note pass = primary_settings_pass [OF t(3) this]
  show thesis
  proof (rule that [OF t(1,2) pass])
    fix n v assume "map_of (c_Upstreams table) n = Some v"
    then show "\<exists>inp b spec. inp \<in> set ?is \<and> b \<in> set (ri_Backends inp) \<and> Validate spec = None \<and> v = route_upstream inp spec b"
      unfolding lookup using upstream_entry_input bound_inputs_valid [OF assms(1,2)] by metis
  next
    fix inp b assume "inp \<in> set ?is" "b \<in> set (ri_Backends inp)"
    then show "\<exists>n spec. map_of (c_Upstreams table) n = Some (route_upstream inp spec b)"
      unfolding lookup by (rule input_upstream_entry)
  qed
qed

lemma sorted_upstreams_mem: "(n, v) \<in> set (sorted_upstreams c) \<longleftrightarrow> map_of (c_Upstreams c) n = Some v"
proof -
  have "set (sorted_upstreams c) = (\<lambda>n. (n, the (map_of (c_Upstreams c) n))) ` dom (map_of (c_Upstreams c))"
    by (simp add: sorted_upstreams_def dom_map_of_conv_image_fst)
  then show ?thesis by (auto simp: image_iff)
qed

text \<open>The data plane accepts a table whose upstreams have modules, sensible limits and addresses that resolve.\<close>

lemma table_accepted:
  assumes "gm_wf (c_Upstreams table)" "check_proxy (c_Proxy table) = None" "ps_ListenTLS (c_Proxy table) = ''''"
    and "0 \<le> ps_RelayIdleTimeoutSecs (c_Proxy table)"
    and "\<And>n v. map_of (c_Upstreams table) n = Some v \<Longrightarrow>
      u_Modules v \<noteq> [] \<and> 0 \<le> u_PerIPMaxActiveConns v \<and> validateTCPOrUnixAddr env (u_Address v) = None"
  shows "config_verdict env table = None"
proof -
  have "\<exists>u. check_upstream env table nv = Inr u" if "nv \<in> set (sorted_upstreams table)" for nv
  proof -
    obtain n v where n: "nv = (n, v)" by (cases nv)
    then show ?thesis using that assms(5) [of n v] by (simp add: sorted_upstreams_mem check_upstream_def Let_def)
  qed
  then obtain us where "mapE (check_upstream env table) (sorted_upstreams table) = Inr us"
    using mapE_Inr_iff_all [of "check_upstream env table" "sorted_upstreams table"] by blast
  then have "check_config env table NewServer = Inr (None, us)"
    using assms(2,3) by (simp add: check_config_def check_tls_def NewServer_def)
  then show ?thesis using assms(4) by (simp add: config_verdict_def)
qed

text \<open>The addresses that serve a module after a table was loaded.\<close>

definition module_addresses :: "Server \<Rightarrow> string \<Rightarrow> string set" where
  "module_addresses s m = (case getTargetsForModule s m of None \<Rightarrow> {} | Some ts \<Rightarrow> t_Addr ` set ts)"

lemma loaded_addresses:
  assumes "srv_inv s" "gm_wf (c_Upstreams c)" "loadConfig env c False s = Inr (s', None)"
    and "\<And>n v. map_of (c_Upstreams c) n = Some v \<Longrightarrow> \<not> u_DiscoverModules v"
  shows "module_addresses s' m = {u_Address v | n v. map_of (c_Upstreams c) n = Some v \<and> m \<in> set (u_Modules v)}"
proof -
  let ?ts = "concat (map (\<lambda>(n, v). replicate (if u_DiscoverModules v then 0 else count_list (u_Modules v) m)
         \<lparr>t_Upstream = n, t_Addr = u_Address v, t_UseProxyProtocol = u_UseProxyProtocol v\<rparr>) (sorted_upstreams c))"
  define ts where "ts = ?ts"
  have "getTargetsForModule s' m = (if ts = [] then None else Some ts)"
    using loaded_targets [OF assms(1-3), of m] by (simp only: ts_def Let_def)
  then have "module_addresses s' m = t_Addr ` set ?ts" unfolding ts_def [symmetric] by (simp add: module_addresses_def)
  also have "\<dots> = (\<Union>nv\<in>set (sorted_upstreams c). if m \<in> set (u_Modules (snd nv)) then {u_Address (snd nv)} else {})"
    unfolding set_concat set_map image_UN image_image
  proof (rule SUP_cong [OF refl])
    fix nv assume nv: "nv \<in> set (sorted_upstreams c)"
    obtain n v where [simp]: "nv = (n, v)" by (cases nv)
    have "\<not> u_DiscoverModules v" using assms(4) nv by (simp add: sorted_upstreams_mem)
    then show "t_Addr ` set (case nv of (n, v) \<Rightarrow> replicate (if u_DiscoverModules v then 0 else count_list (u_Modules v) m)
        \<lparr>t_Upstream = n, t_Addr = u_Address v, t_UseProxyProtocol = u_UseProxyProtocol v\<rparr>) =
      (if m \<in> set (u_Modules (snd nv)) then {u_Address (snd nv)} else {})"
      by (simp add: count_list_0_iff)
  qed
  also have "\<dots> = {u_Address v | n v. (n, v) \<in> set (sorted_upstreams c) \<and> m \<in> set (u_Modules v)}"
    by (auto split: if_splits) blast
  finally show ?thesis by (simp add: sorted_upstreams_mem)
qed

text \<open>The addresses in the table are those of the bound routes.\<close>

lemma table_addresses:
  assumes "\<And>n v. map_of (c_Upstreams table) n = Some v \<Longrightarrow> \<exists>inp b spec. inp \<in> set (bound_inputs x snap claims results) \<and>
       b \<in> set (ri_Backends inp) \<and> Validate spec = None \<and> v = route_upstream inp spec b"
    and "\<And>inp b. inp \<in> set (bound_inputs x snap claims results) \<Longrightarrow> b \<in> set (ri_Backends inp) \<Longrightarrow>
       \<exists>n spec. map_of (c_Upstreams table) n = Some (route_upstream inp spec b)"
  shows "{u_Address v | n v. map_of (c_Upstreams table) n = Some v \<and> m \<in> set (u_Modules v)} =
    (\<Union>(key, route)\<in>{(key, route)\<in>set (sn_RsyncRoutes snap). route_bound results key \<and> m \<in> set (EffectiveModules route)}.
       resolved_addresses x snap key route)" (is "?L = ?R")
proof -
  have "?L = {backend_address b | inp b. inp \<in> set (bound_inputs x snap claims results) \<and> b \<in> set (ri_Backends inp) \<and> m \<in> set (ri_Modules inp)}"
    (is "_ = ?M")
  proof
    show "?L \<subseteq> ?M" using assms(1) by (fastforce simp: route_upstream_def)
    show "?M \<subseteq> ?L"
    proof
      fix a assume "a \<in> ?M"
      then obtain inp b where i: "inp \<in> set (bound_inputs x snap claims results)" "b \<in> set (ri_Backends inp)" "m \<in> set (ri_Modules inp)"
        "a = backend_address b" by blast
      from assms(2) [OF i(1,2)] obtain n spec where "map_of (c_Upstreams table) n = Some (route_upstream inp spec b)" by blast
      moreover have "u_Address (route_upstream inp spec b) = a" "u_Modules (route_upstream inp spec b) = ri_Modules inp"
        using i(4) by (simp_all add: route_upstream_def)
      ultimately show "a \<in> ?L" using i(3) by fastforce
    qed
  qed
  also have "\<dots> = (\<Union>kr\<in>set (sn_RsyncRoutes snap). case route_input x snap claims results kr of None \<Rightarrow> {}
      | Some inp \<Rightarrow> if m \<in> set (ri_Modules inp) then backend_address ` set (ri_Backends inp) else {})"
    by (auto simp: table_input split: option.splits if_splits) blast+
  also have "\<dots> = (\<Union>kr\<in>set (sn_RsyncRoutes snap). if route_bound results (fst kr) \<and> m \<in> set (EffectiveModules (snd kr))
      then resolved_addresses x snap (fst kr) (snd kr) else {})"
    by (rule SUP_cong [OF refl])
      (auto simp: route_input_def Let_def boundGateways_empty resolved_addresses_def backend_address_def image_image)
  also have "\<dots> = ?R" by (auto split: if_splits) blast
  finally show ?thesis .
qed

text \<open>What the bound routes offer for a module: the addresses of their resolved backends.\<close>

definition offered_addresses :: "Ext \<Rightarrow> Snapshot \<Rightarrow> Results \<Rightarrow> string \<Rightarrow> string set" where
  "offered_addresses x snap results m =
     (\<Union>(key, route)\<in>{(key, route)\<in>set (sn_RsyncRoutes snap). route_bound results key \<and> m \<in> set (EffectiveModules route)}.
        resolved_addresses x snap key route)"

lemma reconcile_serves:
  assumes "readSnapshot cluster = Inr snap" "BindRoutes x snap (ClaimClasses snap) = Inr results"
    and "distinct (table_names x snap results)" "\<forall>i addr. validateTCPOrUnixAddr (envs i) addr = None" "\<forall>s\<in>set d. plain_server s" "visits_all ro"
  shows "\<exists>r. Reconcile x ro api now recorder bindAddrs (dataplane_Applier envs) cluster d = Inr r \<and> length (rc_dataplane r) = length d \<and>
    (\<forall>s\<in>set (rc_dataplane r). plain_server s) \<and> (\<forall>s\<in>set (rc_dataplane r). \<forall>m. module_addresses s m =
       offered_addresses x snap results m)"
proof -
  have wf: "snap_wf snap" using assms(1) NewSnapshot_wf by (auto simp: readSnapshot_def resultE)
  obtain table where t: "buildTable x ro snap (ClaimClasses snap) results = Inr table" "gm_wf (c_Upstreams table)"
    "check_proxy (c_Proxy table) = None" "ps_ListenTLS (c_Proxy table) = ''''" "0 \<le> ps_RelayIdleTimeoutSecs (c_Proxy table)"
    "\<And>n v. map_of (c_Upstreams table) n = Some v \<Longrightarrow> \<exists>inp b spec. inp \<in> set (bound_inputs x snap (ClaimClasses snap) results) \<and>
       b \<in> set (ri_Backends inp) \<and> Validate spec = None \<and> v = route_upstream inp spec b"
    "\<And>inp b. inp \<in> set (bound_inputs x snap (ClaimClasses snap) results) \<Longrightarrow> b \<in> set (ri_Backends inp) \<Longrightarrow>
       \<exists>n spec. map_of (c_Upstreams table) n = Some (route_upstream inp spec b)"
    by (rule reconciled_table [OF wf assms(2,3,6)]) blast
  have entry: "u_Modules v \<noteq> [] \<and> 0 \<le> u_PerIPMaxActiveConns v \<and> \<not> u_DiscoverModules v"
    if "map_of (c_Upstreams table) n = Some v" for n v
    using t(6) [OF that] input_modules_nonempty
    by (auto simp: route_upstream_def table_input Validate_None_iff nonneg_opt_def derefInt32_def split: option.splits)
  have "config_verdict (envs i) table = None" for i using t(2-5) entry assms(4) by (intro table_accepted) auto
  then obtain d' where d': "Apply envs table d = Inr (d', None)" "length d' = length d" "\<forall>s\<in>set d'. plain_server s"
      "\<forall>i<length d. loadConfig (envs i) table False (d ! i) = Inr (d' ! i, None)"
    using Apply_prefix [OF t(2,4) assms(5), of envs] by (metis le_neq_implies_less)
  obtain r where r: "Reconcile x ro api now recorder bindAddrs (dataplane_Applier envs) cluster d = Inr r" "rc_dataplane r = d'"
    using assms(1,2) t(1) d'(1)
    by (cases "writeStatuses x api now recorder bindAddrs snap (ClaimClasses snap) results None")
      (simp add: Reconcile_def Let_def dataplane_Applier_def)
  have served: "module_addresses s m = offered_addresses x snap results m" if s: "s \<in> set d'" for s m
  proof -
    obtain i where i: "i < length d" "s = d' ! i" using s d'(2) by (metis in_set_conv_nth)
    then have "srv_inv (d ! i)" using assms(5) by (simp add: plain_server_def)
    from loaded_addresses [OF this t(2), of "envs i" s m] show ?thesis using d'(4) i entry table_addresses [where m = m, OF t(6,7)]
      by (simp add: offered_addresses_def)
  qed
  show ?thesis
  proof (intro exI conjI ballI allI)
    show "Reconcile x ro api now recorder bindAddrs (dataplane_Applier envs) cluster d = Inr r" by (rule r(1))
  qed (use r(2) d'(2,3) in \<open>auto intro!: served\<close>)
qed

text \<open>C1: From the cluster to the data plane: a reconcile applies its table, and then on every server a module is served by exactly the
  addresses of the resolved backends of the routes that are bound and have the module, and by no other, in whatever order the maps of the
  snapshot were visited. (The backends get different upstream names, and their addresses resolve on every lookup; the servers are consistent and
  without TLS.)\<close>

theorem bound_routes_are_served:
  assumes "readSnapshot cluster = Inr snap" "BindRoutes x snap (ClaimClasses snap) = Inr results"
    and "distinct (table_names x snap results)" "\<forall>i addr. validateTCPOrUnixAddr (envs i) addr = None" "\<forall>s\<in>set d. plain_server s" "visits_all ro"
  shows "\<exists>r. Reconcile x ro api now recorder bindAddrs (dataplane_Applier envs) cluster d = Inr r \<and> length (rc_dataplane r) = length d \<and>
    (\<forall>s\<in>set (rc_dataplane r). \<forall>m. module_addresses s m =
       offered_addresses x snap results m)"
  using reconcile_serves [OF assms, of api now recorder bindAddrs] by blast

text \<open>A cluster with three routes, of which the one created last but one loses a module conflict.\<close>

definition sample_cluster :: Cluster where
  "sample_cluster = \<lparr>cs_classes = [sample_class],
     cs_configs = [\<lparr>gcf_Meta = sample_meta '''' ''default'' 0, gcf_Spec = sample_spec, gcf_Conditions = []\<rparr>],
     cs_gateways = [sample_gateway],
     cs_routes = [sample_route ''ubuntu'' 20 [''ubuntu'', ''pool''], sample_route ''debian'' 10 [''debian'', ''pool''], sample_route ''arch'' 30 []],
     cs_services = [\<lparr>svc_Name = ''store'', svc_Namespace = ''mirror''\<rparr>], cs_grants = []\<rparr>"

lemma sample_cluster_snap: "readSnapshot (Inr sample_cluster) = Inr sample_snap"
  by (simp add: readSnapshot_def sample_cluster_def sample_snap_def)

lemma sample_names: "distinct (table_names ext0 sample_snap sample_results)"
  by code_simp

lemma plain_NewServer: "plain_server NewServer"
  using srv_inv_NewServer by (simp add: plain_server_def NewServer_def)

lemma env0_resolves: "validateTCPOrUnixAddr env0 addr = None"
  by (simp add: validateTCPOrUnixAddr_def env0_def)

theorem bound_routes_are_served_witness:
  "\<exists>r. Reconcile ext0 listed_order (\<lambda>_. ApiOk) 100 True ['':873''] (dataplane_Applier (\<lambda>_. env0)) (Inr sample_cluster) [NewServer] = Inr r \<and>
     length (rc_dataplane r) = 1 \<and>
     (\<forall>s\<in>set (rc_dataplane r). \<forall>m. module_addresses s m = offered_addresses ext0 sample_snap sample_results m)"
  using bound_routes_are_served [OF sample_cluster_snap sample_BindRoutes sample_names, of "\<lambda>_. env0" "[NewServer]" listed_order "\<lambda>_. ApiOk" 100 True "['':873'']"]
    plain_NewServer env0_resolves sample_orders by simp

text \<open>The index chosen for a client is within the targets.\<close>

lemma chosen_target: "0 < n \<Longrightarrow> n < 2 ^ 32 \<Longrightarrow> \<exists>j<n. chooseTargetByClientIP ip n = Some j"
proof -
  assume n: "0 < n" "n < 2 ^ 32"
  then have "unat (word_of_nat n :: 32 word) = n" by (simp add: unsigned_of_nat take_bit_nat_eq_self)
  then have "(word_of_nat n :: 32 word) \<noteq> 0" "unat (v mod word_of_nat n :: 32 word) < n" for v
    using n by (auto simp: unat_mod)
  then show ?thesis using n by (auto simp: chooseTargetByClientIP_def Let_def split: option.split)
qed

lemma lookup_serves:
  assumes "srv_inv (w_srv w)" "at w i AtLookup" "\<forall>ts. getTargetsForModule (w_srv w) (k_module (conn w i)) = Some ts \<longrightarrow> length ts < 2 ^ 32"
  shows "if module_addresses (w_srv w) (k_module (conn w i)) = {}
    then conn (relay_lookup None i w) i = returns None ((conn w i)\<lparr>k_out := k_out (conn w i) @ ''@ERROR: Unknown module '' @ [CHR 0x27] @
        k_module (conn w i) @ [CHR 0x27, lineFeed]\<rparr>)
    else k_pc (conn (relay_lookup None i w) i) = AtQueue \<and>
      t_Addr (k_target (conn (relay_lookup None i w) i)) \<in> module_addresses (w_srv w) (k_module (conn w i))"
proof (cases "getTargetsForModule (w_srv w) (k_module (conn w i))")
  case None
  then show ?thesis using assms(2) by (simp add: relay_lookup_def module_addresses_def writes_def put_def at_def Let_def)
next
  case (Some ts)
  then have ts: "ts \<noteq> []" "length ts < 2 ^ 32" using assms(1,3) by (auto simp: srv_inv_def getTargetsForModule_def)
  then obtain j where j: "j < length ts" "chooseTargetByClientIP (ParseIP (client_ip (conn w i))) (length ts) = Some j"
    using chosen_target [of "length ts"] by blast
  then show ?thesis using assms(2) Some ts(1) by (simp add: relay_lookup_def module_addresses_def put_def at_def Let_def)
qed

text \<open>C2: A client that asks a server of the reconciled data plane for a module is sent to a resolved backend of a bound route with
  that module, and is told that the module is unknown exactly when there is none. This holds when the backends of the bound routes get
  different upstream names, their addresses resolve on every lookup, the servers are consistent and without TLS, the server is as
  the reconcile left it, and the module has fewer than \<open>2^32\<close> targets.\<close>

theorem clients_reach_bound_backends:
  assumes "readSnapshot cluster = Inr snap" "BindRoutes x snap (ClaimClasses snap) = Inr results"
    and "distinct (table_names x snap results)" "\<forall>i addr. validateTCPOrUnixAddr (envs i) addr = None" "\<forall>s\<in>set d. plain_server s" "visits_all ro"
    and "Reconcile x ro api now recorder bindAddrs (dataplane_Applier envs) cluster d = Inr r" "w_srv w \<in> set (rc_dataplane r)" "at w i AtLookup"
    and "\<forall>ts. getTargetsForModule (w_srv w) (k_module (conn w i)) = Some ts \<longrightarrow> length ts < 2 ^ 32"
  shows "let m = k_module (conn w i); c = conn (relay_lookup None i w) i; offered = offered_addresses x snap results m in
    if offered = {} then c = returns None ((conn w i)\<lparr>k_out := k_out (conn w i) @ ''@ERROR: Unknown module '' @ [CHR 0x27] @ m @ [CHR 0x27, lineFeed]\<rparr>)
    else k_pc c = AtQueue \<and> t_Addr (k_target c) \<in> offered"
proof -
  have plain: "plain_server (w_srv w)"
    and eq: "module_addresses (w_srv w) (k_module (conn w i)) = offered_addresses x snap results (k_module (conn w i))"
    using reconcile_serves [OF assms(1-6), of api now recorder bindAddrs] assms(7,8) by auto
  have "srv_inv (w_srv w)" using plain by (simp add: plain_server_def)
  from lookup_serves [OF this assms(9,10)] show ?thesis unfolding eq Let_def .
qed

definition asking :: "Server \<Rightarrow> string \<Rightarrow> World" where
  "asking s m = NewWorld\<lparr>w_srv := s, w_conns := [(fresh_conn (TCPAddr [10, 0, 0, 7] 40000) (TCPAddr [10, 0, 0, 1] 873))\<lparr>k_module := m, k_pc := AtLookup\<rparr>]\<rparr>"

lemma sample_applied:
  "case buildTable ext0 listed_order sample_snap (ClaimClasses sample_snap) sample_results of Inl e \<Rightarrow> False
   | Inr table \<Rightarrow>
       (case dataplane_Applier (\<lambda>_. env0) table [NewServer] of
          ([s], e) \<Rightarrow> map_option (map t_Addr) (getTargetsForModule s ''debian'') = Some [''store.mirror.svc:873'']
        | _ \<Rightarrow> False)"
  by code_simp

lemma sample_reconciled:
  obtains r s where "Reconcile ext0 listed_order (\<lambda>_. ApiOk) 100 True ['':873''] (dataplane_Applier (\<lambda>_. env0)) (Inr sample_cluster) [NewServer] = Inr r"
    "rc_dataplane r = [s]" "map_option (map t_Addr) (getTargetsForModule s ''debian'') = Some [''store.mirror.svc:873'']"
proof -
  obtain table where t: "buildTable ext0 listed_order sample_snap (ClaimClasses sample_snap) sample_results = Inr table"
    "case dataplane_Applier (\<lambda>_. env0) table [NewServer] of
       ([s], e) \<Rightarrow> map_option (map t_Addr) (getTargetsForModule s ''debian'') = Some [''store.mirror.svc:873''] | _ \<Rightarrow> False"
    using sample_applied by (cases "buildTable ext0 listed_order sample_snap (ClaimClasses sample_snap) sample_results") simp_all
  then obtain s e where s: "dataplane_Applier (\<lambda>_. env0) table [NewServer] = ([s], e)"
    "map_option (map t_Addr) (getTargetsForModule s ''debian'') = Some [''store.mirror.svc:873'']"
    by (cases "dataplane_Applier (\<lambda>_. env0) table [NewServer]") (auto split: list.splits)
  show thesis
    using that s t(1) sample_cluster_snap sample_BindRoutes
    by (cases "writeStatuses ext0 (\<lambda>_. ApiOk) 100 True ['':873''] sample_snap (ClaimClasses sample_snap) sample_results e")
      (simp add: Reconcile_def)
qed

theorem clients_reach_bound_backends_witness:
  "\<exists>r s. Reconcile ext0 listed_order (\<lambda>_. ApiOk) 100 True ['':873''] (dataplane_Applier (\<lambda>_. env0)) (Inr sample_cluster) [NewServer] = Inr r \<and>
     rc_dataplane r = [s] \<and> k_pc (conn (relay_lookup None 0 (asking s ''debian'')) 0) = AtQueue \<and>
     t_Addr (k_target (conn (relay_lookup None 0 (asking s ''debian'')) 0)) \<in> offered_addresses ext0 sample_snap sample_results ''debian''"
proof -
  obtain r s where r: "Reconcile ext0 listed_order (\<lambda>_. ApiOk) 100 True ['':873''] (dataplane_Applier (\<lambda>_. env0)) (Inr sample_cluster) [NewServer] = Inr r"
    "rc_dataplane r = [s]" "map_option (map t_Addr) (getTargetsForModule s ''debian'') = Some [''store.mirror.svc:873'']"
    by (rule sample_reconciled)
  then obtain t where t: "getTargetsForModule s ''debian'' = Some [t]" by auto
  have "module_addresses s ''debian'' = offered_addresses ext0 sample_snap sample_results ''debian''"
    using reconcile_serves [OF sample_cluster_snap sample_BindRoutes sample_names, of "\<lambda>_. env0" "[NewServer]" listed_order "\<lambda>_. ApiOk" 100 True "['':873'']"]
      plain_NewServer env0_resolves sample_orders r(1,2) by simp
  then have "offered_addresses ext0 sample_snap sample_results ''debian'' \<noteq> {}" using t by (auto simp: module_addresses_def)
  moreover have "w_srv (asking s ''debian'') \<in> set (rc_dataplane r)" "at (asking s ''debian'') 0 AtLookup"
    "k_module (conn (asking s ''debian'') 0) = ''debian''" "w_srv (asking s ''debian'') = s"
    using r(2) by (simp_all add: asking_def at_def)
  ultimately show ?thesis
    using clients_reach_bound_backends [OF sample_cluster_snap sample_BindRoutes sample_names _ _ _ r(1), of "asking s ''debian''" 0]
      plain_NewServer env0_resolves sample_orders t r(1,2) by (auto simp: Let_def)
qed

end
